(* ===== verification/Prelude.thy ===== *)
theory Prelude
  imports Main "HOL-Library.Char_ord" "HOL-Library.List_Lexorder" "HOL-Library.Word"
    "HOL-Library.Multiset"
begin

text \<open>
  What every theory of this development shares: the type of byte strings, the order on them
  (Go compares strings byte by byte, which is the lexicographic order of \<open>List_Lexorder\<close> over
  the byte order of \<open>Char_ord\<close>), the sorting function that models Go's \<open>sort.Slice\<close> and
  \<open>sort.Strings\<close>, association lists that model Go's maps (with the update that appends
  to an entry, as \<open>m[k] = append(m[k], v)\<close> does), and two collections of rewrite rules.
\<close>

named_theorems state_simps \<open>definitions of state-changing operations, unfolded together\<close>
named_theorems wire_simps \<open>definitions of encoders, unfolded together\<close>

type_synonym bytes = string

section \<open>Results\<close>

text \<open>A Go function returning \<open>(T, error)\<close> is modelled by the sum \<open>'e + 'a\<close>: \<open>Inl\<close> is the error.\<close>

definition bind_res :: "'e + 'a \<Rightarrow> ('a \<Rightarrow> 'e + 'b) \<Rightarrow> 'e + 'b" where
  "bind_res r f = (case r of Inl e \<Rightarrow> Inl e | Inr a \<Rightarrow> f a)"

lemma bind_res_simps [simp]:
  "bind_res (Inl e) f = Inl e"
  "bind_res (Inr a) f = f a"
  by (simp_all add: bind_res_def)

lemma bind_res_Inr_iff: "bind_res r f = Inr b \<longleftrightarrow> (\<exists>a. r = Inr a \<and> f a = Inr b)"
  by (cases r) auto

section \<open>Sorting\<close>

text \<open>
  \<open>sort.Slice\<close> permutes its argument into an order in which no element is less than an
  earlier one. It does not promise to keep equal elements in place; the model uses the
  stable \<open>sort_key\<close>, and \<open>sorted_perm_unique\<close> shows that the choice is immaterial
  whenever the keys are distinct.
\<close>

lemma sorted_perm_unique:
  assumes "mset xs = mset ys" and "sorted (map f xs)" and "sorted (map f ys)"
    and "distinct (map f xs)"
  shows "xs = ys"
proof -
  have inj: "inj_on f (set xs)" using assms(4) by (simp add: distinct_map)
  have eqs: "set xs = set ys" using assms(1) by (rule mset_eq_setD)
  have "mset (map f xs) = mset (map f ys)" using assms(1) by simp
  then have "map f xs = map f ys"
    using assms(2,3) by (metis properties_for_sort)
  then show ?thesis
    using inj eqs by (simp add: inj_on_map_eq_map)
qed

lemma sort_key_perm_eq:
  assumes "mset xs = mset ys" and "distinct (map f xs)"
  shows "sort_key f xs = sort_key f ys"
proof (rule sorted_perm_unique [where f = f])
  have "mset (map f (sort_key f xs)) = mset (map f xs)" by simp
  then show "distinct (map f (sort_key f xs))"
    using assms(2) by (metis mset_eq_imp_distinct_iff)
qed (use assms in simp_all)

section \<open>Association lists for Go maps\<close>

fun al_append :: "'k \<Rightarrow> 'v \<Rightarrow> ('k \<times> 'v list) list \<Rightarrow> ('k \<times> 'v list) list" where
  "al_append k v [] = [(k, [v])]"
| "al_append k v ((k', vs) # m) =
     (if k = k' then (k', vs @ [v]) # m else (k', vs) # al_append k v m)"

definition al_get :: "('k \<times> 'v list) list \<Rightarrow> 'k \<Rightarrow> 'v list" where
  "al_get m k = (case map_of m k of None \<Rightarrow> [] | Some vs \<Rightarrow> vs)"

lemma al_get_Nil [simp]: "al_get [] k = []"
  by (simp add: al_get_def)

lemma map_of_al_append:
  "map_of (al_append k v m) k' =
     (if k' = k then Some (al_get m k @ [v]) else map_of m k')"
  by (induction k v m rule: al_append.induct) (auto simp: al_get_def)

lemma al_get_al_append [simp]:
  "al_get (al_append k v m) k' = (if k' = k then al_get m k @ [v] else al_get m k')"
  by (simp add: al_get_def map_of_al_append)

lemma keys_al_append [simp]: "fst ` set (al_append k v m) = insert k (fst ` set m)"
  by (induction k v m rule: al_append.induct) auto

lemma distinct_al_append: "distinct (map fst m) \<Longrightarrow> distinct (map fst (al_append k v m))"
proof (induction k v m rule: al_append.induct)
  case (2 k v k' vs m)
  have "k \<noteq> k' \<Longrightarrow> k' \<notin> fst ` set (al_append k v m)"
    using "2.prems" by simp
  with 2 show ?case by auto
qed simp

lemma al_get_key: "al_get m k \<noteq> [] \<Longrightarrow> k \<in> fst ` set m"
  by (auto simp: al_get_def split: option.splits dest: map_of_SomeD intro: rev_image_eqI)

text \<open>Grouping a list by a key: the loop \<open>for e := range l { m[key e] = append(m[key e], e) }\<close>.\<close>

definition al_group :: "('v \<Rightarrow> 'k) \<Rightarrow> 'v list \<Rightarrow> ('k \<times> 'v list) list" where
  "al_group key vs = fold (\<lambda>v. al_append (key v) v) vs []"

lemma al_get_fold_append:
  "al_get (fold (\<lambda>v. al_append (key v) v) vs m) k = al_get m k @ filter (\<lambda>v. key v = k) vs"
  by (induction vs arbitrary: m) auto

lemma al_get_al_group [simp]: "al_get (al_group key vs) k = filter (\<lambda>v. key v = k) vs"
  by (simp add: al_group_def al_get_fold_append)

lemma keys_fold_append:
  "fst ` set (fold (\<lambda>v. al_append (key v) v) vs m) = key ` set vs \<union> fst ` set m"
  by (induction vs arbitrary: m) auto

lemma keys_al_group [simp]: "fst ` set (al_group key vs) = key ` set vs"
  by (simp add: al_group_def keys_fold_append)

lemma distinct_al_group [simp]: "distinct (map fst (al_group key vs))"
proof -
  have "distinct (map fst m) \<Longrightarrow> distinct (map fst (fold (\<lambda>v. al_append (key v) v) vs m))" for m
    by (induction vs arbitrary: m) (auto intro: distinct_al_append)
  then show ?thesis by (simp add: al_group_def)
qed

end
