(* ===== verification/Go_Text.thy ===== *)
theory Go_Text
  imports Prelude
begin

text \<open>
  The parts of Go's standard library that turn values into bytes and back, as far as the
  program uses them: \<open>strconv\<close> (decimal numbers), \<open>encoding/hex\<close>, \<open>encoding/base64\<close>
  (\<open>StdEncoding\<close>), \<open>unicode/utf8\<close> (the width of a first rune), \<open>bytes.TrimSpace\<close> and
  \<open>bufio.Scanner\<close> with its line splitter and its token limit. A Go \<open>string\<close> and a
  \<open>[]byte\<close> are both \<open>bytes\<close>, lists of 8-bit characters. Each encoder has the round trip
  with its decoder, and the lemmas on the characters an encoder may emit, which the JSON
  layer needs.
\<close>

abbreviation byte :: "char \<Rightarrow> nat" where "byte c \<equiv> of_char c"
abbreviation chr :: "nat \<Rightarrow> char" where "chr n \<equiv> char_of n"
abbreviation LF :: char where "LF \<equiv> CHR 0x0A"
abbreviation CR :: char where "CR \<equiv> CHR 0x0D"
abbreviation DQ :: char where "DQ \<equiv> CHR 0x22"
abbreviation BSL :: char where "BSL \<equiv> CHR 0x5C"

lemma chr_eq_iff: "chr n = c \<longleftrightarrow> n mod 256 = byte c"
  by (metis char_of_char char_of_mod_256 of_char_of)

section \<open>Decimal numbers (strconv)\<close>

definition digit_char :: "nat \<Rightarrow> char" where
  "digit_char d = chr (48 + d)"

definition is_digit :: "char \<Rightarrow> bool" where
  "is_digit c \<longleftrightarrow> 48 \<le> byte c \<and> byte c \<le> 57"

definition digit_val :: "char \<Rightarrow> nat" where
  "digit_val c = byte c - 48"

fun FormatUint :: "nat \<Rightarrow> bytes" where
  "FormatUint n = (if n < 10 then [digit_char n] else FormatUint (n div 10) @ [digit_char (n mod 10)])"

declare FormatUint.simps [simp del]

fun parse_digits :: "nat \<Rightarrow> bytes \<Rightarrow> nat option" where
  "parse_digits acc [] = Some acc"
| "parse_digits acc (c # cs) =
     (if is_digit c then parse_digits (10 * acc + digit_val c) cs else None)"

text \<open>\<open>strconv.ParseUint(s, 10, 64)\<close>: the empty string, a non-digit and overflow are errors.\<close>

definition ParseUint :: "bytes \<Rightarrow> nat option" where
  "ParseUint s = (if s = [] then None else
     case parse_digits 0 s of None \<Rightarrow> None | Some n \<Rightarrow> if n < 2 ^ 64 then Some n else None)"

definition FormatInt :: "int \<Rightarrow> bytes" where
  "FormatInt i = (if i < 0 then CHR ''-'' # FormatUint (nat (- i)) else FormatUint (nat i))"

text \<open>\<open>strconv.ParseInt(s, 10, 64)\<close>.\<close>

definition ParseInt :: "bytes \<Rightarrow> int option" where
  "ParseInt s =
     (case s of
        [] \<Rightarrow> None
      | c # r \<Rightarrow>
          if c = CHR ''-'' then
            (case ParseUint r of None \<Rightarrow> None | Some n \<Rightarrow> if n \<le> 2 ^ 63 then Some (- int n) else None)
          else
            (case ParseUint (if c = CHR ''+'' then r else s) of
               None \<Rightarrow> None | Some n \<Rightarrow> if n < 2 ^ 63 then Some (int n) else None))"

lemma byte_digit_char [simp]: "d < 10 \<Longrightarrow> byte (digit_char d) = 48 + d"
  by (simp add: digit_char_def of_char_of)

lemma is_digit_digit_char [simp]: "d < 10 \<Longrightarrow> is_digit (digit_char d)"
  by (simp add: is_digit_def)

lemma digit_val_digit_char [simp]: "d < 10 \<Longrightarrow> digit_val (digit_char d) = d"
  by (simp add: digit_val_def)

lemma parse_digits_append:
  "parse_digits acc (xs @ ys) =
     (case parse_digits acc xs of None \<Rightarrow> None | Some a \<Rightarrow> parse_digits a ys)"
  by (induction acc xs rule: parse_digits.induct) auto

lemma FormatUint_nonempty [simp]: "FormatUint n \<noteq> []"
  by (subst FormatUint.simps) simp

lemma FormatUint_digits: "c \<in> set (FormatUint n) \<Longrightarrow> is_digit c"
proof (induction n rule: FormatUint.induct)
  case (1 n)
  then show ?case by (subst (asm) FormatUint.simps) (auto split: if_splits)
qed

lemma parse_digits_FormatUint [simp]: "parse_digits 0 (FormatUint n) = Some n"
proof (induction n rule: FormatUint.induct)
  case (1 n)
  then show ?case by (subst FormatUint.simps) (auto simp: parse_digits_append)
qed

lemma ParseUint_FormatUint [simp]: "n < 2 ^ 64 \<Longrightarrow> ParseUint (FormatUint n) = Some n"
  by (simp add: ParseUint_def)

lemma FormatUint_inject [simp]: "FormatUint m = FormatUint n \<longleftrightarrow> m = n"
  by (metis option.inject parse_digits_FormatUint)

lemma FormatUint_0: "FormatUint 0 = ''0''"
  by (subst FormatUint.simps) (simp add: digit_char_def chr_eq_iff)

text \<open>A decimal number has no leading zero unless it is zero.\<close>

lemma hd_FormatUint: "hd (FormatUint n) = CHR ''0'' \<longleftrightarrow> n = 0"
proof (induction n rule: FormatUint.induct)
  case (1 n)
  have z: "digit_char d = CHR ''0'' \<longleftrightarrow> d = 0" if "d < 10" for d
  proof
    assume "digit_char d = CHR ''0''"
    then have "byte (digit_char d) = byte (CHR ''0'')" by simp
    with that show "d = 0" by simp
  qed (simp add: digit_char_def chr_eq_iff)
  show ?case
  proof (cases "n < 10")
    case True
    then show ?thesis using z [of n] by (subst FormatUint.simps) simp
  next
    case False
    then have "hd (FormatUint n) = hd (FormatUint (n div 10))"
      by (subst FormatUint.simps) (simp add: hd_append)
    with False "1.IH" show ?thesis by auto
  qed
qed

lemma FormatUint_Cons: obtains d r where "FormatUint n = d # r" "is_digit d"
proof (cases "FormatUint n")
  case (Cons d r)
  then have "is_digit d" using FormatUint_digits [of d n] by simp
  with Cons that show thesis by blast
qed simp

lemma not_digit_minus [simp]: "\<not> is_digit CHR ''-''" "\<not> is_digit CHR ''+''"
  by (simp_all add: is_digit_def)

lemma ParseInt_FormatInt:
  assumes "- (2 ^ 63) \<le> i" and "i < 2 ^ 63"
  shows "ParseInt (FormatInt i) = Some i"
proof (cases "i < 0")
  case True
  with assms have "nat (- i) \<le> 2 ^ 63" by simp
  moreover from this have "nat (- i) < 2 ^ 64" by simp
  ultimately show ?thesis using True by (simp add: ParseInt_def FormatInt_def)
next
  case False
  obtain d r where d: "FormatUint (nat i) = d # r" "is_digit d" by (rule FormatUint_Cons)
  then have "d \<noteq> CHR ''-''" "d \<noteq> CHR ''+''" by (auto simp: is_digit_def)
  moreover from False assms have "nat i < 2 ^ 63" by simp
  moreover from this have "ParseUint (FormatUint (nat i)) = Some (nat i)" by simp
  ultimately show ?thesis using False d by (simp add: ParseInt_def FormatInt_def)
qed

lemma FormatInt_inject [simp]: "FormatInt i = FormatInt j \<longleftrightarrow> i = j"
proof
  assume eq: "FormatInt i = FormatInt j"
  have neg: "FormatUint n \<noteq> CHR ''-'' # r" for n r
    by (rule FormatUint_Cons [of n]) auto
  from eq neg show "i = j"
    by (auto simp: FormatInt_def split: if_splits) (metis neg)+
qed simp

section \<open>Hexadecimal (encoding/hex)\<close>

definition hex_digit :: "nat \<Rightarrow> char" where
  "hex_digit n = (if n < 10 then chr (48 + n) else chr (87 + n))"

definition hex_val :: "char \<Rightarrow> nat option" where
  "hex_val c = (let b = byte c in
     if 48 \<le> b \<and> b \<le> 57 then Some (b - 48)
     else if 97 \<le> b \<and> b \<le> 102 then Some (b - 87)
     else if 65 \<le> b \<and> b \<le> 70 then Some (b - 55)
     else None)"

fun hex_EncodeToString :: "bytes \<Rightarrow> bytes" where
  "hex_EncodeToString [] = []"
| "hex_EncodeToString (c # cs) =
     hex_digit (byte c div 16) # hex_digit (byte c mod 16) # hex_EncodeToString cs"

fun hex_DecodeString :: "bytes \<Rightarrow> bytes option" where
  "hex_DecodeString [] = Some []"
| "hex_DecodeString [c] = None"
| "hex_DecodeString (x # y # cs) =
     (case (hex_val x, hex_val y, hex_DecodeString cs) of
        (Some a, Some b, Some r) \<Rightarrow> Some (chr (16 * a + b) # r)
      | _ \<Rightarrow> None)"

lemma hex_val_hex_digit [simp]: "n < 16 \<Longrightarrow> hex_val (hex_digit n) = Some n"
  by (auto simp: hex_val_def hex_digit_def of_char_of Let_def)

lemma byte_div16 [simp]: "byte c div 16 < 16"
  by (rule less_mult_imp_div_less) (use nat_of_char_less_256 [of c] in simp)

lemma hex_Decode_Encode [simp]: "hex_DecodeString (hex_EncodeToString s) = Some s"
  by (induction s) auto

lemma hex_Encode_inject [simp]: "hex_EncodeToString s = hex_EncodeToString t \<longleftrightarrow> s = t"
  by (metis hex_Decode_Encode option.inject)

lemma length_hex_Encode [simp]: "length (hex_EncodeToString s) = 2 * length s"
  by (induction s) auto

text \<open>The plain characters: ASCII letters, digits, \<open>+\<close>, \<open>/\<close> and \<open>=\<close>, which no encoder escapes.\<close>

definition plain_char :: "char \<Rightarrow> bool" where
  "plain_char c \<longleftrightarrow> (let b = byte c in
     48 \<le> b \<and> b \<le> 57 \<or> 65 \<le> b \<and> b \<le> 90 \<or> 97 \<le> b \<and> b \<le> 122 \<or> b = 43 \<or> b = 47 \<or> b = 61)"

lemma plain_hex_digit: "n < 16 \<Longrightarrow> plain_char (hex_digit n)"
  by (auto simp: plain_char_def hex_digit_def of_char_of Let_def)

lemma plain_hex_Encode: "list_all plain_char (hex_EncodeToString s)"
  by (induction s) (auto simp: plain_hex_digit)

section \<open>Base64 (encoding/base64, StdEncoding)\<close>

definition b64_char :: "nat \<Rightarrow> char" where
  "b64_char n =
     (if n < 26 then chr (65 + n) else if n < 52 then chr (71 + n)
      else if n < 62 then chr (n - 4) else if n = 62 then CHR ''+'' else CHR ''/'')"

definition b64_val :: "char \<Rightarrow> nat option" where
  "b64_val c = (let b = byte c in
     if 65 \<le> b \<and> b \<le> 90 then Some (b - 65)
     else if 97 \<le> b \<and> b \<le> 122 then Some (b - 71)
     else if 48 \<le> b \<and> b \<le> 57 then Some (b + 4)
     else if b = 43 then Some 62 else if b = 47 then Some 63 else None)"

fun b64_EncodeToString :: "bytes \<Rightarrow> bytes" where
  "b64_EncodeToString [] = []"
| "b64_EncodeToString [a] =
     [b64_char (byte a div 4), b64_char (byte a mod 4 * 16), CHR ''='', CHR ''='']"
| "b64_EncodeToString [a, b] =
     [b64_char (byte a div 4), b64_char (byte a mod 4 * 16 + byte b div 16),
      b64_char (byte b mod 16 * 4), CHR ''='']"
| "b64_EncodeToString (a # b # c # r) =
     b64_char (byte a div 4) # b64_char (byte a mod 4 * 16 + byte b div 16) #
     b64_char (byte b mod 16 * 4 + byte c div 64) # b64_char (byte c mod 64) #
     b64_EncodeToString r"

text \<open>
  The decoder skips line breaks anywhere, wants the padding, and, not being strict, ignores
  the unused low bits of the last character.
\<close>

fun b64_decode_quads :: "bytes \<Rightarrow> bytes option" where
  "b64_decode_quads [] = Some []"
| "b64_decode_quads (p # q # r # s # rest) =
     (case (b64_val p, b64_val q) of
        (Some a, Some b) \<Rightarrow>
          (case (b64_val r, b64_val s) of
             (Some c, Some d) \<Rightarrow>
               (case b64_decode_quads rest of
                  None \<Rightarrow> None
                | Some t \<Rightarrow> Some (chr (a * 4 + b div 16) # chr (b mod 16 * 16 + c div 4) #
                                chr (c mod 4 * 64 + d) # t))
           | (Some c, None) \<Rightarrow>
               if s = CHR ''='' \<and> rest = []
               then Some [chr (a * 4 + b div 16), chr (b mod 16 * 16 + c div 4)] else None
           | (None, _) \<Rightarrow>
               if r = CHR ''='' \<and> s = CHR ''='' \<and> rest = []
               then Some [chr (a * 4 + b div 16)] else None)
      | _ \<Rightarrow> None)"
| "b64_decode_quads _ = None"

definition b64_DecodeString :: "bytes \<Rightarrow> bytes option" where
  "b64_DecodeString s = b64_decode_quads (filter (\<lambda>c. c \<noteq> LF \<and> c \<noteq> CR) s)"

lemma b64_val_char [simp]: "n < 64 \<Longrightarrow> b64_val (b64_char n) = Some n"
  by (auto simp: b64_val_def b64_char_def of_char_of Let_def)

lemma b64_val_eq [simp]: "b64_val CHR ''='' = None"
  by (simp add: b64_val_def)

lemma plain_b64_char: "n < 64 \<Longrightarrow> plain_char (b64_char n)"
  by (auto simp: plain_char_def b64_char_def of_char_of Let_def)

lemma div_mod_mult_add:
  fixes k :: nat
  assumes "y < k"
  shows "(x * k + y) div k = x" "(x * k + y) mod k = y"
  using assms by simp_all

lemma byte_bounds [simp]:
  "byte c div 4 < 64" "byte c div 64 < 4" "byte c mod 4 * 16 + byte d div 16 < 64"
  "byte c mod 4 * 16 < 64" "byte c mod 16 * 4 < 64" "byte c mod 16 * 4 + byte d div 64 < 64"
proof -
  have b: "byte c < 256" "byte d < 256" by (rule nat_of_char_less_256)+
  then show "byte c div 4 < 64" "byte c div 64 < 4"
    by (simp_all add: div_less_iff_less_mult)
  have "byte c mod 4 < 4" "byte c mod 16 < 16" "byte d div 16 < 16" "byte d div 64 < 4"
    using b by (simp_all add: div_less_iff_less_mult)
  then show "byte c mod 4 * 16 + byte d div 16 < 64" "byte c mod 4 * 16 < 64"
    "byte c mod 16 * 4 < 64" "byte c mod 16 * 4 + byte d div 64 < 64"
    by linarith+
qed

lemma chr_byte_split:
  "chr (byte a div 4 * 4 + (byte a mod 4 * 16 + byte b div 16) div 16) = a"
  "chr ((byte a mod 4 * 16 + byte b div 16) mod 16 * 16 + (byte b mod 16 * 4 + byte c div 64) div 4) = b"
  "chr ((byte b mod 16 * 4 + byte c div 64) mod 4 * 64 + byte c mod 64) = c"
  by (simp_all add: div_mod_mult_add del: div_mult_self1 div_mult_self2 div_mult_self3 div_mult_self4
      mod_mult_self1 mod_mult_self2 mod_mult_self3 mod_mult_self4)

lemma chr_byte_split_last:
  "chr (byte a div 4 * 4 + byte a mod 4 * 16 div 16) = a"
  "chr ((byte a mod 4 * 16 + byte b div 16) mod 16 * 16 + byte b mod 16 * 4 div 4) = b"
  by (simp_all add: div_mod_mult_add)

lemma b64_decode_quads_encode: "b64_decode_quads (b64_EncodeToString s) = Some s"
  by (induction s rule: b64_EncodeToString.induct)
    (simp_all only: b64_EncodeToString.simps b64_decode_quads.simps byte_bounds b64_val_char
      option.case prod.case b64_val_eq chr_byte_split chr_byte_split_last simp_thms if_True
      mod_less_divisor)

lemma plain_eq [simp]: "plain_char CHR ''=''"
  by (simp add: plain_char_def)

lemma plain_b64_Encode: "list_all plain_char (b64_EncodeToString s)"
  by (induction s rule: b64_EncodeToString.induct) (simp_all add: plain_b64_char)

lemma plain_no_break: "list_all plain_char s \<Longrightarrow> filter (\<lambda>c. c \<noteq> LF \<and> c \<noteq> CR) s = s"
  by (induction s) (auto simp: plain_char_def)

lemma b64_Decode_Encode [simp]: "b64_DecodeString (b64_EncodeToString s) = Some s"
  by (simp add: b64_DecodeString_def plain_no_break plain_b64_Encode b64_decode_quads_encode)

section \<open>UTF-8 (unicode/utf8)\<close>

definition in_rng :: "nat \<Rightarrow> nat \<Rightarrow> char \<Rightarrow> bool" where
  "in_rng lo hi c \<longleftrightarrow> lo \<le> byte c \<and> byte c \<le> hi"

text \<open>
  \<open>utf8.DecodeRune\<close>: the width of the first rune, 0 where Go reports \<open>RuneError\<close> with
  width 1, that is, on an invalid first byte, a bad continuation, an overlong form, a
  surrogate or a value past \<open>U+10FFFF\<close>.
\<close>

definition utf8_shape :: "char \<Rightarrow> (nat \<times> nat) list option" where
  "utf8_shape a =
     (if byte a < 128 then Some []
      else if in_rng 194 223 a then Some [(128, 191)]
      else if in_rng 224 239 a then
        Some [(if byte a = 224 then 160 else 128, if byte a = 237 then 159 else 191), (128, 191)]
      else if in_rng 240 244 a then
        Some [(if byte a = 240 then 144 else 128, if byte a = 244 then 143 else 191), (128, 191), (128, 191)]
      else None)"

fun continues :: "(nat \<times> nat) list \<Rightarrow> bytes \<Rightarrow> bool" where
  "continues [] r = True"
| "continues (x # xs) [] = False"
| "continues (x # xs) (b # r) = (in_rng (fst x) (snd x) b \<and> continues xs r)"

fun utf8_width :: "bytes \<Rightarrow> nat" where
  "utf8_width [] = 0"
| "utf8_width (a # r) =
     (case utf8_shape a of None \<Rightarrow> 0 | Some rs \<Rightarrow> if continues rs r then Suc (length rs) else 0)"

function valid_utf8 :: "bytes \<Rightarrow> bool" where
  "valid_utf8 [] = True"
| "valid_utf8 (c # r) =
     (let w = utf8_width (c # r) in w \<noteq> 0 \<and> valid_utf8 (drop (w - 1) r))"
  by pat_completeness auto
termination by (relation "measure length") auto

declare valid_utf8.simps(2) [simp del]

lemma continues_length: "continues rs r \<Longrightarrow> length rs \<le> length r"
  by (induction rs r rule: continues.induct) auto

lemma continues_append: "continues rs r \<Longrightarrow> continues rs (r @ t)"
  by (induction rs r rule: continues.induct) auto

lemma continues_take: "continues rs r \<Longrightarrow> continues rs (take (length rs) r @ t)"
  by (induction rs r rule: continues.induct) auto

lemma utf8_width_le: "utf8_width s \<le> length s"
  by (cases s) (auto split: option.splits dest: continues_length)

lemma utf8_width_append:
  "utf8_width s \<noteq> 0 \<Longrightarrow> utf8_width (s @ t) = utf8_width s"
  by (cases s) (auto split: option.splits if_splits dest: continues_append)

lemma utf8_width_take:
  assumes "utf8_width s = w" and "w \<noteq> 0"
  shows "utf8_width (take w s @ t) = w"
  using assms by (cases s) (auto split: option.splits if_splits simp: continues_take)

lemma utf8_width_ascii [simp]: "byte a < 128 \<Longrightarrow> utf8_width (a # r) = 1"
  by (simp add: utf8_shape_def)

declare utf8_width.simps(2) [simp del]

lemma valid_utf8_ascii_Cons: "byte a < 128 \<Longrightarrow> valid_utf8 (a # r) \<longleftrightarrow> valid_utf8 r"
  by (simp add: valid_utf8.simps(2))

lemma valid_utf8_append: "valid_utf8 s \<Longrightarrow> valid_utf8 t \<Longrightarrow> valid_utf8 (s @ t)"
proof (induction s rule: valid_utf8.induct)
  case (2 c r)
  let ?w = "utf8_width (c # r)"
  from "2.prems" have w: "?w \<noteq> 0" and v: "valid_utf8 (drop (?w - 1) r)"
    by (simp_all add: valid_utf8.simps(2) Let_def)
  have "?w - 1 \<le> length r" using utf8_width_le [of "c # r"] by simp
  moreover have "utf8_width (c # r @ t) = ?w" using utf8_width_append [OF w, of t] by simp
  moreover have "valid_utf8 (drop (?w - 1) r @ t)"
    using "2.IH" [OF refl] w v "2.prems"(2) by blast
  ultimately show ?case using w by (simp add: valid_utf8.simps(2))
qed simp

lemma valid_utf8_ascii: "list_all (\<lambda>c. byte c < 128) s \<Longrightarrow> valid_utf8 s"
  by (induction s) (simp_all add: valid_utf8_ascii_Cons)

lemma plain_ascii: "list_all plain_char s \<Longrightarrow> list_all (\<lambda>c. byte c < 128) s"
  by (auto simp: list_all_iff plain_char_def Let_def)

lemma valid_utf8_plain: "list_all plain_char s \<Longrightarrow> valid_utf8 s"
  by (intro valid_utf8_ascii plain_ascii)

lemma valid_utf8_hex [simp]: "valid_utf8 (hex_EncodeToString s)"
  by (rule valid_utf8_plain [OF plain_hex_Encode])

lemma valid_utf8_b64 [simp]: "valid_utf8 (b64_EncodeToString s)"
  by (rule valid_utf8_plain [OF plain_b64_Encode])

section \<open>Lines of a file (bufio.Scanner, bytes.TrimSpace)\<close>

text \<open>
  \<open>bufio.ScanLines\<close> cuts at every line feed, drops one carriage return before it, and hands
  out an unterminated rest. A scanner whose buffer may grow to \<open>limit\<close> bytes stops with
  \<open>ErrTooLong\<close> at the first line of \<open>limit\<close> bytes or more, having handed out the lines before it.
\<close>

function split_lines :: "bytes \<Rightarrow> bytes list" where
  "split_lines [] = []"
| "split_lines (c # s) =
     takeWhile (\<lambda>c. c \<noteq> LF) (c # s) #
     (case dropWhile (\<lambda>c. c \<noteq> LF) (c # s) of [] \<Rightarrow> [] | _ # r \<Rightarrow> split_lines r)"
  by pat_completeness auto
termination
proof (relation "measure length", goal_cases)
  case (2 c s x r)
  then have "Suc (length r) = length (dropWhile (\<lambda>c. c \<noteq> LF) (c # s))" by simp
  also have "\<dots> \<le> length (c # s)" by (rule length_dropWhile_le)
  finally show ?case by simp
qed simp

declare split_lines.simps(2) [simp del]

definition drop_cr :: "bytes \<Rightarrow> bytes" where
  "drop_cr l = (if l \<noteq> [] \<and> last l = CR then butlast l else l)"

definition scan_lines :: "nat \<Rightarrow> bytes \<Rightarrow> bytes list \<times> bool" where
  "scan_lines limit s =
     (let ls = split_lines s
      in (map drop_cr (takeWhile (\<lambda>l. length l < limit) ls), \<exists>l \<in> set ls. limit \<le> length l))"

definition unicode_spaces :: "bytes list" where
  "unicode_spaces =
     [[CHR 0x09], [CHR 0x0A], [CHR 0x0B], [CHR 0x0C], [CHR 0x0D], [CHR 0x20],
      [CHR 0xC2, CHR 0x85], [CHR 0xC2, CHR 0xA0], [CHR 0xE1, CHR 0x9A, CHR 0x80],
      [CHR 0xE2, CHR 0x80, CHR 0xA8], [CHR 0xE2, CHR 0x80, CHR 0xA9],
      [CHR 0xE2, CHR 0x80, CHR 0xAF], [CHR 0xE2, CHR 0x81, CHR 0x9F], [CHR 0xE3, CHR 0x80, CHR 0x80]]
     @ map (\<lambda>n. [CHR 0xE2, CHR 0x80, chr (128 + n)]) [0..<11]"

definition strip_space :: "bytes \<Rightarrow> bytes option" where
  "strip_space s =
     (case filter (\<lambda>p. take (length p) s = p) unicode_spaces of
        [] \<Rightarrow> None | p # _ \<Rightarrow> Some (drop (length p) s))"

definition strip_space_end :: "bytes \<Rightarrow> bytes option" where
  "strip_space_end s =
     (case filter (\<lambda>p. length p \<le> length s \<and> drop (length s - length p) s = p) unicode_spaces of
        [] \<Rightarrow> None | p # _ \<Rightarrow> Some (take (length s - length p) s))"

lemma unicode_spaces_ne: "p \<in> set unicode_spaces \<Longrightarrow> p \<noteq> []"
  by (auto simp: unicode_spaces_def)

lemma strip_space_shorter: "strip_space s = Some t \<Longrightarrow> length t < length s"
proof -
  assume "strip_space s = Some t"
  then obtain p ps where f: "filter (\<lambda>p. take (length p) s = p) unicode_spaces = p # ps"
    and t: "t = drop (length p) s"
    by (auto simp: strip_space_def split: list.splits)
  from f have "p \<in> set (filter (\<lambda>p. take (length p) s = p) unicode_spaces)" by simp
  then have "p \<noteq> []" "take (length p) s = p" using unicode_spaces_ne by auto
  then show ?thesis using t by (cases s) auto
qed

lemma strip_space_end_shorter: "strip_space_end s = Some t \<Longrightarrow> length t < length s"
proof -
  assume "strip_space_end s = Some t"
  then obtain p ps where
    f: "filter (\<lambda>p. length p \<le> length s \<and> drop (length s - length p) s = p) unicode_spaces = p # ps"
    and t: "t = take (length s - length p) s"
    by (auto simp: strip_space_end_def split: list.splits)
  from f have "p \<in> set (filter (\<lambda>p. length p \<le> length s \<and> drop (length s - length p) s = p) unicode_spaces)"
    by simp
  then have "p \<noteq> []" "length p \<le> length s" using unicode_spaces_ne by auto
  then have "0 < length p" "length p \<le> length s" by simp_all
  then have "length s - length p < length s" by linarith
  then show ?thesis using t by simp
qed

function trim_left :: "bytes \<Rightarrow> bytes" where
  "trim_left s = (case strip_space s of None \<Rightarrow> s | Some t \<Rightarrow> trim_left t)"
  by pat_completeness auto
termination by (relation "measure length") (auto dest: strip_space_shorter)

function trim_right :: "bytes \<Rightarrow> bytes" where
  "trim_right s = (case strip_space_end s of None \<Rightarrow> s | Some t \<Rightarrow> trim_right t)"
  by pat_completeness auto
termination by (relation "measure length") (auto dest: strip_space_end_shorter)

declare trim_left.simps [simp del] trim_right.simps [simp del]

definition TrimSpace :: "bytes \<Rightarrow> bytes" where
  "TrimSpace s = trim_right (trim_left s)"

text \<open>A text that starts and ends with a printable ASCII character is its own trimming.\<close>

lemma strip_space_none:
  assumes "32 < byte c" and "byte c < 128"
  shows "strip_space (c # s) = None"
proof -
  have "\<not> take (length p) (c # s) = p" if "p \<in> set unicode_spaces" for p
    using assms that by (auto simp: unicode_spaces_def)
  then show ?thesis by (simp add: strip_space_def filter_empty_conv)
qed

lemma strip_space_end_none:
  assumes "32 < byte c" and "byte c < 128"
  shows "strip_space_end (s @ [c]) = None"
proof -
  have neq: "last p \<noteq> c" if "p \<in> set unicode_spaces" for p
    using assms that by (auto simp: unicode_spaces_def chr_eq_iff)
  have "\<not> (length p \<le> length (s @ [c]) \<and> drop (length (s @ [c]) - length p) (s @ [c]) = p)"
    if p: "p \<in> set unicode_spaces" for p
  proof
    assume "length p \<le> length (s @ [c]) \<and> drop (length (s @ [c]) - length p) (s @ [c]) = p"
    moreover from this unicode_spaces_ne [OF p] have "length (s @ [c]) - length p < length (s @ [c])"
      by (metis diff_less length_greater_0_conv length_append_singleton zero_less_Suc)
    ultimately have "last p = last (s @ [c])" by (metis last_drop)
    with neq [OF p] show False by simp
  qed
  then show ?thesis by (simp add: strip_space_end_def filter_empty_conv)
qed

lemma TrimSpace_id:
  assumes "s \<noteq> []" and "32 < byte (hd s)" "byte (hd s) < 128"
    and "32 < byte (last s)" "byte (last s) < 128"
  shows "TrimSpace s = s"
proof -
  have "strip_space s = None" using assms strip_space_none [of "hd s" "tl s"] by simp
  moreover have "strip_space_end s = None"
    using assms strip_space_end_none [of "last s" "butlast s"] by simp
  ultimately show ?thesis
    by (simp add: TrimSpace_def trim_left.simps [of s] trim_right.simps [of s])
qed

text \<open>A text that starts with a printable ASCII character is only trimmed at its end, and not to nothing.\<close>

lemma strip_space_end_prefix:
  assumes "strip_space_end s = Some t" and "s \<noteq> []" and "32 < byte (hd s)" and "byte (hd s) < 128"
  shows "\<exists>u. s = t @ u \<and> t \<noteq> []"
proof -
  from assms(1) obtain p ps where
    f: "filter (\<lambda>p. length p \<le> length s \<and> drop (length s - length p) s = p) unicode_spaces = p # ps"
    and t: "t = take (length s - length p) s"
    by (auto simp: strip_space_end_def split: list.splits)
  from f have "p \<in> set (filter (\<lambda>p. length p \<le> length s \<and> drop (length s - length p) s = p) unicode_spaces)"
    by simp
  then have p: "p \<in> set unicode_spaces" "length p \<le> length s" "drop (length s - length p) s = p" by auto
  have "length s \<noteq> length p"
  proof
    assume "length s = length p"
    with p(3) have "s = p" by simp
    with p(1) assms(3,4) show False by (auto simp: unicode_spaces_def)
  qed
  with p(2) t have "t \<noteq> []" using assms(2) by simp
  moreover have "s = t @ drop (length s - length p) s"
    unfolding t by (rule append_take_drop_id [symmetric])
  ultimately show ?thesis by blast
qed

lemma trim_right_prefix:
  "s \<noteq> [] \<Longrightarrow> 32 < byte (hd s) \<Longrightarrow> byte (hd s) < 128 \<Longrightarrow> \<exists>u. s = trim_right s @ u \<and> trim_right s \<noteq> []"
proof (induction s rule: trim_right.induct)
  case (1 s)
  show ?case
  proof (cases "strip_space_end s")
    case None
    then show ?thesis using "1.prems" by (simp add: trim_right.simps [of s])
  next
    case (Some t)
    obtain u where u: "s = t @ u" "t \<noteq> []"
      using strip_space_end_prefix [OF Some "1.prems"] by blast
    then have "hd t = hd s" by simp
    then obtain v where "t = trim_right t @ v" "trim_right t \<noteq> []"
      using "1.IH" [OF Some u(2)] "1.prems"(2,3) by (simp only:) blast
    moreover have "trim_right s = trim_right t" using Some by (simp add: trim_right.simps [of s])
    ultimately show ?thesis using u(1) by (metis append_assoc)
  qed
qed

lemma TrimSpace_prefix:
  assumes "s \<noteq> []" and "32 < byte (hd s)" and "byte (hd s) < 128"
  shows "\<exists>u. s = TrimSpace s @ u \<and> TrimSpace s \<noteq> []"
proof -
  have "strip_space s = None" using assms strip_space_none [of "hd s" "tl s"] by simp
  then show ?thesis using trim_right_prefix [OF assms] by (simp add: TrimSpace_def trim_left.simps [of s])
qed

text \<open>A file as a reader finds it: absent, not to be opened, failing while it is read, or its bytes.\<close>

datatype disk_file = NotExist | OpenFails | ReadFails | Content bytes

text \<open>A file of terminated lines scans back into those lines, with an unterminated rest as one more.\<close>

definition scannable :: "nat \<Rightarrow> bytes \<Rightarrow> bool" where
  "scannable limit l \<longleftrightarrow> LF \<notin> set l \<and> (l = [] \<or> last l \<noteq> CR) \<and> length l < limit"

definition terminate_lines :: "bytes list \<Rightarrow> bytes" where
  "terminate_lines ls = concat (map (\<lambda>l. l @ [LF]) ls)"

lemma terminate_lines_simps [simp]:
  "terminate_lines [] = []"
  "terminate_lines (l # ls) = l @ LF # terminate_lines ls"
  "terminate_lines (ls @ ms) = terminate_lines ls @ terminate_lines ms"
  by (simp_all add: terminate_lines_def)

lemma split_lines_line:
  assumes "LF \<notin> set l"
  shows "split_lines (l @ LF # r) = l # split_lines r"
proof -
  have "takeWhile (\<lambda>c. c \<noteq> LF) (l @ LF # r) = l" "dropWhile (\<lambda>c. c \<noteq> LF) (l @ LF # r) = LF # r"
    using assms by (auto simp: takeWhile_append dropWhile_append)
  moreover obtain a t where at: "l @ LF # r = a # t" by (cases l) auto
  ultimately show ?thesis
    unfolding at split_lines.simps(2) by (simp only: list.case)
qed

lemma split_lines_rest: "LF \<notin> set t \<Longrightarrow> t \<noteq> [] \<Longrightarrow> split_lines t = [t]"
proof (cases t)
  case (Cons a r)
  assume "LF \<notin> set t"
  then have "takeWhile (\<lambda>c. c \<noteq> LF) t = t" "dropWhile (\<lambda>c. c \<noteq> LF) t = []"
    by (auto simp: takeWhile_eq_all_conv dropWhile_eq_Nil_conv)
  then show ?thesis unfolding Cons split_lines.simps(2) by (simp only: list.case)
qed simp

lemma split_terminated:
  "\<forall>l \<in> set ls. LF \<notin> set l \<Longrightarrow> split_lines (terminate_lines ls @ t) = ls @ split_lines t"
  by (induction ls) (simp_all add: split_lines_line)

lemma drop_cr_id: "l = [] \<or> last l \<noteq> CR \<Longrightarrow> drop_cr l = l"
  by (auto simp: drop_cr_def)

lemma scan_terminated:
  assumes "\<forall>l \<in> set ls. scannable limit l" and "scannable limit t" 
  shows "scan_lines limit (terminate_lines ls @ t) = (if t = [] then ls else ls @ [t], False)"
proof -
  let ?ls = "if t = [] then ls else ls @ [t]"
  have sp: "split_lines (terminate_lines ls @ t) = ?ls"
    using assms split_lines_rest by (auto simp: scannable_def split_terminated)
  have "map drop_cr ?ls = ?ls"
    using assms by (intro map_idI drop_cr_id) (auto simp: scannable_def split: if_splits)
  moreover have "\<forall>l \<in> set ?ls. length l < limit"
    using assms by (auto simp: scannable_def)
  moreover from this have "takeWhile (\<lambda>l. length l < limit) ?ls = ?ls"
    by (simp add: takeWhile_eq_all_conv)
  ultimately show ?thesis
    unfolding scan_lines_def sp Let_def by (simp only: prod.inject) (auto simp: not_le)
qed

text \<open>A stretch of text without line feed lies within one line, so one that is too long stops the scanner.\<close>

lemma split_lines_stretch:
  assumes "LF \<notin> set l" and "l \<noteq> []"
  shows "\<exists>m \<in> set (split_lines (s @ l @ r)). length l \<le> length m"
proof (induction "length s" arbitrary: s rule: less_induct)
  case less
  show ?case
  proof (cases "LF \<in> set s")
    case True
    then obtain a b where s: "s = a @ LF # b" "LF \<notin> set a" by (meson split_list_first)
    then obtain m where "m \<in> set (split_lines (b @ l @ r))" "length l \<le> length m" using less [of b] by auto
    then show ?thesis using split_lines_line [OF s(2), of "b @ l @ r"] s(1) by auto
  next
    case False
    obtain c u where cu: "s @ l @ r = c # u" using assms(2) by (cases "s @ l @ r") auto
    have "takeWhile (\<lambda>c. c \<noteq> LF) (s @ l @ r) = (s @ l) @ takeWhile (\<lambda>c. c \<noteq> LF) r"
      using False assms(1) takeWhile_append2 [of "s @ l" "\<lambda>c. c \<noteq> LF" r] by (metis Un_iff append_assoc set_append)
    then have "length l \<le> length (takeWhile (\<lambda>c. c \<noteq> LF) (c # u))" by (simp only: cu [symmetric]) simp
    then show ?thesis unfolding cu split_lines.simps(2) by (meson list.set_intros(1))
  qed
qed

lemma scan_too_long:
  assumes "LF \<notin> set l" and "l \<noteq> []" and "limit \<le> length l"
  shows "snd (scan_lines limit (s @ l @ r))"
  using split_lines_stretch [OF assms(1,2), of s r] assms(3) by (auto simp: scan_lines_def Let_def intro: order_trans)

end
