(* ===== verification/Json.thy ===== *)
theory Json
  imports Go_Text
begin

text \<open>
  Go's \<open>encoding/json\<close>, as far as the program uses it. A document is a tree \<open>json\<close> whose
  strings and numbers are kept as the raw text between their delimiters, because a
  type's own \<open>UnmarshalJSON\<close> is handed raw text. \<open>render\<close> writes the compact form;
  \<open>esc\<close> is the string escaping of \<open>json.Marshal\<close> with HTML escaping on (invalid UTF-8 becomes
  the escape \<open>ufffd\<close>); \<open>parse_json\<close> is the recursive descent over the same grammar
  with Go's nesting limit; \<open>unq\<close> decodes a raw string. The main results: rendering then
  parsing gives the tree back (\<open>parse_render\<close>), escaping then unquoting gives a valid UTF-8
  text back (\<open>unq_esc\<close>), the fuel of the parser is enough (\<open>parse_value_fuel\<close>), and a
  rendered object has no proper prefix that is a document (\<open>no_valid_prefix\<close>).

  The second half models decoding into structs: a struct is a table of field names and
  setters, members are taken in order, names match exactly or else up to case folding,
  unknown members are skipped, \<open>null\<close> leaves a field alone. A repeated slice member is decoded
  from fresh elements (Go would decode into the elements left by the first).
\<close>

section \<open>Strings\<close>

definition esc_ascii :: "char \<Rightarrow> bytes" where
  "esc_ascii c =
     (let b = byte c in
      if b = 34 \<or> b = 92 then [BSL, c]
      else if b = 8 then [BSL, CHR ''b'']
      else if b = 12 then [BSL, CHR ''f'']
      else if b = 10 then [BSL, CHR ''n'']
      else if b = 13 then [BSL, CHR ''r'']
      else if b = 9 then [BSL, CHR ''t'']
      else if b < 32 \<or> b = 38 \<or> b = 60 \<or> b = 62
        then [BSL, CHR ''u'', CHR ''0'', CHR ''0'', hex_digit (b div 16), hex_digit (b mod 16)]
      else [c])"

function esc :: "bytes \<Rightarrow> bytes" where
  "esc [] = []"
| "esc (c # r) =
     (if byte c < 128 then esc_ascii c @ esc r
      else let w = utf8_width (c # r) in
        if w = 0 then BSL # ''ufffd'' @ esc r
        else (let t = take w (c # r) in
          (if t = [CHR 0xE2, CHR 0x80, CHR 0xA8] then BSL # ''u2028''
           else if t = [CHR 0xE2, CHR 0x80, CHR 0xA9] then BSL # ''u2029''
           else t) @ esc (drop (w - 1) r)))"
  by pat_completeness auto
termination by (relation "measure length") auto

declare esc.simps(2) [simp del]

fun hex4 :: "bytes \<Rightarrow> (nat \<times> bytes) option" where
  "hex4 (a # b # c # d # r) =
     (case (hex_val a, hex_val b, hex_val c, hex_val d) of
        (Some p, Some q, Some s, Some t) \<Rightarrow> Some (((p * 16 + q) * 16 + s) * 16 + t, r)
      | _ \<Rightarrow> None)"
| "hex4 _ = None"

lemma hex4_length: "hex4 s = Some (u, r) \<Longrightarrow> length r < length s"
  by (induction s rule: hex4.induct) (auto split: option.splits)

definition utf8_encode :: "nat \<Rightarrow> bytes" where
  "utf8_encode u =
     (if u < 0x80 then [chr u]
      else if u < 0x800 then [chr (192 + u div 64), chr (128 + u mod 64)]
      else if u < 0x10000 then [chr (224 + u div 4096), chr (128 + u div 64 mod 64), chr (128 + u mod 64)]
      else [chr (240 + u div 262144), chr (128 + u div 4096 mod 64),
            chr (128 + u div 64 mod 64), chr (128 + u mod 64)])"

abbreviation replacement :: bytes where "replacement \<equiv> [CHR 0xEF, CHR 0xBF, CHR 0xBD]"

definition low_surrogate :: "bytes \<Rightarrow> (nat \<times> bytes) option" where
  "low_surrogate s =
     (case s of
        p # q # r \<Rightarrow>
          if p = BSL \<and> q = CHR ''u'' then
            (case hex4 r of
               Some (u, t) \<Rightarrow> if 0xDC00 \<le> u \<and> u < 0xE000 then Some (u, t) else None
             | None \<Rightarrow> None)
          else None
      | _ \<Rightarrow> None)"

lemma low_surrogate_length: "low_surrogate s = Some (u, r) \<Longrightarrow> length r < length s"
  by (auto simp: low_surrogate_def split: list.splits if_splits option.splits dest!: hex4_length)

definition unesc_char :: "char \<Rightarrow> char" where
  "unesc_char e =
     (if e = CHR ''b'' then CHR 0x08 else if e = CHR ''f'' then CHR 0x0C
      else if e = CHR ''n'' then LF else if e = CHR ''r'' then CR
      else if e = CHR ''t'' then CHR 0x09 else e)"

text \<open>\<open>unquote\<close> on a raw string the scanner has accepted: surrogate pairs are joined, a lone
  surrogate and an invalid byte become \<open>U+FFFD\<close>.\<close>

function unq :: "bytes \<Rightarrow> bytes" where
  "unq [] = []"
| "unq (c # r) =
     (if c = BSL then
        (case r of
           [] \<Rightarrow> []
         | e # r1 \<Rightarrow>
             if e = CHR ''u'' then
               (case hex4 r1 of
                  None \<Rightarrow> []
                | Some (u, r2) \<Rightarrow>
                    if 0xD800 \<le> u \<and> u < 0xE000 then
                      (case (if u < 0xDC00 then low_surrogate r2 else None) of
                         Some (v, r3) \<Rightarrow> utf8_encode (0x10000 + (u - 0xD800) * 1024 + (v - 0xDC00)) @ unq r3
                       | None \<Rightarrow> replacement @ unq r2)
                    else utf8_encode u @ unq r2)
             else if byte e < 128 then unesc_char e # unq r1 else [])
      else if byte c < 128 then c # unq r
      else let w = utf8_width (c # r) in
        if w = 0 then replacement @ unq r else take w (c # r) @ unq (drop (w - 1) r))"
  by pat_completeness auto
termination
  by (relation "measure length") (auto dest!: hex4_length low_surrogate_length split: if_splits)

declare unq.simps(2) [simp del]

text \<open>The scanner's raw string: up to the closing quote, checking escapes and control characters.\<close>

fun scan_str :: "bytes \<Rightarrow> (bytes \<times> bytes) option" where
  "scan_str [] = None"
| "scan_str (c # r) =
     (if c = DQ then Some ([], r)
      else if byte c < 32 then None
      else if c = BSL then
        (case r of
           [] \<Rightarrow> None
         | e # r1 \<Rightarrow>
             if e = CHR ''u'' then
               (case r1 of
                  h1 # h2 # h3 # h4 # r2 \<Rightarrow>
                    if hex_val h1 \<noteq> None \<and> hex_val h2 \<noteq> None \<and> hex_val h3 \<noteq> None \<and> hex_val h4 \<noteq> None
                    then map_option (\<lambda>(s, t). ([c, e, h1, h2, h3, h4] @ s, t)) (scan_str r2) else None
                | _ \<Rightarrow> None)
             else if e \<in> {DQ, BSL, CHR ''/'', CHR ''b'', CHR ''f'', CHR ''n'', CHR ''r'', CHR ''t''}
               then map_option (\<lambda>(s, t). ([c, e] @ s, t)) (scan_str r1) else None)
      else map_option (\<lambda>(s, t). (c # s, t)) (scan_str r))"

declare scan_str.simps(2) [simp del]

lemma scan_str_length: "scan_str s = Some (raw, t) \<Longrightarrow> length t < length s"
proof (induction s arbitrary: raw t rule: scan_str.induct)
  case (2 c r)
  from "2.prems" "2.IH" show ?case
    unfolding scan_str.simps(2) [of c r] by (fastforce split: if_splits list.splits)
qed simp

lemma scan_str_char: 
  "32 \<le> byte c \<Longrightarrow> c \<noteq> DQ \<Longrightarrow> c \<noteq> BSL \<Longrightarrow>
     scan_str (c # r) = map_option (\<lambda>(s, t). (c # s, t)) (scan_str r)"
  by (simp add: scan_str.simps)

lemma esc_ascii_cases:
  assumes "byte c < 128"
  obtains (quoted) e where "esc_ascii c = [BSL, e]" "unesc_char e = c" "e \<noteq> CHR ''u''"
      "e \<in> {DQ, BSL, CHR ''b'', CHR ''f'', CHR ''n'', CHR ''r'', CHR ''t''}"
  | (hex) "esc_ascii c = [BSL, CHR ''u'', CHR ''0'', CHR ''0'', hex_digit (byte c div 16), hex_digit (byte c mod 16)]"
  | (plain) "esc_ascii c = [c]" "32 \<le> byte c" "c \<noteq> DQ" "c \<noteq> BSL"
proof -
  have eqs: "c = chr (byte c)" by simp
  consider "byte c = 34" | "byte c = 92" | "byte c = 8" | "byte c = 12" | "byte c = 10"
    | "byte c = 13" | "byte c = 9"
    | "byte c \<notin> {34, 92, 8, 12, 10, 13, 9}" by auto
  then show thesis
  proof cases
    case 8
    show thesis
    proof (cases "byte c < 32 \<or> byte c = 38 \<or> byte c = 60 \<or> byte c = 62")
      case True
      with 8 show thesis by (intro hex) (simp add: esc_ascii_def Let_def)
    next
      case False
      with 8 have "esc_ascii c = [c]" "32 \<le> byte c" "c \<noteq> DQ" "c \<noteq> BSL"
        by (auto simp: esc_ascii_def)
      then show thesis by (rule plain)
    qed
  next
    case 1 then have "c = DQ" using eqs by (simp add: chr_eq_iff)
    then show thesis by (intro quoted [of DQ]) (auto simp: esc_ascii_def unesc_char_def)
  next
    case 2 then have "c = BSL" using eqs by (simp add: chr_eq_iff)
    then show thesis by (intro quoted [of BSL]) (auto simp: esc_ascii_def unesc_char_def)
  next
    case 3 then have "c = CHR 0x08" using eqs by (simp add: chr_eq_iff)
    then show thesis by (intro quoted [of "CHR ''b''"]) (auto simp: esc_ascii_def unesc_char_def)
  next
    case 4 then have "c = CHR 0x0C" using eqs by (simp add: chr_eq_iff)
    then show thesis by (intro quoted [of "CHR ''f''"]) (auto simp: esc_ascii_def unesc_char_def)
  next
    case 5 then have "c = LF" using eqs by (simp add: chr_eq_iff)
    then show thesis by (intro quoted [of "CHR ''n''"]) (auto simp: esc_ascii_def unesc_char_def)
  next
    case 6 then have "c = CR" using eqs by (simp add: chr_eq_iff)
    then show thesis by (intro quoted [of "CHR ''r''"]) (auto simp: esc_ascii_def unesc_char_def)
  next
    case 7 then have "c = CHR 0x09" using eqs by (simp add: chr_eq_iff)
    then show thesis by (intro quoted [of "CHR ''t''"]) (auto simp: esc_ascii_def unesc_char_def)
  qed
qed

lemma not_u: "e \<in> {DQ, BSL, CHR ''b'', CHR ''f'', CHR ''n'', CHR ''r'', CHR ''t''} \<Longrightarrow> e \<noteq> CHR ''u''"
  by auto

lemma scan_str_esc_ascii:
  assumes "byte c < 128"
  shows "scan_str (esc_ascii c @ r) = map_option (\<lambda>(s, t). (esc_ascii c @ s, t)) (scan_str r)"
  using assms
proof (cases rule: esc_ascii_cases)
  case (quoted e)
  then have "e \<in> {DQ, BSL, CHR ''/'', CHR ''b'', CHR ''f'', CHR ''n'', CHR ''r'', CHR ''t''}" by auto
  with quoted show ?thesis by (simp only: scan_str.simps append.simps) simp
next
  case hex
  have z: "hex_val CHR ''0'' = Some 0" by (simp add: hex_val_def)
  show ?thesis unfolding hex by (simp add: scan_str.simps z)
next
  case plain
  then show ?thesis by (simp add: scan_str_char)
qed

lemma unq_esc_ascii:
  assumes "byte c < 128"
  shows "unq (esc_ascii c @ r) = c # unq r"
  using assms
proof (cases rule: esc_ascii_cases)
  case (quoted e)
  then show ?thesis by (auto simp: unq.simps)
next
  case hex
  have z: "hex_val CHR ''0'' = Some 0" by (simp add: hex_val_def)
  have "hex4 (CHR ''0'' # CHR ''0'' # hex_digit (byte c div 16) # hex_digit (byte c mod 16) # r) = Some (byte c, r)"
    by (simp add: z)
  with assms show ?thesis unfolding hex by (simp add: unq.simps utf8_encode_def)
next
  case plain
  with assms show ?thesis by (simp add: unq.simps)
qed

text \<open>Runes of several bytes are copied.\<close>

lemma continues_high:
  "continues rs r \<Longrightarrow> \<forall>x \<in> set rs. 128 \<le> fst x \<Longrightarrow> c \<in> set (take (length rs) r) \<Longrightarrow> 128 \<le> byte c"
  by (induction rs r rule: continues.induct) (auto simp: in_rng_def)

lemma utf8_width_high:
  assumes "\<not> byte c < 128" and "x \<in> set (take (utf8_width (c # r)) (c # r))"
  shows "128 \<le> byte x"
proof -
  from assms obtain rs where sh: "utf8_shape c = Some rs" and co: "continues rs r"
    and x: "x = c \<or> x \<in> set (take (length rs) r)"
    by (auto simp: utf8_width.simps(2) split: option.splits if_splits)
  have "\<forall>p \<in> set rs. 128 \<le> fst p"
    using sh by (auto simp: utf8_shape_def split: if_splits)
  with x co assms(1) continues_high show ?thesis by fastforce
qed

lemma scan_str_high:
  "\<forall>x \<in> set t. 128 \<le> byte x \<Longrightarrow>
     scan_str (t @ r) = map_option (\<lambda>(s, u). (t @ s, u)) (scan_str r)"
proof (induction t)
  case (Cons x t)
  then have "32 \<le> byte x" "x \<noteq> DQ" "x \<noteq> BSL" by auto
  with Cons show ?case by (cases "scan_str r") (auto simp: scan_str_char)
qed (cases "scan_str r"; auto)

lemma scan_str_u:
  assumes "hex_val a \<noteq> None" "hex_val b \<noteq> None" "hex_val c \<noteq> None" "hex_val d \<noteq> None"
  shows "scan_str (BSL # CHR ''u'' # a # b # c # d # r) =
    map_option (\<lambda>(s, t). ([BSL, CHR ''u'', a, b, c, d] @ s, t)) (scan_str r)"
  using assms by (simp add: scan_str.simps)

lemma hex_val_lit [simp]:
  "hex_val CHR ''f'' = Some 15" "hex_val CHR ''d'' = Some 13" "hex_val CHR ''2'' = Some 2"
  "hex_val CHR ''0'' = Some 0" "hex_val CHR ''8'' = Some 8" "hex_val CHR ''9'' = Some 9"
  by (simp_all add: hex_val_def)

lemma map_option_append_comp:
  "map_option (\<lambda>(s, t). (p @ s, t)) (map_option (\<lambda>(s, t). (q @ s, t)) x) =
     map_option (\<lambda>(s, t). ((p @ q) @ s, t)) x"
  by (cases x) auto

lemma scan_str_esc: "scan_str (esc s @ r) = map_option (\<lambda>(x, t). (esc s @ x, t)) (scan_str r)"
proof (induction s arbitrary: r rule: esc.induct)
  case 1
  then show ?case by (cases "scan_str r") auto
next
  case (2 c s)
  show ?case
  proof (cases "byte c < 128")
    case True
    then show ?thesis
      using "2.IH"(1) [OF True]
      by (simp add: esc.simps(2) scan_str_esc_ascii map_option_append_comp)
  next
    case nasc: False
    let ?w = "utf8_width (c # s)" and ?t = "take (utf8_width (c # s)) (c # s)"
    show ?thesis
    proof (cases "?w = 0")
      case True
      then show ?thesis
        using "2.IH"(2) [OF nasc refl True] nasc
        by (simp add: esc.simps(2) scan_str_u) (cases "scan_str r"; auto)
    next
      case False
      note IH = "2.IH"(3) [OF nasc refl False refl]
      have high: "\<forall>x \<in> set ?t. 128 \<le> byte x" using utf8_width_high [OF nasc] by blast
      have "scan_str ((if ?t = [CHR 0xE2, CHR 0x80, CHR 0xA8] then BSL # ''u2028''
           else if ?t = [CHR 0xE2, CHR 0x80, CHR 0xA9] then BSL # ''u2029'' else ?t) @ q)
         = map_option (\<lambda>(x, t). ((if ?t = [CHR 0xE2, CHR 0x80, CHR 0xA8] then BSL # ''u2028''
           else if ?t = [CHR 0xE2, CHR 0x80, CHR 0xA9] then BSL # ''u2029'' else ?t) @ x, t)) (scan_str q)" for q
        using scan_str_high [OF high] by (simp add: scan_str_u)
      then show ?thesis
        using nasc False IH by (simp only: esc.simps(2) Let_def if_False append_assoc map_option_append_comp)
    qed
  qed
qed

lemma scan_str_json: "scan_str (esc s @ DQ # t) = Some (esc s, t)"
  by (simp add: scan_str_esc scan_str.simps)

lemma unq_esc: "valid_utf8 s \<Longrightarrow> unq (esc s) = s"
proof (induction s rule: esc.induct)
  case (2 c s)
  show ?case
  proof (cases "byte c < 128")
    case True
    then show ?thesis
      using "2.IH"(1) [OF True] "2.prems" by (simp add: esc.simps(2) unq_esc_ascii valid_utf8_ascii_Cons)
  next
    case nasc: False
    let ?w = "utf8_width (c # s)" and ?t = "take (utf8_width (c # s)) (c # s)"
    from "2.prems" have w: "?w \<noteq> 0" and v: "valid_utf8 (drop (?w - 1) s)"
      by (simp_all add: valid_utf8.simps(2) Let_def)
    have IH: "unq (esc (drop (?w - 1) s)) = drop (?w - 1) s"
      by (rule "2.IH"(3) [OF nasc refl w refl v])
    have split: "?t @ drop (?w - 1) s = c # s"
      using w by (cases ?w) simp_all
    have copy: "unq (?t @ q) = ?t @ unq q" for q
    proof -
      obtain n where n: "?w = Suc n" using w by (cases ?w) auto
      have "utf8_width (?t @ q) = ?w" by (rule utf8_width_take [OF refl w])
      moreover have "?t = c # take n s" using n by simp
      moreover have "length (take n s) = n" using utf8_width_le [of "c # s"] n by simp
      moreover have "c \<noteq> BSL" using nasc by auto
      ultimately show ?thesis using nasc n by (simp add: unq.simps)
    qed
    have sep: "unq (BSL # ''u2028'' @ q) = [CHR 0xE2, CHR 0x80, CHR 0xA8] @ unq q"
      "unq (BSL # ''u2029'' @ q) = [CHR 0xE2, CHR 0x80, CHR 0xA9] @ unq q" for q
      by (simp_all add: unq.simps utf8_encode_def chr_eq_iff)
    show ?thesis
      using nasc w split sep copy [of "esc (drop (?w - 1) s)"] IH
      by (simp only: esc.simps(2) Let_def if_False split: if_split) auto
  qed
qed simp

lemma esc_inject: "valid_utf8 s \<Longrightarrow> valid_utf8 t \<Longrightarrow> esc s = esc t \<longleftrightarrow> s = t"
  by (metis unq_esc)

text \<open>Whatever is unquoted is valid UTF-8, and decodes no further than \<open>U+10FFFF\<close>.\<close>

lemma valid_utf8_rune:
  assumes "utf8_width (c # r) \<noteq> 0" and "valid_utf8 t"
  shows "valid_utf8 (take (utf8_width (c # r)) (c # r) @ t)"
proof -
  let ?w = "utf8_width (c # r)"
  obtain n where n: "?w = Suc n" using assms(1) by (cases ?w) auto
  have "utf8_width (take ?w (c # r) @ t) = ?w" by (rule utf8_width_take [OF refl assms(1)])
  moreover have "n \<le> length r" using utf8_width_le [of "c # r"] n by simp
  ultimately show ?thesis using n assms(2) by (simp add: valid_utf8.simps(2))
qed

lemma hex_val_bound: "hex_val c = Some n \<Longrightarrow> n < 16"
  by (auto simp: hex_val_def Let_def split: if_splits)

lemma hex4_bound: "hex4 s = Some (u, r) \<Longrightarrow> u < 0x10000"
  by (induction s rule: hex4.induct) (auto split: option.splits dest!: hex_val_bound)

lemma one_rune:
  assumes "utf8_width s = length s"
  shows "valid_utf8 s"
  using assms by (cases s) (simp_all add: valid_utf8.simps(2))

lemma byte_chr: "n < 256 \<Longrightarrow> byte (chr n) = n"
  by simp

lemma rune2:
  assumes "0x80 \<le> u" and "u < 0x800"
  shows "valid_utf8 [chr (192 + u div 64), chr (128 + u mod 64)]"
proof (rule one_rune)
  have "2 \<le> u div 64" "u div 64 < 32" using assms by auto
  then have "utf8_shape (chr (192 + u div 64)) = Some [(128, 191)]"
    by (simp add: utf8_shape_def in_rng_def)
  moreover have "u mod 64 < 64" by simp
  ultimately show "utf8_width [chr (192 + u div 64), chr (128 + u mod 64)] = length [chr (192 + u div 64), chr (128 + u mod 64)]"
    by (simp add: utf8_width.simps(2) in_rng_def)
qed

lemma rune3:
  assumes "0x800 \<le> u" and "u < 0x10000" and "\<not> (0xD800 \<le> u \<and> u < 0xE000)"
  shows "valid_utf8 [chr (224 + u div 4096), chr (128 + u div 64 mod 64), chr (128 + u mod 64)]"
proof (rule one_rune)
  have a: "u div 4096 < 16" using assms by auto
  have b: "u div 4096 = 0 \<Longrightarrow> 32 \<le> u div 64 mod 64" using assms(1) by simp
  have c: "u div 4096 = 13 \<Longrightarrow> u div 64 mod 64 < 32"
  proof -
    assume h: "u div 4096 = 13"
    have s: "u div 64 div 64 = u div 4096" by (simp add: div_mult2_eq [symmetric])
    have "u div 64 = u div 64 div 64 * 64 + u div 64 mod 64" by simp
    then have x: "u div 64 = 832 + u div 64 mod 64" using s h by simp
    have "u < 0xE000" using h by simp
    with assms(3) have "u < 864 * 64" by simp
    then have "u div 64 < 864" by (simp add: less_mult_imp_div_less)
    with x show ?thesis by linarith
  qed
  have sh: "utf8_shape (chr (224 + u div 4096)) =
      Some [(if u div 4096 = 0 then 160 else 128, if u div 4096 = 13 then 159 else 191), (128, 191)]"
    using a by (simp add: utf8_shape_def in_rng_def)
  have "u mod 64 < 64" "u div 64 mod 64 < 64" by simp_all
  then show "utf8_width [chr (224 + u div 4096), chr (128 + u div 64 mod 64), chr (128 + u mod 64)] =
      length [chr (224 + u div 4096), chr (128 + u div 64 mod 64), chr (128 + u mod 64)]"
    using b c by (auto simp: utf8_width.simps(2) sh in_rng_def)
qed

lemma rune4:
  assumes "0x10000 \<le> u" and "u < 0x110000"
  shows "valid_utf8 [chr (240 + u div 262144), chr (128 + u div 4096 mod 64), chr (128 + u div 64 mod 64), chr (128 + u mod 64)]"
proof (rule one_rune)
  have a: "u div 262144 < 5" using assms by auto
  have b: "u div 262144 = 0 \<Longrightarrow> 16 \<le> u div 4096 mod 64" using assms(1) by simp
  have c: "u div 262144 = 4 \<Longrightarrow> u div 4096 mod 64 < 16"
  proof -
    assume h: "u div 262144 = 4"
    have s: "u div 4096 div 64 = u div 262144" by (simp add: div_mult2_eq [symmetric])
    have "u div 4096 = u div 4096 div 64 * 64 + u div 4096 mod 64" by simp
    then have x: "u div 4096 = 256 + u div 4096 mod 64" using s h by simp
    have "u div 4096 < 272" using assms(2) by (simp add: less_mult_imp_div_less)
    with x show ?thesis by linarith
  qed
  have sh: "utf8_shape (chr (240 + u div 262144)) =
      Some [(if u div 262144 = 0 then 144 else 128, if u div 262144 = 4 then 143 else 191), (128, 191), (128, 191)]"
    using a by (simp add: utf8_shape_def in_rng_def)
  have "u mod 64 < 64" "u div 64 mod 64 < 64" "u div 4096 mod 64 < 64" by simp_all
  then show "utf8_width [chr (240 + u div 262144), chr (128 + u div 4096 mod 64), chr (128 + u div 64 mod 64), chr (128 + u mod 64)] =
      length [chr (240 + u div 262144), chr (128 + u div 4096 mod 64), chr (128 + u div 64 mod 64), chr (128 + u mod 64)]"
    using b c by (auto simp: utf8_width.simps(2) sh in_rng_def)
qed

lemma valid_utf8_encode: "u < 0x110000 \<Longrightarrow> \<not> (0xD800 \<le> u \<and> u < 0xE000) \<Longrightarrow> valid_utf8 (utf8_encode u)"
  using rune2 [of u] rune3 [of u] rune4 [of u]
  by (simp add: utf8_encode_def valid_utf8_ascii)

lemma valid_replacement: "valid_utf8 replacement"
  by (rule one_rune) (simp add: utf8_width.simps(2) utf8_shape_def in_rng_def)

lemma low_surrogate_bound: "low_surrogate s = Some (v, r) \<Longrightarrow> 0xDC00 \<le> v \<and> v < 0xE000"
  by (auto simp: low_surrogate_def split: list.splits if_splits option.splits)

lemma unesc_ascii: "byte e < 128 \<Longrightarrow> byte (unesc_char e) < 128"
  by (simp add: unesc_char_def)


lemma valid_unq: "valid_utf8 (unq s)"
proof (induction s rule: unq.induct)
  case (2 c r)
  show ?case
  proof (cases "c = BSL")
    case True
    show ?thesis
    proof (cases r)
      case Nil
      with True show ?thesis by (simp add: unq.simps(2))
    next
      case r: (Cons e r1)
      show ?thesis
      proof (cases "e = CHR ''u''")
        case u: True
        show ?thesis
        proof (cases "hex4 r1")
          case None
          with True r u show ?thesis by (simp add: unq.simps(2))
        next
          case (Some p)
          obtain x r2 where p: "p = (x, r2)" by (cases p)
          note b = hex4_bound [OF Some [unfolded p]]
          note IH = "2.IH"(1,2,3) [OF True r u Some p [symmetric]]
          show ?thesis
          proof (cases "0xD800 \<le> x \<and> x < 0xE000")
            case sur: True
            show ?thesis
            proof (cases "if x < 0xDC00 then low_surrogate r2 else None")
              case None
              with True r u Some p sur IH(1) [OF sur None] show ?thesis
                using valid_utf8_append [OF valid_replacement] by (simp add: unq.simps(2))
            next
              case pair: (Some q)
              obtain v r3 where q: "q = (v, r3)" by (cases q)
              have v: "0xDC00 \<le> v \<and> v < 0xE000" and x: "x < 0xDC00"
                using pair q low_surrogate_bound by (auto split: if_splits)
              let ?n = "0x10000 + (x - 0xD800) * 1024 + (v - 0xDC00)"
              have "x - 0xD800 \<le> 1023" "v - 0xDC00 \<le> 1023" using x v by auto
              then have "(x - 0xD800) * 1024 + (v - 0xDC00) < 0x100000" by linarith
              then have n: "?n < 0x110000" "\<not> (0xD800 \<le> ?n \<and> ?n < 0xE000)" by linarith+
              have "unq (c # r) = utf8_encode ?n @ unq r3"
                using True r u Some p sur pair q by (simp add: unq.simps(2))
              with valid_utf8_append [OF valid_utf8_encode [OF n] IH(2) [OF sur pair q [symmetric]]] show ?thesis by simp
            qed
          next
            case plain: False
            have "unq (c # r) = utf8_encode x @ unq r2"
              using True r u Some p plain by (auto simp: unq.simps(2))
            moreover have "valid_utf8 (utf8_encode x)" using b plain by (intro valid_utf8_encode) auto
            ultimately show ?thesis using valid_utf8_append IH(3) [OF plain] by simp
          qed
        qed
      next
        case nu: False
        show ?thesis
        proof (cases "byte e < 128")
          case asc: True
          have "unq (c # r) = unesc_char e # unq r1"
            using True r nu asc by (simp add: unq.simps(2))
          with "2.IH"(4) [OF True r nu asc] unesc_ascii [OF asc] show ?thesis by (simp add: valid_utf8_ascii_Cons)
        next
          case False
          with True r nu show ?thesis by (simp add: unq.simps(2))
        qed
      qed
    qed
  next
    case nb: False
    show ?thesis
    proof (cases "byte c < 128")
      case True
      with nb "2.IH"(5) [OF nb True] show ?thesis by (simp add: unq.simps(2) valid_utf8_ascii_Cons)
    next
      case nasc: False
      show ?thesis
      proof (cases "utf8_width (c # r) = 0")
        case True
        with nb nasc "2.IH"(6) [OF nb nasc refl True] show ?thesis
          using valid_utf8_append [OF valid_replacement] by (simp add: unq.simps(2))
      next
        case False
        from valid_utf8_rune [OF False "2.IH"(7) [OF nb nasc refl False]] nb nasc False
        show ?thesis by (simp add: unq.simps(2) Let_def)
      qed
    qed
  qed
qed simp

section \<open>Documents\<close>

datatype json =
    JNull
  | JBool bool
  | JNum bytes
  | JStr bytes
  | JArr "json list"
  | JObj "(bytes \<times> json) list"

fun comma_sep :: "bytes list \<Rightarrow> bytes" where
  "comma_sep [] = []"
| "comma_sep [x] = x"
| "comma_sep (x # y # r) = x @ CHR '','' # comma_sep (y # r)"

fun render :: "json \<Rightarrow> bytes" where
  "render JNull = ''null''"
| "render (JBool b) = (if b then ''true'' else ''false'')"
| "render (JNum n) = n"
| "render (JStr s) = DQ # s @ [DQ]"
| "render (JArr vs) = CHR ''['' # comma_sep (map render vs) @ '']''"
| "render (JObj kvs) =
     CHR ''{'' # comma_sep (map (\<lambda>(k, v). DQ # k @ DQ # CHR '':'' # render v) kvs) @ ''}''"

text \<open>
  The same document with every value on a line of its own, as an encoder with \<open>SetIndent("", "  ")\<close> writes
  it (\<open>b\<close>, at depth \<open>k\<close>); without line breaks it is \<open>render\<close>.
\<close>

definition brk :: "bool \<Rightarrow> nat \<Rightarrow> bytes" where
  "brk b k = (if b then LF # replicate (2 * k) (CHR '' '') else [])"

definition colon :: "bool \<Rightarrow> bytes" where
  "colon b = (if b then '': '' else '':'')"

fun layout :: "bool \<Rightarrow> nat \<Rightarrow> json \<Rightarrow> bytes" where
  "layout b k JNull = ''null''"
| "layout b k (JBool x) = (if x then ''true'' else ''false'')"
| "layout b k (JNum n) = n"
| "layout b k (JStr s) = DQ # s @ [DQ]"
| "layout b k (JArr vs) =
     CHR ''['' # (if vs = [] then [] else comma_sep (map (\<lambda>v. brk b (Suc k) @ layout b (Suc k) v) vs) @ brk b k) @ '']''"
| "layout b k (JObj kvs) =
     CHR ''{'' # (if kvs = [] then []
       else comma_sep (map (\<lambda>(key, v). brk b (Suc k) @ DQ # key @ DQ # colon b @ layout b (Suc k) v) kvs) @ brk b k) @ ''}''"

lemma layout_render: "layout False k j = render j"
proof (induction j arbitrary: k)
  case (JArr vs)
  then have "map (\<lambda>v. brk False (Suc k) @ layout False (Suc k) v) vs = map render vs" by (simp add: brk_def)
  then show ?case by (simp add: brk_def del: map_eq_conv)
next
  case (JObj kvs)
  then have "map (\<lambda>(key, v). brk False (Suc k) @ DQ # key @ DQ # colon False @ layout False (Suc k) v) kvs =
      map (\<lambda>(key, v). DQ # key @ DQ # CHR '':'' # render v) kvs"
    by (auto simp: brk_def colon_def snds.simps)
  then show ?case by (simp add: brk_def del: map_eq_conv)
qed simp_all

definition is_ws :: "char \<Rightarrow> bool" where
  "is_ws c \<longleftrightarrow> c \<in> {CHR '' '', CHR 0x09, LF, CR}"

definition skip_ws :: "bytes \<Rightarrow> bytes" where
  "skip_ws s = dropWhile is_ws s"

text \<open>A number: sign, integer part, optional fraction, optional exponent; the longest match.\<close>

definition scan_int_part :: "bytes \<Rightarrow> (bytes \<times> bytes) option" where
  "scan_int_part s =
     (case s of
        [] \<Rightarrow> None
      | c # r \<Rightarrow> if c = CHR ''0'' then Some ([c], r)
          else if is_digit c then Some (takeWhile is_digit s, dropWhile is_digit s) else None)"

definition scan_frac :: "bytes \<Rightarrow> (bytes \<times> bytes) option" where
  "scan_frac s =
     (case s of
        [] \<Rightarrow> Some ([], s)
      | c # r \<Rightarrow> if c \<noteq> CHR ''.'' then Some ([], s)
          else if takeWhile is_digit r = [] then None
          else Some (c # takeWhile is_digit r, dropWhile is_digit r))"

definition scan_exp :: "bytes \<Rightarrow> (bytes \<times> bytes) option" where
  "scan_exp s =
     (case s of
        [] \<Rightarrow> Some ([], s)
      | c # r \<Rightarrow> if c \<noteq> CHR ''e'' \<and> c \<noteq> CHR ''E'' then Some ([], s)
          else (let sgn = (if r \<noteq> [] \<and> (hd r = CHR ''+'' \<or> hd r = CHR ''-'') then [hd r] else []);
                    r' = drop (length sgn) r
                in if takeWhile is_digit r' = [] then None
                   else Some (c # sgn @ takeWhile is_digit r', dropWhile is_digit r')))"

definition scan_num :: "bytes \<Rightarrow> (bytes \<times> bytes) option" where
  "scan_num s =
     (let sgn = (if s \<noteq> [] \<and> hd s = CHR ''-'' then [CHR ''-''] else [])
      in case scan_int_part (drop (length sgn) s) of
           None \<Rightarrow> None
         | Some (a, s1) \<Rightarrow>
             (case scan_frac s1 of
                None \<Rightarrow> None
              | Some (b, s2) \<Rightarrow>
                  (case scan_exp s2 of
                     None \<Rightarrow> None
                   | Some (c, s3) \<Rightarrow> Some (sgn @ a @ b @ c, s3))))"

definition scan_lit :: "bytes \<Rightarrow> 'a \<Rightarrow> bytes \<Rightarrow> ('a \<times> bytes) option" where
  "scan_lit w v s = (if take (length w) s = w then Some (v, drop (length w) s) else None)"

fun parse_value :: "nat \<Rightarrow> nat \<Rightarrow> bytes \<Rightarrow> (json \<times> bytes) option"
and parse_elems :: "nat \<Rightarrow> nat \<Rightarrow> bytes \<Rightarrow> (json list \<times> bytes) option"
and parse_members :: "nat \<Rightarrow> nat \<Rightarrow> bytes \<Rightarrow> ((bytes \<times> json) list \<times> bytes) option" where
  "parse_value 0 d s = None"
| "parse_value (Suc n) d s =
     (case skip_ws s of
        [] \<Rightarrow> None
      | c # r \<Rightarrow>
          if c = DQ then map_option (\<lambda>(x, t). (JStr x, t)) (scan_str r)
          else if c = CHR ''['' then
            (if d = 0 then None
             else case skip_ws r of
                    [] \<Rightarrow> None
                  | e # t \<Rightarrow> if e = CHR '']'' then Some (JArr [], t)
                      else map_option (\<lambda>(vs, u). (JArr vs, u)) (parse_elems n (d - 1) (e # t)))
          else if c = CHR ''{'' then
            (if d = 0 then None
             else case skip_ws r of
                    [] \<Rightarrow> None
                  | e # t \<Rightarrow> if e = CHR ''}'' then Some (JObj [], t)
                      else map_option (\<lambda>(ms, u). (JObj ms, u)) (parse_members n (d - 1) (e # t)))
          else if c = CHR ''n'' then scan_lit ''null'' JNull (c # r)
          else if c = CHR ''t'' then scan_lit ''true'' (JBool True) (c # r)
          else if c = CHR ''f'' then scan_lit ''false'' (JBool False) (c # r)
          else map_option (\<lambda>(x, t). (JNum x, t)) (scan_num (c # r)))"
| "parse_elems 0 d s = None"
| "parse_elems (Suc n) d s =
     (case parse_value n d s of
        None \<Rightarrow> None
      | Some (v, t) \<Rightarrow>
          (case skip_ws t of
             [] \<Rightarrow> None
           | c # r \<Rightarrow>
               if c = CHR '']'' then Some ([v], r)
               else if c = CHR '','' then map_option (\<lambda>(vs, u). (v # vs, u)) (parse_elems n d r)
               else None))"
| "parse_members 0 d s = None"
| "parse_members (Suc n) d s =
     (case skip_ws s of
        [] \<Rightarrow> None
      | q # r \<Rightarrow>
          if q \<noteq> DQ then None
          else
            (case scan_str r of
               None \<Rightarrow> None
             | Some (k, r1) \<Rightarrow>
                 (case skip_ws r1 of
                    [] \<Rightarrow> None
                  | c # r2 \<Rightarrow>
                      if c \<noteq> CHR '':'' then None
                      else
                        (case parse_value n d r2 of
                           None \<Rightarrow> None
                         | Some (v, r3) \<Rightarrow>
                             (case skip_ws r3 of
                                [] \<Rightarrow> None
                              | e # r4 \<Rightarrow>
                                  if e = CHR ''}'' then Some ([(k, v)], r4)
                                  else if e = CHR '','' then
                                    map_option (\<lambda>(ms, u). ((k, v) # ms, u)) (parse_members n d r4)
                                  else None)))))"

definition max_nesting :: nat where "max_nesting = 10000"

definition parse_json :: "bytes \<Rightarrow> json option" where
  "parse_json s =
     (case parse_value (2 * length s + 2) max_nesting s of
        None \<Rightarrow> None
      | Some (j, t) \<Rightarrow> if skip_ws t = [] then Some j else None)"

text \<open>\<open>json.Valid\<close>.\<close>

definition json_Valid :: "bytes \<Rightarrow> bool" where
  "json_Valid s \<longleftrightarrow> parse_json s \<noteq> None"

text \<open>The documents the program writes: escaped strings, 64-bit integers, limited nesting.\<close>

fun wf_json :: "nat \<Rightarrow> json \<Rightarrow> bool" where
  "wf_json d JNull = True"
| "wf_json d (JBool b) = True"
| "wf_json d (JNum n) = (\<exists>i. n = FormatInt i)"
| "wf_json d (JStr s) = (\<exists>x. s = esc x)"
| "wf_json d (JArr vs) = (0 < d \<and> (\<forall>v \<in> set vs. wf_json (d - 1) v))"
| "wf_json d (JObj kvs) =
     (0 < d \<and> (\<forall>kv \<in> set kvs. (\<exists>x. fst kv = esc x) \<and> wf_json (d - 1) (snd kv)))"

text \<open>What may follow a value without changing how it is read.\<close>

definition ends_value :: "bytes \<Rightarrow> bool" where
  "ends_value t \<longleftrightarrow> t = [] \<or> hd t \<in> {CHR '','', CHR '']'', CHR ''}'', LF}"

lemma ends_value_simps [simp]:
  "ends_value []" "ends_value (CHR '','' # t)" "ends_value (CHR '']'' # t)" "ends_value (CHR ''}'' # t)"
  "ends_value (LF # t)"
  by (simp_all add: ends_value_def)

lemma skip_ws_id [simp]: "\<not> is_ws c \<Longrightarrow> skip_ws (c # r) = c # r"
  by (simp add: skip_ws_def)

lemma skip_ws_Nil [simp]: "skip_ws [] = []"
  by (simp add: skip_ws_def)

lemma not_ws [simp]:
  "\<not> is_ws DQ" "\<not> is_ws CHR ''[''" "\<not> is_ws CHR ''{''" "\<not> is_ws CHR '']''" "\<not> is_ws CHR ''}''"
  "\<not> is_ws CHR '',''" "\<not> is_ws CHR '':''" "\<not> is_ws CHR ''n''" "\<not> is_ws CHR ''t''" "\<not> is_ws CHR ''f''"
  "\<not> is_ws CHR ''-''"
  by (simp_all add: is_ws_def)

lemma digit_neq:
  assumes "is_digit c"
  shows "c \<noteq> DQ" "c \<noteq> CHR ''[''" "c \<noteq> CHR ''{''" "c \<noteq> CHR ''n''" "c \<noteq> CHR ''t''"
    "c \<noteq> CHR ''f''" "c \<noteq> CHR ''-''" "\<not> is_ws c" "c \<noteq> CHR '']''" "c \<noteq> CHR ''}''"
  using assms by (auto simp: is_digit_def is_ws_def)

lemma takeWhile_digits:
  "(\<And>c. c \<in> set xs \<Longrightarrow> is_digit c) \<Longrightarrow> t = [] \<or> \<not> is_digit (hd t) \<Longrightarrow>
     takeWhile is_digit (xs @ t) = xs \<and> dropWhile is_digit (xs @ t) = t"
  by (induction xs) (cases t; auto)+

lemma scan_int_part_FormatUint:
  assumes "t = [] \<or> \<not> is_digit (hd t)"
  shows "scan_int_part (FormatUint n @ t) = Some (FormatUint n, t)"
proof (cases "n = 0")
  case True
  then show ?thesis by (simp add: FormatUint_0 scan_int_part_def)
next
  case False
  obtain d r where d: "FormatUint n = d # r" "is_digit d" by (rule FormatUint_Cons)
  with False hd_FormatUint [of n] have "d \<noteq> CHR ''0''" by simp
  moreover have "takeWhile is_digit (FormatUint n @ t) = FormatUint n \<and>
      dropWhile is_digit (FormatUint n @ t) = t"
    using assms by (intro takeWhile_digits FormatUint_digits)
  ultimately show ?thesis using d by (simp add: scan_int_part_def)
qed

lemma ends_value_not_digit: "ends_value t \<Longrightarrow> t = [] \<or> \<not> is_digit (hd t)"
  by (auto simp: ends_value_def is_digit_def)

lemma scan_frac_ends: "ends_value t \<Longrightarrow> scan_frac t = Some ([], t)"
  by (auto simp: ends_value_def scan_frac_def split: list.splits)

lemma scan_exp_ends: "ends_value t \<Longrightarrow> scan_exp t = Some ([], t)"
  by (auto simp: ends_value_def scan_exp_def split: list.splits)

lemma scan_num_FormatInt:
  assumes "ends_value t"
  shows "scan_num (FormatInt i @ t) = Some (FormatInt i, t)"
proof -
  obtain d r where d: "FormatUint (nat i) = d # r" "is_digit d" by (rule FormatUint_Cons)
  have "d \<noteq> CHR ''-''" using d(2) by (rule digit_neq)
  then show ?thesis
    using scan_int_part_FormatUint [OF ends_value_not_digit [OF assms], of "nat i"]
      scan_int_part_FormatUint [OF ends_value_not_digit [OF assms], of "nat (- i)"]
      scan_frac_ends [OF assms] scan_exp_ends [OF assms] d(1)
    by (cases "i < 0") (simp_all add: scan_num_def FormatInt_def)
qed

lemma FormatInt_head: "\<exists>c r. FormatInt i = c # r \<and> (c = CHR ''-'' \<or> is_digit c)"
proof (cases "i < 0")
  case True
  then show ?thesis by (simp add: FormatInt_def)
next
  case False
  obtain d r where "FormatUint (nat i) = d # r" "is_digit d" by (rule FormatUint_Cons)
  with False show ?thesis by (simp add: FormatInt_def)
qed

lemma parse_value_num:
  assumes "0 < n" and "ends_value t"
  shows "parse_value n d (FormatInt i @ t) = Some (JNum (FormatInt i), t)"
proof -
  obtain c r where c: "FormatInt i = c # r" "c = CHR ''-'' \<or> is_digit c"
    using FormatInt_head [of i] by blast
  then have "c \<noteq> DQ" "c \<noteq> CHR ''[''" "c \<noteq> CHR ''{''" "c \<noteq> CHR ''n''" "c \<noteq> CHR ''t''"
    "c \<noteq> CHR ''f''" "\<not> is_ws c"
    using digit_neq [of c] by auto
  moreover obtain m where "n = Suc m" using assms(1) by (cases n) auto
  ultimately show ?thesis
    using scan_num_FormatInt [OF assms(2), of i] c(1) by simp
qed

lemma render_head:
  assumes "wf_json d j"
  shows "\<exists>c r. layout b k j = c # r \<and> \<not> is_ws c \<and> c \<noteq> CHR '']''"
proof (cases j)
  case (JNum n)
  then obtain i where n: "n = FormatInt i" using assms by auto
  obtain c r where c: "FormatInt i = c # r" "c = CHR ''-'' \<or> is_digit c"
    using FormatInt_head [of i] by blast
  then have "\<not> is_ws c \<and> c \<noteq> CHR '']''" using digit_neq [of c] by auto
  with n c JNum show ?thesis by simp
qed simp_all

lemma comma_sep_Cons: "r \<noteq> [] \<Longrightarrow> comma_sep (x # r) = x @ CHR '','' # comma_sep r"
  by (cases r) auto

lemma skip_brk [simp]: "skip_ws (brk b k @ s) = skip_ws s"
proof -
  have "is_ws LF" "is_ws CHR '' ''" by (simp_all add: is_ws_def)
  moreover have "dropWhile is_ws (replicate n (CHR '' '') @ s) = dropWhile is_ws s" for n
    using \<open>is_ws CHR '' ''\<close> by (induction n) auto
  ultimately show ?thesis by (simp add: brk_def skip_ws_def)
qed

lemma skip_ws_idem [simp]: "skip_ws (skip_ws s) = skip_ws s"
  by (simp add: skip_ws_def)

lemma parse_value_skip: "parse_value n d s = parse_value n d (skip_ws s)"
  by (cases n) simp_all

lemma parse_value_brk: "parse_value n d (brk b k @ s) = parse_value n d s"
  by (metis parse_value_skip skip_brk)

lemma parse_value_space: "parse_value n d (CHR '' '' # s) = parse_value n d s"
  by (cases n) (simp_all add: skip_ws_def is_ws_def)

lemma ends_value_brk: "ends_value (c # t) \<Longrightarrow> ends_value (brk b k @ c # t)"
  by (simp add: brk_def)

abbreviation item_text :: "bool \<Rightarrow> nat \<Rightarrow> json \<Rightarrow> bytes" where
  "item_text b k v \<equiv> brk b k @ layout b k v"

lemma parse_elems_layout:
  assumes IH: "\<And>v n d t. v \<in> set vs \<Longrightarrow> wf_json d v \<Longrightarrow> 2 * length (layout b k v) \<le> n \<Longrightarrow> ends_value t \<Longrightarrow>
      parse_value n d (layout b k v @ t) = Some (v, t)"
    and "vs \<noteq> []" and "\<forall>v \<in> set vs. wf_json d v"
    and "2 * length (comma_sep (map (item_text b k) vs)) < n"
  shows "parse_elems n d (comma_sep (map (item_text b k) vs) @ brk b l @ CHR '']'' # t) = Some (vs, t)"
  using assms
proof (induction vs arbitrary: n)
  case (Cons v vs)
  obtain m where n: "n = Suc m" using Cons.prems(4) by (cases n) auto
  show ?case
  proof (cases "vs = []")
    case True
    then have "parse_value m d (layout b k v @ brk b l @ CHR '']'' # t) = Some (v, brk b l @ CHR '']'' # t)"
      using Cons.prems n by (intro Cons.prems(1) ends_value_brk) auto
    then show ?thesis using True n by (simp add: parse_value_brk)
  next
    case False
    then have ne: "map (item_text b k) vs \<noteq> []" by simp
    let ?tl = "comma_sep (map (item_text b k) vs) @ brk b l @ CHR '']'' # t"
    have sz: "2 * length (layout b k v) \<le> m" "2 * length (comma_sep (map (item_text b k) vs)) < m"
      using Cons.prems(4) n comma_sep_Cons [OF ne, of "item_text b k v"] by simp_all
    have "parse_elems m d ?tl = Some (vs, t)"
      using Cons.IH [OF _ False _ sz(2)] Cons.prems by simp
    moreover have "parse_value m d (layout b k v @ CHR '','' # ?tl) = Some (v, CHR '','' # ?tl)"
      using Cons.prems(1) [of v d m] Cons.prems(3) sz(1) by simp
    ultimately show ?thesis using n comma_sep_Cons [OF ne, of "item_text b k v"] by (simp add: parse_value_brk)
  qed
qed simp

abbreviation member_text :: "bool \<Rightarrow> nat \<Rightarrow> bytes \<times> json \<Rightarrow> bytes" where
  "member_text b k kv \<equiv> brk b k @ DQ # fst kv @ DQ # colon b @ layout b k (snd kv)"

lemma layout_JObj:
  "layout b k (JObj kvs) =
     CHR ''{'' # (if kvs = [] then [] else comma_sep (map (member_text b (Suc k)) kvs) @ brk b k) @ ''}''"
  by (simp add: split_def)

lemma parse_members_layout:
  assumes IH: "\<And>kv n d t. kv \<in> set kvs \<Longrightarrow> wf_json d (snd kv) \<Longrightarrow> 2 * length (layout b k (snd kv)) \<le> n \<Longrightarrow>
      ends_value t \<Longrightarrow> parse_value n d (layout b k (snd kv) @ t) = Some (snd kv, t)"
    and "kvs \<noteq> []" and "\<forall>kv \<in> set kvs. (\<exists>x. fst kv = esc x) \<and> wf_json d (snd kv)"
    and "2 * length (comma_sep (map (member_text b k) kvs)) < n"
  shows "parse_members n d (comma_sep (map (member_text b k) kvs) @ brk b l @ CHR ''}'' # t) = Some (kvs, t)"
  using assms
proof (induction kvs arbitrary: n)
  case (Cons kv kvs)
  obtain m where n: "n = Suc m" using Cons.prems(4) by (cases n) auto
  obtain x where x: "fst kv = esc x" using Cons.prems(3) by auto
  have sc: "scan_str (fst kv @ DQ # r) = Some (fst kv, r)" for r
    by (simp add: x scan_str_json)
  have val: "parse_value m d (tl (colon b) @ s) = parse_value m d s" "colon b @ s = CHR '':'' # tl (colon b) @ s" for s
    by (simp_all add: colon_def parse_value_space)
  show ?case
  proof (cases "kvs = []")
    case True
    then have "parse_value m d (layout b k (snd kv) @ brk b l @ CHR ''}'' # t) = Some (snd kv, brk b l @ CHR ''}'' # t)"
      using Cons.prems n by (intro Cons.prems(1) ends_value_brk) auto
    then show ?thesis using True n sc by (simp add: val)
  next
    case False
    then have ne: "map (member_text b k) kvs \<noteq> []" by simp
    let ?tl = "comma_sep (map (member_text b k) kvs) @ brk b l @ CHR ''}'' # t"
    have sz: "2 * length (layout b k (snd kv)) \<le> m" "2 * length (comma_sep (map (member_text b k) kvs)) < m"
      using Cons.prems(4) n comma_sep_Cons [OF ne, of "member_text b k kv"] by simp_all
    have "parse_members m d ?tl = Some (kvs, t)"
      using Cons.IH [OF _ False _ sz(2)] Cons.prems by simp
    moreover have "parse_value m d (layout b k (snd kv) @ CHR '','' # ?tl) = Some (snd kv, CHR '','' # ?tl)"
      using Cons.prems(1) [of kv d m] Cons.prems(3) sz(1) by simp
    ultimately show ?thesis using n sc comma_sep_Cons [OF ne, of "member_text b k kv"] by (simp add: val)
  qed
qed simp

lemma parse_value_layout:
  "wf_json d j \<Longrightarrow> 2 * length (layout b k j) \<le> n \<Longrightarrow> ends_value t \<Longrightarrow>
     parse_value n d (layout b k j @ t) = Some (j, t)"
proof (induction j arbitrary: n d t k)
  case (JNum x)
  obtain i where i: "x = FormatInt i" using JNum.prems(1) by auto
  have "x \<noteq> []" using FormatInt_head [of i] i by auto
  then have "0 < n" using JNum.prems(2) by (cases x) auto
  with i parse_value_num [OF _ JNum.prems(3)] show ?case by simp
next
  case (JStr x)
  then obtain y m where "x = esc y" "n = Suc m" by (cases n) auto
  then show ?case by (simp add: scan_str_json)
next
  case (JArr vs)
  obtain m where n: "n = Suc m" using JArr.prems(2) by (cases n) auto
  have d: "0 < d" "\<forall>v \<in> set vs. wf_json (d - 1) v" using JArr.prems(1) by auto
  show ?case
  proof (cases "vs = []")
    case True
    then show ?thesis using n d by simp
  next
    case False
    then obtain v ws where vs: "vs = v # ws" by (cases vs) auto
    let ?s = "comma_sep (map (item_text b (Suc k)) vs) @ brk b k @ CHR '']'' # t"
    obtain c r where c: "layout b (Suc k) v = c # r" "\<not> is_ws c" "c \<noteq> CHR '']''"
      using d(2) vs render_head by fastforce
    then obtain r' where hd: "skip_ws ?s = c # r'"
      unfolding vs by (cases ws) auto
    have "parse_elems m (d - 1) ?s = Some (vs, t)"
      using JArr.IH JArr.prems(2) n False d(2) by (intro parse_elems_layout) auto
    then have "parse_elems m (d - 1) (skip_ws ?s) = Some (vs, t)"
      by (cases m) (simp_all flip: parse_value_skip)
    then show ?thesis using n d(1) hd c False by simp
  qed
next
  case (JObj kvs)
  obtain m where n: "n = Suc m" using JObj.prems(2) by (cases n) auto
  have d: "0 < d" "\<forall>kv \<in> set kvs. (\<exists>x. fst kv = esc x) \<and> wf_json (d - 1) (snd kv)"
    using JObj.prems(1) by auto
  show ?case
  proof (cases "kvs = []")
    case True
    then show ?thesis using n d by simp
  next
    case False
    let ?s = "comma_sep (map (member_text b (Suc k)) kvs) @ brk b k @ CHR ''}'' # t"
    obtain r where hd: "skip_ws ?s = DQ # r"
      using False by (cases kvs rule: remdups_adj.cases) auto
    have "parse_members m (d - 1) ?s = Some (kvs, t)"
    proof (rule parse_members_layout [OF _ False d(2)])
      show "2 * length (comma_sep (map (member_text b (Suc k)) kvs)) < m"
        using JObj.prems(2) n False unfolding layout_JObj by simp
    qed (use JObj.IH in \<open>metis prod.collapse snds.intros\<close>)
    then have "parse_members m (d - 1) (skip_ws ?s) = Some (kvs, t)"
      by (cases m) simp_all
    then show ?thesis unfolding layout_JObj using n d(1) hd False by simp
  qed
next
  case JNull
  then obtain m where "n = Suc m" by (cases n) auto
  then show ?case by (simp add: scan_lit_def)
next
  case (JBool x)
  then obtain m where "n = Suc m" by (cases n) (auto split: if_splits)
  then show ?case by (cases x) (simp_all add: scan_lit_def)
qed

lemma parse_value_render:
  "wf_json d j \<Longrightarrow> 2 * length (render j) \<le> n \<Longrightarrow> ends_value t \<Longrightarrow>
     parse_value n d (render j @ t) = Some (j, t)"
  using parse_value_layout [where b = False] by (simp add: layout_render)

text \<open>What an encoder with indentation writes, its final line feed included, is read back.\<close>

lemma parse_layout:
  assumes "wf_json max_nesting j"
  shows "parse_json (layout b 0 j @ [LF]) = Some j"
proof -
  have "skip_ws [LF] = []" by (simp add: skip_ws_def is_ws_def)
  then show ?thesis
    using parse_value_layout [OF assms, of b 0 "2 * length (layout b 0 j @ [LF]) + 2" "[LF]"]
    by (simp add: parse_json_def)
qed

lemma parse_render: "wf_json max_nesting j \<Longrightarrow> parse_json (render j) = Some j"
  using parse_value_render [of max_nesting j "2 * length (render j) + 2" "[]"]
  by (simp add: parse_json_def)

lemma render_inject:
  "wf_json max_nesting j \<Longrightarrow> wf_json max_nesting k \<Longrightarrow> render j = render k \<longleftrightarrow> j = k"
  by (metis option.inject parse_render)

text \<open>A rendered document has no control characters, so it is one line; an object is not trimmed.\<close>

lemma hex_digit_visible: "n < 16 \<Longrightarrow> 32 \<le> byte (hex_digit n)"
  using plain_hex_digit [of n] by (auto simp: plain_char_def Let_def)

lemma esc_ascii_visible: "byte c < 128 \<Longrightarrow> x \<in> set (esc_ascii c) \<Longrightarrow> 32 \<le> byte x"
  by (erule esc_ascii_cases) (auto simp: hex_digit_visible)

lemma esc_visible: "x \<in> set (esc s) \<Longrightarrow> 32 \<le> byte x"
proof (induction s rule: esc.induct)
  case (2 c s)
  show ?case
  proof (cases "byte c < 128")
    case True
    with 2 esc_ascii_visible [OF True] show ?thesis by (auto simp: esc.simps(2))
  next
    case nasc: False
    let ?w = "utf8_width (c # s)" and ?t = "take (utf8_width (c # s)) (c # s)"
    show ?thesis
    proof (cases "?w = 0")
      case True
      with 2 nasc show ?thesis by (auto simp: esc.simps(2))
    next
      case False
      have rest: "x \<in> set (esc (drop (?w - 1) s)) \<Longrightarrow> 32 \<le> byte x"
        by (rule "2.IH"(3) [OF nasc refl False refl])
      have high: "x \<in> set ?t \<Longrightarrow> 32 \<le> byte x" using utf8_width_high [OF nasc, of x s] by force
      from "2.prems" have "x \<in> set (esc (drop (?w - 1) s)) \<or> x \<in> set ?t \<or>
          x \<in> set (BSL # ''u2028'') \<or> x \<in> set (BSL # ''u2029'')"
        using nasc False by (simp only: esc.simps(2) Let_def if_False set_append split: if_split_asm) blast+
      then show ?thesis using rest high by auto
    qed
  qed
qed simp

lemma comma_sep_set: "x \<in> set (comma_sep ss) \<Longrightarrow> x = CHR '','' \<or> (\<exists>s \<in> set ss. x \<in> set s)"
  by (induction ss rule: comma_sep.induct) auto

lemma FormatInt_visible: "x \<in> set (FormatInt i) \<Longrightarrow> 32 \<le> byte x"
  by (auto simp: FormatInt_def is_digit_def split: if_splits dest!: FormatUint_digits)

lemma render_visible: "wf_json d j \<Longrightarrow> x \<in> set (render j) \<Longrightarrow> 32 \<le> byte x"
proof (induction d j rule: wf_json.induct)
  case (6 d kvs)
  then show ?case by (auto dest!: comma_sep_set) (use esc_visible in fastforce)+
qed (auto dest!: comma_sep_set dest: esc_visible FormatInt_visible split: if_splits)

lemma object_line:
  assumes "wf_json d (JObj kvs)"
  shows "LF \<notin> set (render (JObj kvs))" "hd (render (JObj kvs)) = CHR ''{''"
    "last (render (JObj kvs)) = CHR ''}''" "TrimSpace (render (JObj kvs)) = render (JObj kvs)"
proof -
  show "LF \<notin> set (render (JObj kvs))" using render_visible [OF assms, of LF] by auto
  show h: "hd (render (JObj kvs)) = CHR ''{''" and l: "last (render (JObj kvs)) = CHR ''}''"
    by simp_all
  have "render (JObj kvs) \<noteq> []" by simp
  then show "TrimSpace (render (JObj kvs)) = render (JObj kvs)"
    by (rule TrimSpace_id) (simp_all only: h l, simp_all)
qed

subsection \<open>Consumption, fuel, proper prefixes\<close>

lemma skip_ws_length: "length (skip_ws s) \<le> length s"
  by (simp add: skip_ws_def length_dropWhile_le)

lemma skip_ws_Cons_length: "skip_ws s = c # r \<Longrightarrow> length r < length s"
  using skip_ws_length [of s] by simp

lemma scan_int_part_length: "scan_int_part s = Some (x, t) \<Longrightarrow> length t < length s"
  by (auto simp: scan_int_part_def length_dropWhile_le less_Suc_eq_le split: list.splits if_splits)

lemma scan_frac_length: "scan_frac s = Some (x, t) \<Longrightarrow> length t \<le> length s"
  by (auto simp: scan_frac_def length_dropWhile_le le_SucI split: list.splits if_splits)

lemma scan_exp_length: "scan_exp s = Some (x, t) \<Longrightarrow> length t \<le> length s"
proof (cases s)
  case (Cons c r)
  assume "scan_exp s = Some (x, t)"
  moreover have "length (dropWhile is_digit r) \<le> length r" "length (dropWhile is_digit (drop 1 r)) \<le> length (drop 1 r)"
    by (rule length_dropWhile_le)+
  ultimately show ?thesis using Cons by (auto simp: scan_exp_def Let_def split: if_splits)
qed (auto simp: scan_exp_def)

lemma scan_num_length: "scan_num s = Some (x, t) \<Longrightarrow> length t < length s"
proof -
  assume a: "scan_num s = Some (x, t)"
  let ?k = "length (if s \<noteq> [] \<and> hd s = CHR ''-'' then [CHR ''-''] else [])"
  from a obtain p s1 q s2 u s3 where "scan_int_part (drop ?k s) = Some (p, s1)"
    "scan_frac s1 = Some (q, s2)" "scan_exp s2 = Some (u, s3)" "t = s3"
    unfolding scan_num_def Let_def by (auto split: option.splits)
  then have "length s1 < length (drop ?k s)" "length s2 \<le> length s1" "length t \<le> length s2"
    by (auto dest: scan_int_part_length scan_frac_length scan_exp_length)
  then show ?thesis by simp
qed

lemma scan_lit_length: "scan_lit w v s = Some (x, t) \<Longrightarrow> w \<noteq> [] \<Longrightarrow> length t < length s"
  by (cases s) (auto simp: scan_lit_def split: if_splits)

lemma parse_shorter:
  "parse_value n d s = Some (j, t) \<Longrightarrow> length t < length s"
  "parse_elems n d s = Some (vs, t) \<Longrightarrow> length t < length s"
  "parse_members n d s = Some (ms, t) \<Longrightarrow> length t < length s"
proof (induction n d s and n d s and n d s arbitrary: j t and vs t and ms t
    rule: parse_value_parse_elems_parse_members.induct)
  case (2 n d s)
  then show ?case
    by (fastforce split: list.splits if_splits dest!: skip_ws_Cons_length scan_str_length scan_num_length
        scan_lit_length)
next
  case (4 n d s)
  then show ?case
    by (fastforce split: list.splits if_splits option.splits dest!: skip_ws_Cons_length)
next
  case (6 n d s)
  then show ?case
    by (fastforce split: list.splits if_splits option.splits dest!: skip_ws_Cons_length scan_str_length)
qed simp_all

text \<open>
  The fuel \<open>parse_json\<close> gives is enough: more never changes the outcome, failure included.
\<close>

lemma parse_fuel_step:
  "2 * length s + 1 \<le> n \<Longrightarrow> parse_value (Suc n) d s = parse_value n d s"
  "2 * length s + 2 \<le> n \<Longrightarrow> parse_elems (Suc n) d s = parse_elems n d s"
  "2 * length s + 2 \<le> n \<Longrightarrow> parse_members (Suc n) d s = parse_members n d s"
proof (induction n d s and n d s and n d s rule: parse_value_parse_elems_parse_members.induct)
  case (2 n d s)
  have elems: "parse_elems (Suc n) (d - 1) (e # t) = parse_elems n (d - 1) (e # t)"
    if "skip_ws s = CHR ''['' # r" "skip_ws r = e # t" "d \<noteq> 0" "e \<noteq> CHR '']''" for r e t
  proof -
    have "length (e # t) < length s"
      using skip_ws_Cons_length [OF that(1)] skip_ws_length [of r] that(2) by simp
    then show ?thesis using "2.IH"(1) [OF that(1) _ refl that(3,2)] that(4) "2.prems" by simp
  qed
  have members: "parse_members (Suc n) (d - 1) (e # t) = parse_members n (d - 1) (e # t)"
    if "skip_ws s = CHR ''{'' # r" "skip_ws r = e # t" "d \<noteq> 0" "e \<noteq> CHR ''}''" for r e t
  proof -
    have "length (e # t) < length s"
      using skip_ws_Cons_length [OF that(1)] skip_ws_length [of r] that(2) by simp
    then show ?thesis using "2.IH"(2) [OF that(1) _ _ refl that(3,2)] that(4) "2.prems" by simp
  qed
  show ?case
    unfolding parse_value.simps(2) [of "Suc n" d s] parse_value.simps(2) [of n d s]
    using elems members by (auto split: list.split)
next
  case (4 n d s)
  have v: "parse_value (Suc n) d s = parse_value n d s"
    using "4.IH"(1) "4.prems" by simp
  have e: "parse_elems (Suc n) d r = parse_elems n d r"
    if "parse_value n d s = Some (x, t)" "skip_ws t = CHR '','' # r" for x t r
    using "4.IH"(2) [OF that(1) refl that(2)] "4.prems" parse_shorter(1) [OF that(1)]
      skip_ws_Cons_length [OF that(2)] by simp
  show ?case
    unfolding parse_elems.simps(2) [of "Suc n" d s] parse_elems.simps(2) [of n d s] v
    using e by (auto split: option.split list.split)
next
  case (6 n d s)
  have len: "length r2 + 2 < length s" if "skip_ws s = DQ # r" "scan_str r = Some (k, r1)" "skip_ws r1 = c # r2"
    for r k r1 c r2
    using skip_ws_Cons_length [OF that(1)] scan_str_length [OF that(2)] skip_ws_Cons_length [OF that(3)]
    by simp
  have v: "parse_value (Suc n) d r2 = parse_value n d r2"
    if "skip_ws s = DQ # r" "scan_str r = Some (k, r1)" "skip_ws r1 = CHR '':'' # r2" for r k r1 r2
    using "6.IH"(1) [OF that(1) _ that(2) refl that(3)] len [OF that] "6.prems" by simp
  have m: "parse_members (Suc n) d r4 = parse_members n d r4"
    if "skip_ws s = DQ # r" "scan_str r = Some (k, r1)" "skip_ws r1 = CHR '':'' # r2"
      "parse_value n d r2 = Some (x, r3)" "skip_ws r3 = CHR '','' # r4" for r k r1 r2 x r3 r4
    using "6.IH"(2) [OF that(1) _ that(2) refl that(3) _ that(4) refl that(5)] len [OF that(1-3)]
      parse_shorter(1) [OF that(4)] skip_ws_Cons_length [OF that(5)] "6.prems" by simp
  show ?case
    unfolding parse_members.simps(2) [of "Suc n" d s] parse_members.simps(2) [of n d s]
    using v m by (auto split: option.split list.split)
qed simp_all

lemma parse_value_fuel:
  assumes "2 * length s + 1 \<le> n" and "n \<le> m"
  shows "parse_value m d s = parse_value n d s"
  using assms(2)
proof (induction m rule: dec_induct)
  case (step k)
  then show ?case using parse_fuel_step(1) [of s k d] assms(1) by simp
qed simp

text \<open>Text after a complete value does not change how the value is read (a number needs a terminator).\<close>

definition is_num :: "json \<Rightarrow> bool" where
  "is_num j \<longleftrightarrow> (\<exists>x. j = JNum x)"

lemma is_num_simps [simp]:
  "\<not> is_num JNull" "\<not> is_num (JBool b)" "is_num (JNum x)" "\<not> is_num (JStr s)"
  "\<not> is_num (JArr vs)" "\<not> is_num (JObj kvs)"
  by (auto simp: is_num_def)

lemma skip_ws_append: "skip_ws s = c # r \<Longrightarrow> skip_ws (s @ u) = c # r @ u"
  by (auto simp: skip_ws_def dropWhile_append split: if_splits)
    (metis dropWhile_eq_Nil_conv list.distinct(1))

lemma scan_str_bsl:
  "e \<noteq> CHR ''u'' \<Longrightarrow> scan_str (BSL # e # r) =
     (if e \<in> {DQ, BSL, CHR ''/'', CHR ''b'', CHR ''f'', CHR ''n'', CHR ''r'', CHR ''t''}
      then map_option (\<lambda>(s, t). (BSL # e # s, t)) (scan_str r) else None)"
  by (subst scan_str.simps(2)) (simp del: insert_iff)

lemma scan_str_uD:
  assumes "scan_str (BSL # CHR ''u'' # r) = Some (x, t)"
  obtains a b d e r2 y where "r = a # b # d # e # r2"
    "hex_val a \<noteq> None \<and> hex_val b \<noteq> None \<and> hex_val d \<noteq> None \<and> hex_val e \<noteq> None"
    "scan_str r2 = Some (y, t)" "x = [BSL, CHR ''u'', a, b, d, e] @ y"
  using assms by (subst (asm) scan_str.simps(2)) (auto split: if_splits list.splits)

lemma scan_str_append: "scan_str s = Some (x, t) \<Longrightarrow> scan_str (s @ u) = Some (x, t @ u)"
proof (induction s arbitrary: x t rule: scan_str.induct)
  case (2 c r)
  consider "c = DQ" | (esc) e r1 where "c = BSL" "r = e # r1" "e \<noteq> CHR ''u''"
    | (hex) r1 where "c = BSL" "r = CHR ''u'' # r1" | (plain) "c \<noteq> DQ" "c \<noteq> BSL" "\<not> byte c < 32"
    using "2.prems" by (cases r) (auto simp: scan_str.simps split: if_splits)
  then show ?case
  proof cases
    case (esc e r1)
    let ?E = "{DQ, BSL, CHR ''/'', CHR ''b'', CHR ''f'', CHR ''n'', CHR ''r'', CHR ''t''}"
    have m: "e \<in> ?E" using "2.prems" esc by (auto simp: scan_str_bsl split: if_splits)
    with "2.prems" esc obtain y where y: "scan_str r1 = Some (y, t)" "x = BSL # e # y"
      by (auto simp: scan_str_bsl simp del: insert_iff)
    have "scan_str (r1 @ u) = Some (y, t @ u)"
      using "2.IH"(2) [OF _ _ esc(1-3) m y(1)] esc(1) by simp
    then show ?thesis using esc y(2) m by (simp add: scan_str_bsl del: insert_iff)
  next
    case (hex r1)
    obtain a b d e r2 y where r1: "r1 = a # b # d # e # r2"
      and h: "hex_val a \<noteq> None \<and> hex_val b \<noteq> None \<and> hex_val d \<noteq> None \<and> hex_val e \<noteq> None"
      and y: "scan_str r2 = Some (y, t)" "x = [BSL, CHR ''u'', a, b, d, e] @ y"
      using "2.prems" unfolding hex by (rule scan_str_uD)
    have "scan_str (r2 @ u) = Some (y, t @ u)"
      using "2.IH"(1) [OF _ _ hex refl r1 refl refl refl h y(1)] hex(1) by simp
    then show ?thesis using hex r1 h y(2) by (simp add: scan_str_u)
  next
    case plain
    then have c: "scan_str (c # q) = map_option (\<lambda>(s, t). (c # s, t)) (scan_str q)" for q
      by (simp add: scan_str_char)
    with "2.prems" obtain y where y: "scan_str r = Some (y, t)" "x = c # y" by auto
    with "2.IH"(3) plain have "scan_str (r @ u) = Some (y, t @ u)" by simp
    then show ?thesis using c y(2) by simp
  qed (use "2.prems" in \<open>simp add: scan_str.simps\<close>)
qed simp

lemma takeWhile_rest:
  "dropWhile P s = c # t \<Longrightarrow> takeWhile P (s @ u) = takeWhile P s \<and> dropWhile P (s @ u) = c # t @ u"
  by (induction s) (auto split: if_splits)

lemma scan_int_part_append:
  "scan_int_part s = Some (x, t) \<Longrightarrow> t \<noteq> [] \<Longrightarrow> scan_int_part (s @ u) = Some (x, t @ u)"
  using takeWhile_rest [of is_digit s _ _ u]
  by (cases t) (auto simp: scan_int_part_def split: list.splits if_splits)

lemma scan_frac_append:
  "scan_frac s = Some (x, t) \<Longrightarrow> t \<noteq> [] \<Longrightarrow> scan_frac (s @ u) = Some (x, t @ u)"
  using takeWhile_rest [of is_digit "tl s" _ _ u]
  by (cases t; cases s) (auto simp: scan_frac_def split: if_splits)

lemma scan_exp_append:
  assumes "scan_exp s = Some (x, t)" and "t \<noteq> []"
  shows "scan_exp (s @ u) = Some (x, t @ u)"
proof -
  from assms have "s \<noteq> []" by (auto simp: scan_exp_def)
  then obtain c r where s: "s = c # r" by (cases s) auto
  obtain d t' where t: "t = d # t'" using assms(2) by (cases t) auto
  show ?thesis
  proof (cases "c = CHR ''e'' \<or> c = CHR ''E''")
    case False
    with assms s show ?thesis by (auto simp: scan_exp_def)
  next
    case True
    let ?sg = "\<lambda>r. if r \<noteq> [] \<and> (hd r = CHR ''+'' \<or> hd r = CHR ''-'') then [hd r] else []"
    from assms(1) True s have dw: "dropWhile is_digit (drop (length (?sg r)) r) = d # t'"
      and tw: "takeWhile is_digit (drop (length (?sg r)) r) \<noteq> []"
      and x: "x = c # ?sg r @ takeWhile is_digit (drop (length (?sg r)) r)"
      unfolding scan_exp_def t by (auto simp: Let_def split: if_splits)
    then have "r \<noteq> []" by auto
    then have "?sg (r @ u) = ?sg r" "drop (length (?sg r)) (r @ u) = drop (length (?sg r)) r @ u"
      by (auto simp: Suc_le_eq)
    then show ?thesis
      using True s t x tw takeWhile_rest [OF dw, of u]
      unfolding scan_exp_def by (simp only: append_Cons list.case Let_def) auto
  qed
qed

lemma scan_num_append:
  assumes "scan_num s = Some (x, t)" and "t \<noteq> []"
  shows "scan_num (s @ u) = Some (x, t @ u)"
proof -
  let ?sg = "\<lambda>s. if s \<noteq> [] \<and> hd s = CHR ''-'' then [CHR ''-''] else []"
  from assms(1) obtain p s1 q s2 v where p: "scan_int_part (drop (length (?sg s)) s) = Some (p, s1)"
    and q: "scan_frac s1 = Some (q, s2)" and v: "scan_exp s2 = Some (v, t)"
    and x: "x = ?sg s @ p @ q @ v"
    unfolding scan_num_def Let_def by (auto split: option.splits)
  have ne: "s2 \<noteq> []" "s1 \<noteq> []" "s \<noteq> []"
    using scan_exp_length [OF v] scan_frac_length [OF q] scan_int_part_length [OF p] assms(2) by auto
  then have "?sg (s @ u) = ?sg s" "drop (length (?sg s)) (s @ u) = drop (length (?sg s)) s @ u"
    by (auto simp: Suc_le_eq)
  with scan_int_part_append [OF p ne(2)] scan_frac_append [OF q ne(1)] scan_exp_append [OF v assms(2)] x
  show ?thesis unfolding scan_num_def Let_def by simp
qed

lemma scan_lit_append:
  assumes "scan_lit w v s = Some (x, t)"
  shows "scan_lit w v (s @ u) = Some (x, t @ u)"
proof -
  from assms have h: "take (length w) s = w" "x = v" "t = drop (length w) s"
    by (auto simp: scan_lit_def split: if_splits)
  from h(1) have "length w \<le> length s" by (metis length_take min.cobounded1)
  with h show ?thesis by (simp add: scan_lit_def)
qed

lemma parse_append:
  "parse_value n d s = Some (j, t) \<Longrightarrow> t \<noteq> [] \<or> \<not> is_num j \<Longrightarrow> parse_value n d (s @ u) = Some (j, t @ u)"
  "parse_elems n d s = Some (vs, t) \<Longrightarrow> parse_elems n d (s @ u) = Some (vs, t @ u)"
  "parse_members n d s = Some (ms, t) \<Longrightarrow> parse_members n d (s @ u) = Some (ms, t @ u)"
proof (induction n d s and n d s and n d s arbitrary: j t and vs t and ms t
    rule: parse_value_parse_elems_parse_members.induct)
  case (2 n d s)
  from "2.prems"(1) obtain c r where c: "skip_ws s = c # r" by (auto split: list.splits)
  note cu = skip_ws_append [OF c, of u]
  consider (str) "c = DQ" | (arr) "c = CHR ''[''" | (obj) "c = CHR ''{''" | (n) "c = CHR ''n''"
    | (t) "c = CHR ''t''" | (f) "c = CHR ''f''"
    | (num) "c \<notin> {DQ, CHR ''['', CHR ''{'', CHR ''n'', CHR ''t'', CHR ''f''}" by auto
  then show ?case
  proof cases
    case str
    then show ?thesis using "2.prems" c cu by (auto dest: scan_str_append)
  next
    case arr
    with "2.prems" c obtain e t' where e: "skip_ws r = e # t'" "d \<noteq> 0" by (auto split: if_splits list.splits)
    show ?thesis
    proof (cases "e = CHR '']''")
      case True
      then show ?thesis using "2.prems" arr c cu e skip_ws_append [OF e(1), of u] by simp
    next
      case False
      with "2.prems"(1) arr c e obtain vs where vs: "parse_elems n (d - 1) (e # t') = Some (vs, t)" "j = JArr vs"
        by auto
      have "parse_elems n (d - 1) ((e # t') @ u) = Some (vs, t @ u)"
        using "2.IH"(1) [OF c _ arr e(2,1) False vs(1)] arr by simp
      then show ?thesis using arr c cu e False vs(2) skip_ws_append [OF e(1), of u] by simp
    qed
  next
    case obj
    with "2.prems" c obtain e t' where e: "skip_ws r = e # t'" "d \<noteq> 0" by (auto split: if_splits list.splits)
    show ?thesis
    proof (cases "e = CHR ''}''")
      case True
      then show ?thesis using "2.prems" obj c cu e skip_ws_append [OF e(1), of u] by simp
    next
      case False
      with "2.prems"(1) obj c e obtain ms where ms: "parse_members n (d - 1) (e # t') = Some (ms, t)" "j = JObj ms"
        by auto
      have "parse_members n (d - 1) ((e # t') @ u) = Some (ms, t @ u)"
        using "2.IH"(2) [OF c _ _ obj e(2,1) False ms(1)] obj by simp
      then show ?thesis using obj c cu e False ms(2) skip_ws_append [OF e(1), of u] by simp
    qed
  next
    case num
    with "2.prems" c obtain x where x: "scan_num (c # r) = Some (x, t)" "j = JNum x" "t \<noteq> []" by auto
    then show ?thesis using num c cu scan_num_append [OF x(1,3), of u] by simp
  qed (use "2.prems" c cu in \<open>auto dest: scan_lit_append [where u = u]\<close>)
next
  case (4 n d s)
  from "4.prems" obtain v t1 c r where v: "parse_value n d s = Some (v, t1)" and c: "skip_ws t1 = c # r"
    by (auto split: option.splits list.splits)
  then have "t1 \<noteq> []" by auto
  then have vu: "parse_value n d (s @ u) = Some (v, t1 @ u)" using "4.IH"(1) v by blast
  show ?case
  proof (cases "c = CHR '']''")
    case True
    then show ?thesis using "4.prems" v vu c skip_ws_append [OF c, of u] by simp
  next
    case False
    with "4.prems" v c obtain ws where ws: "c = CHR '',''" "parse_elems n d r = Some (ws, t)" "vs = v # ws"
      by (auto split: if_splits)
    have "parse_elems n d (r @ u) = Some (ws, t @ u)"
      using "4.IH"(2) [OF v refl c False ws(1,2)] .
    then show ?thesis using v vu c ws skip_ws_append [OF c, of u] by simp
  qed
next
  case (6 n d s)
  from "6.prems" obtain r k r1 r2 v r3 e r4 where
    q: "skip_ws s = DQ # r" and k: "scan_str r = Some (k, r1)" and c: "skip_ws r1 = CHR '':'' # r2"
    and v: "parse_value n d r2 = Some (v, r3)" and e: "skip_ws r3 = e # r4"
    by (auto split: option.splits list.splits if_splits)
  then have "r3 \<noteq> []" by auto
  then have vu: "parse_value n d (r2 @ u) = Some (v, r3 @ u)" using "6.IH"(1) q k c v by blast
  note us = skip_ws_append [OF q, of u] scan_str_append [OF k, of u] skip_ws_append [OF c, of u]
    skip_ws_append [OF e, of u]
  show ?case
  proof (cases "e = CHR ''}''")
    case True
    then show ?thesis using "6.prems" q k c v e vu us by simp
  next
    case False
    with "6.prems" q k c v e obtain ns where ns: "e = CHR '',''" "parse_members n d r4 = Some (ns, t)"
      "ms = (k, v) # ns"
      by (auto split: if_splits)
    have "parse_members n d (r4 @ u) = Some (ns, t @ u)"
      using "6.IH"(2) q k c v e False ns by blast
    then show ?thesis using q k c v e vu us ns by simp
  qed
qed simp_all

lemma parse_value_brace:
  assumes "parse_value n d (CHR ''{'' # s) = Some (j, t)"
  shows "\<not> is_num j"
  using assms by (cases n) (auto split: list.splits if_splits)

text \<open>
  No proper prefix of an object that ends with its closing brace is itself a document: an
  interrupted write of one line never parses. This is what lets the exporter tell a torn
  tail from a complete line that only lost its newline.
\<close>

lemma no_valid_prefix:
  assumes whole: "json_Valid (p @ q)" and "p \<noteq> []" and "hd p = CHR ''{''"
    and q: "q \<noteq> []" "last q = CHR ''}''"
  shows "\<not> json_Valid p"
proof
  assume "json_Valid p"
  then obtain j t where j: "parse_value (2 * length p + 2) max_nesting p = Some (j, t)" "skip_ws t = []"
    by (auto simp: json_Valid_def parse_json_def split: option.splits prod.splits if_splits)
  obtain s where s: "p = CHR ''{'' # s" using assms(2,3) by (cases p) auto
  have "\<not> is_num j" using j(1) unfolding s by (rule parse_value_brace)
  then have "parse_value (2 * length p + 2) max_nesting (p @ q) = Some (j, t @ q)"
    using parse_append(1) [OF j(1)] by blast
  moreover have "parse_value (2 * length p + 2) max_nesting p = parse_value (2 * length (p @ q) + 2) max_nesting p"
    by (rule parse_value_fuel [symmetric]) auto
  ultimately have "parse_value (2 * length (p @ q) + 2) max_nesting (p @ q) = Some (j, t @ q)"
    using parse_append(1) [of "2 * length (p @ q) + 2" max_nesting p j t q] j(1) \<open>\<not> is_num j\<close> by simp
  with whole have "skip_ws (t @ q) = []"
    by (auto simp: json_Valid_def parse_json_def split: if_splits)
  then have "is_ws (last q)" using q(1) by (auto simp: skip_ws_def dropWhile_eq_Nil_conv)
  with q(2) show False by simp
qed

section \<open>Decoding into structs\<close>

text \<open>A field is a name and a setter; a setter fails on a value of the wrong kind.\<close>

type_synonym 'r setter = "json \<Rightarrow> 'r \<Rightarrow> 'r option"
type_synonym 'r fields = "(bytes \<times> 'r setter) list"

text \<open>
  Case folding of names, as far as it can make a member match an ASCII field name: ASCII
  letters, the long s and the Kelvin sign.
\<close>

function fold_name :: "bytes \<Rightarrow> bytes" where
  "fold_name [] = []"
| "fold_name (c # r) =
     (if take 2 (c # r) = [CHR 0xC5, CHR 0xBF] then CHR ''S'' # fold_name (drop 1 r)
      else if take 3 (c # r) = [CHR 0xE2, CHR 0x84, CHR 0xAA] then CHR ''K'' # fold_name (drop 2 r)
      else (if 97 \<le> byte c \<and> byte c \<le> 122 then chr (byte c - 32) else c) # fold_name r)"
  by pat_completeness auto
termination by (relation "measure length") auto

definition find_field :: "'r fields \<Rightarrow> bytes \<Rightarrow> 'r setter option" where
  "find_field fs k =
     (case map_of fs k of
        Some f \<Rightarrow> Some f
      | None \<Rightarrow> map_option snd (List.find (\<lambda>f. fold_name (fst f) = fold_name k) fs))"

fun decode_members :: "'r fields \<Rightarrow> (bytes \<times> json) list \<Rightarrow> 'r \<Rightarrow> 'r option" where
  "decode_members fs [] r = Some r"
| "decode_members fs ((k, v) # kvs) r =
     (case find_field fs (unq k) of
        None \<Rightarrow> decode_members fs kvs r
      | Some f \<Rightarrow> (case f v r of None \<Rightarrow> None | Some r' \<Rightarrow> decode_members fs kvs r'))"

definition decode_struct :: "'r fields \<Rightarrow> 'r setter" where
  "decode_struct fs j r =
     (case j of JNull \<Rightarrow> Some r | JObj kvs \<Rightarrow> decode_members fs kvs r | _ \<Rightarrow> None)"

lemma decode_struct_object [simp]: "decode_struct fs (JObj kvs) r = decode_members fs kvs r"
  by (simp add: decode_struct_def)

definition string_field :: "((bytes \<Rightarrow> bytes) \<Rightarrow> 'r \<Rightarrow> 'r) \<Rightarrow> 'r setter" where
  "string_field upd j r =
     (case j of JNull \<Rightarrow> Some r | JStr s \<Rightarrow> Some (upd (\<lambda>_. unq s) r) | _ \<Rightarrow> None)"

definition int_field :: "((int \<Rightarrow> int) \<Rightarrow> 'r \<Rightarrow> 'r) \<Rightarrow> 'r setter" where
  "int_field upd j r =
     (case j of
        JNull \<Rightarrow> Some r
      | JNum n \<Rightarrow> map_option (\<lambda>i. upd (\<lambda>_. i) r) (ParseInt n)
      | _ \<Rightarrow> None)"

definition uint64_field :: "((64 word \<Rightarrow> 64 word) \<Rightarrow> 'r \<Rightarrow> 'r) \<Rightarrow> 'r setter" where
  "uint64_field upd j r =
     (case j of
        JNull \<Rightarrow> Some r
      | JNum n \<Rightarrow> map_option (\<lambda>i. upd (\<lambda>_. of_nat i) r) (ParseUint n)
      | _ \<Rightarrow> None)"

text \<open>A field whose type has its own \<open>UnmarshalJSON\<close> gets the text of the value, \<open>null\<close> included.\<close>

definition custom_field :: "(bytes \<Rightarrow> 'a option) \<Rightarrow> (('a \<Rightarrow> 'a) \<Rightarrow> 'r \<Rightarrow> 'r) \<Rightarrow> 'r setter" where
  "custom_field unmarshal upd j r = map_option (\<lambda>a. upd (\<lambda>_. a) r) (unmarshal (render j))"

definition struct_field :: "'a fields \<Rightarrow> ('r \<Rightarrow> 'a) \<Rightarrow> (('a \<Rightarrow> 'a) \<Rightarrow> 'r \<Rightarrow> 'r) \<Rightarrow> 'r setter" where
  "struct_field fs get upd j r = map_option (\<lambda>a. upd (\<lambda>_. a) r) (decode_struct fs j (get r))"

fun decode_list :: "(json \<Rightarrow> 'a option) \<Rightarrow> json list \<Rightarrow> 'a list option" where
  "decode_list f [] = Some []"
| "decode_list f (j # js) =
     (case f j of None \<Rightarrow> None | Some a \<Rightarrow> map_option ((#) a) (decode_list f js))"

text \<open>A slice: \<open>None\<close> is Go's nil slice, which is written \<open>null\<close>; \<open>Some []\<close> is written \<open>[]\<close>.\<close>

definition slice_field ::
  "'a fields \<Rightarrow> 'a \<Rightarrow> (('a list option \<Rightarrow> 'a list option) \<Rightarrow> 'r \<Rightarrow> 'r) \<Rightarrow> 'r setter" where
  "slice_field fs zero upd j r =
     (case j of
        JNull \<Rightarrow> Some (upd (\<lambda>_. None) r)
      | JArr js \<Rightarrow> map_option (\<lambda>as. upd (\<lambda>_. Some as) r) (decode_list (\<lambda>j. decode_struct fs j zero) js)
      | _ \<Rightarrow> None)"

text \<open>\<open>json.Unmarshal\<close> into a zero struct; every error is \<open>None\<close>.\<close>

definition json_Unmarshal :: "'r fields \<Rightarrow> 'r \<Rightarrow> bytes \<Rightarrow> 'r option" where
  "json_Unmarshal fs zero s =
     (case parse_json s of None \<Rightarrow> None | Some j \<Rightarrow> decode_struct fs j zero)"

definition json_slice :: "('a \<Rightarrow> json) \<Rightarrow> 'a list option \<Rightarrow> json" where
  "json_slice f xs = (case xs of None \<Rightarrow> JNull | Some ys \<Rightarrow> JArr (map f ys))"

abbreviation json_string :: "bytes \<Rightarrow> json" where "json_string s \<equiv> JStr (esc s)"

text \<open>Field names are letters and underscores, which are neither escaped nor unquoted.\<close>

definition name_char :: "char \<Rightarrow> bool" where
  "name_char c \<longleftrightarrow> 97 \<le> byte c \<and> byte c \<le> 122 \<or> byte c = 95 \<or> 65 \<le> byte c \<and> byte c \<le> 90"

lemma esc_name: "list_all name_char s \<Longrightarrow> esc s = s"
  by (induction s) (auto simp: esc.simps(2) esc_ascii_def name_char_def)

lemma unq_name: "list_all name_char s \<Longrightarrow> unq s = s"
  by (induction s) (auto simp: unq.simps name_char_def)

lemma wf_name: "list_all name_char s \<Longrightarrow> \<exists>x. s = esc x"
  using esc_name by metis

lemma decode_list_map:
  "(\<And>x. x \<in> set xs \<Longrightarrow> f (g x) = Some x) \<Longrightarrow> decode_list f (map g xs) = Some xs"
  by (induction xs) auto

lemma json_Unmarshal_render:
  "wf_json max_nesting j \<Longrightarrow> json_Unmarshal fs zero (render j) = decode_struct fs j zero"
  by (simp add: json_Unmarshal_def parse_render)

lemma find_field_exact: "map_of fs k = Some f \<Longrightarrow> find_field fs k = Some f"
  by (simp add: find_field_def)

text \<open>One member whose name is in the table.\<close>

lemma decode_member:
  "list_all name_char k \<Longrightarrow> map_of fs k \<noteq> None \<Longrightarrow>
     decode_members fs ((k, v) # kvs) r =
       (case the (map_of fs k) v r of None \<Rightarrow> None | Some r' \<Rightarrow> decode_members fs kvs r')"
  by (auto simp: unq_name find_field_exact)

text \<open>An invariant of a struct that every setter keeps is kept by decoding.\<close>

lemma find_field_in: "find_field fs k = Some f \<Longrightarrow> \<exists>k'. (k', f) \<in> set fs"
  by (auto simp: find_field_def find_Some_iff dest: map_of_SomeD split: option.splits)
     (metis nth_mem)

lemma decode_members_inv:
  assumes "\<And>k f j r r'. (k, f) \<in> set fs \<Longrightarrow> P r \<Longrightarrow> f j r = Some r' \<Longrightarrow> P r'"
  shows "decode_members fs kvs r = Some r' \<Longrightarrow> P r \<Longrightarrow> P r'"
proof (induction kvs arbitrary: r)
  case (Cons kv kvs)
  obtain k v where kv: "kv = (k, v)" by (cases kv)
  show ?case
  proof (cases "find_field fs (unq k)")
    case None
    then show ?thesis using Cons.prems Cons.IH [of r] by (simp add: kv)
  next
    case (Some f)
    with Cons.prems(1) obtain x where x: "f v r = Some x" "decode_members fs kvs x = Some r'"
      by (auto simp: kv split: option.splits)
    obtain k' where "(k', f) \<in> set fs" using find_field_in [OF Some] by blast
    then have "P x" using assms Cons.prems(2) x(1) by blast
    then show ?thesis using Cons.IH [OF x(2)] by blast
  qed
qed simp

lemma decode_struct_inv:
  assumes "\<And>k f j r r'. (k, f) \<in> set fs \<Longrightarrow> P r \<Longrightarrow> f j r = Some r' \<Longrightarrow> P r'"
    and "decode_struct fs j r = Some r'" and "P r"
  shows "P r'"
proof (cases j)
  case (JObj kvs)
  with assms(2) have "decode_members fs kvs r = Some r'" by simp
  then show ?thesis using decode_members_inv [of fs P] assms(1,3) by blast
qed (use assms(2,3) in \<open>simp_all add: decode_struct_def\<close>)

lemma decode_list_all:
  "decode_list f js = Some xs \<Longrightarrow> (\<And>j x. f j = Some x \<Longrightarrow> P x) \<Longrightarrow> list_all P xs"
  by (induction js arbitrary: xs) (auto split: option.splits)

lemmas field_defs = string_field_def int_field_def uint64_field_def custom_field_def
  struct_field_def slice_field_def

end
