(* ===== verification/Json_Glue.thy ===== *)
theory Json_Glue
  imports Json
begin

text \<open>
  What becomes of a document that is written behind a torn one on the same line. A decoder that meets the
  opening brace of the second document stops wherever the first was cut: in a string, at the quote of
  the first member name; anywhere else, at the brace, or at the end of the second document, which then is
  an unfinished member of the first.
\<close>

section \<open>More fuel and more depth\<close>

lemma parse_mono:
  "parse_value n d s = Some x \<Longrightarrow> n \<le> m \<Longrightarrow> d \<le> e \<Longrightarrow> parse_value m e s = Some x"
  "parse_elems n d s = Some y \<Longrightarrow> n \<le> m \<Longrightarrow> d \<le> e \<Longrightarrow> parse_elems m e s = Some y"
  "parse_members n d s = Some z \<Longrightarrow> n \<le> m \<Longrightarrow> d \<le> e \<Longrightarrow> parse_members m e s = Some z"
proof (induction n d s and n d s and n d s arbitrary: x m e and y m e and z m e
    rule: parse_value_parse_elems_parse_members.induct)
  case (2 n d s)
  obtain m' where m: "m = Suc m'" "n \<le> m'" using "2.prems"(2) by (cases m) auto
  obtain c r where c: "skip_ws s = c # r" using "2.prems"(1) by (auto split: list.splits)
  have e: "d - 1 \<le> e - 1" using "2.prems"(3) by simp
  consider (arr) "c = CHR ''[''" | (obj) "c = CHR ''{''" | (other) "c \<noteq> CHR ''[''" "c \<noteq> CHR ''{''" by blast
  then show ?case
  proof cases
    case arr
    then obtain k t where k: "skip_ws r = k # t" "d \<noteq> 0" using "2.prems"(1) c by (auto split: if_splits list.splits)
    have "e \<noteq> 0" using k(2) "2.prems"(3) by simp
    with arr k c m "2.prems"(1) show ?thesis
      using "2.IH"(1) [OF c _ arr k(2,1) _ _ m(2) e] by (auto split: if_splits)
  next
    case obj
    then obtain k t where k: "skip_ws r = k # t" "d \<noteq> 0" using "2.prems"(1) c by (auto split: if_splits list.splits)
    have "e \<noteq> 0" using k(2) "2.prems"(3) by simp
    with obj k c m "2.prems"(1) show ?thesis
      using "2.IH"(2) [OF c _ _ obj k(2,1) _ _ m(2) e] by (auto split: if_splits)
  qed (use "2.prems"(1) c m in auto)
next
  case (4 n d s)
  obtain m' where m: "m = Suc m'" "n \<le> m'" using "4.prems"(2) by (cases m) auto
  obtain v t c r where v: "parse_value n d s = Some (v, t)" and c: "skip_ws t = c # r"
    using "4.prems"(1) by (auto split: option.splits list.splits)
  have "parse_value m' e s = Some (v, t)" by (rule "4.IH"(1) [OF v m(2) "4.prems"(3)])
  then show ?case
    using "4.prems"(1) v c m(1) "4.IH"(2) [OF v refl c _ _ _ m(2) "4.prems"(3)] by (auto split: if_splits)
next
  case (6 n d s)
  obtain m' where m: "m = Suc m'" "n \<le> m'" using "6.prems"(2) by (cases m) auto
  obtain r k r1 r2 v r3 a r4 where
    q: "skip_ws s = DQ # r" and k: "scan_str r = Some (k, r1)" and c: "skip_ws r1 = CHR '':'' # r2"
    and v: "parse_value n d r2 = Some (v, r3)" and a: "skip_ws r3 = a # r4"
    using "6.prems"(1) by (auto split: option.splits list.splits if_splits)
  have v': "parse_value m' e r2 = Some (v, r3)" using "6.IH"(1) q k c v m(2) "6.prems"(3) by blast
  show ?case
  proof (cases "a = CHR ''}''")
    case True
    then show ?thesis using "6.prems"(1) q k c v v' a m(1) by simp
  next
    case False
    with "6.prems"(1) q k c v a obtain ns where ns: "a = CHR '',''" "parse_members n d r4 = Some ns"
      "z = (case ns of (ms, u) \<Rightarrow> ((k, v) # ms, u))"
      by (auto split: if_splits)
    have "parse_members m' e r4 = Some ns" using "6.IH"(2) q k c v a False ns(1,2) m(2) "6.prems"(3) by blast
    then show ?thesis using q k c v' a ns(1,3) m(1) by simp
  qed
qed simp_all

section \<open>A document behind a torn one\<close>

text \<open>The second document \<open>g\<close>: an object whose first member name starts with the letter t, read to its end by
  any decoder that reads it at all.\<close>

definition glued :: "bytes \<Rightarrow> bool" where
  "glued g \<longleftrightarrow> (\<exists>m. g = CHR ''{'' # DQ # CHR ''t'' # m) \<and> (\<forall>n d j t. parse_value n d g = Some (j, t) \<longrightarrow> t = [])"

lemma render_glued:
  assumes "wf_json max_nesting j" and "render j = CHR ''{'' # DQ # CHR ''t'' # m"
  shows "glued (render j)"
  unfolding glued_def
proof (intro conjI allI impI)
  show "\<exists>m. render j = CHR ''{'' # DQ # CHR ''t'' # m" using assms(2) by blast
  fix n d j' t assume p: "parse_value n d (render j) = Some (j', t)"
  let ?n = "n + 2 * length (render j)" and ?d = "d + max_nesting"
  have "parse_value ?n ?d (render j) = Some (j', t)" by (rule parse_mono(1) [OF p]) simp_all
  moreover have "parse_value (2 * length (render j)) max_nesting (render j) = Some (j, [])"
    using parse_value_render [OF assms(1), of "2 * length (render j)" "[]"] by simp
  then have "parse_value ?n ?d (render j) = Some (j, [])" by (rule parse_mono(1)) simp_all
  ultimately show "t = []" by simp
qed

lemma brace_simps [simp]: "hex_val (CHR ''{'') = None" "\<not> is_ws (CHR ''{'')" "\<not> is_digit (CHR ''{'')"
  by (simp_all add: hex_val_def is_ws_def is_digit_def)

lemma skip_ws_glued:
  assumes "glued g"
  shows "skip_ws (p @ g) = (if skip_ws p = [] then g else skip_ws p @ g)"
proof -
  obtain m where "g = CHR ''{'' # m" using assms by (auto simp: glued_def)
  then show ?thesis by (induction p) (simp_all add: skip_ws_def)
qed

text \<open>Where reading has stopped: at or before the start of \<open>g\<close>, or at the name of its first member.\<close>

definition stopped :: "bytes \<Rightarrow> bytes \<Rightarrow> bool" where
  "stopped g t \<longleftrightarrow> (\<exists>t'. t = t' @ g) \<or> (\<exists>m. t = CHR ''t'' # m)"

lemma stoppedI: "stopped g (t' @ g)" by (auto simp: stopped_def)

lemma scan_str_glued:
  assumes "glued g" and "scan_str (p @ g) = Some (x, t)"
  shows "stopped g t"
proof -
  obtain m where g: "g = CHR ''{'' # DQ # CHR ''t'' # m" using assms(1) by (auto simp: glued_def)
  have brace: "scan_str (CHR ''{'' # s) = map_option (\<lambda>(y, t). (CHR ''{'' # y, t)) (scan_str s)" for s
    by (simp add: scan_str_char)
  have quote: "scan_str (DQ # s) = Some ([], s)" for s by (simp add: scan_str.simps)
  show ?thesis using assms(2)
  proof (induction p arbitrary: x rule: length_induct)
    case (1 p)
    show ?case
    proof (cases p)
      case Nil
      then show ?thesis using "1.prems" by (auto simp: g brace quote stopped_def)
    next
      case (Cons c r)
      consider "c = DQ" | (bsl) "c = BSL" | (plain) "c \<noteq> DQ" "c \<noteq> BSL" "\<not> byte c < 32"
        using "1.prems" Cons by (cases "c = DQ"; cases "c = BSL") (auto simp: scan_str.simps split: if_splits)
      then show ?thesis
      proof cases
        case 1
        then show ?thesis using "1.prems" Cons by (auto simp: quote stopped_def)
      next
        case plain
        then have c: "scan_str (c # q) = map_option (\<lambda>(s, t). (c # s, t)) (scan_str q)" for q by (simp add: scan_str_char)
        then obtain y where "scan_str (r @ g) = Some (y, t)" using "1.prems" Cons by auto
        then show ?thesis using "1.IH" Cons by auto
      next
        case bsl
        then obtain e r1 where r: "r @ g = e # r1" using "1.prems" Cons by (cases "r @ g") (auto simp: g)
        show ?thesis
        proof (cases "e = CHR ''u''")
          case True
          obtain h1 h2 h3 h4 r2 y where h: "r1 = h1 # h2 # h3 # h4 # r2"
            "hex_val h1 \<noteq> None \<and> hex_val h2 \<noteq> None \<and> hex_val h3 \<noteq> None \<and> hex_val h4 \<noteq> None" "scan_str r2 = Some (y, t)"
            using "1.prems" unfolding Cons append_Cons r bsl True by (rule scan_str_uD)
          obtain q where q: "r = CHR ''u'' # h1 # h2 # h3 # h4 # q" "r2 = q @ g"
            using r h(1,2) True by (auto simp: g Cons_eq_append_conv append_eq_Cons_conv)
          have "length q < length p" by (simp add: Cons q(1))
          then show ?thesis using "1.IH" h(3) q(2) by blast
        next
          case False
          then obtain y where y: "scan_str r1 = Some (y, t)"
              "e \<in> {DQ, BSL, CHR ''/'', CHR ''b'', CHR ''f'', CHR ''n'', CHR ''r'', CHR ''t''}"
            using "1.prems" unfolding Cons append_Cons r bsl by (auto simp: scan_str_bsl simp del: insert_iff split: if_splits)
          obtain q where q: "r = e # q" "r1 = q @ g" using r y(2) by (cases r) (auto simp: g)
          have "length q < length p" by (simp add: Cons q(1))
          then show ?thesis using "1.IH" y(1) q(2) by blast
        qed
      qed
    qed
  qed
qed

lemma takeWhile_brace [simp]: "CHR ''{'' \<notin> set (takeWhile is_digit r)"
  by (auto dest: set_takeWhileD)

lemma scan_exp_text:
  assumes "scan_exp s = Some (x, t)"
  shows "s = x @ t \<and> CHR ''{'' \<notin> set x"
proof (cases s)
  case (Cons c r)
  show ?thesis
  proof (cases r)
    case (Cons a r')
    then show ?thesis using assms \<open>s = c # r\<close> by (auto simp: scan_exp_def Let_def split: if_splits)
  qed (use assms Cons in \<open>auto simp: scan_exp_def Let_def split: if_splits\<close>)
qed (use assms in \<open>simp add: scan_exp_def\<close>)

lemma scan_int_frac_text:
  "scan_int_part s = Some (x, t) \<Longrightarrow> s = x @ t \<and> CHR ''{'' \<notin> set x"
  "scan_frac s = Some (x, t) \<Longrightarrow> s = x @ t \<and> CHR ''{'' \<notin> set x"
  by (auto simp: scan_int_part_def scan_frac_def simp del: takeWhile.simps dropWhile.simps split: list.splits if_splits)

lemma scan_num_text:
  assumes "scan_num s = Some (x, t)"
  shows "s = x @ t \<and> CHR ''{'' \<notin> set x"
proof -
  let ?sgn = "if s \<noteq> [] \<and> hd s = CHR ''-'' then [CHR ''-''] else []"
  from assms obtain p s1 q s2 u where n: "scan_int_part (drop (length ?sgn) s) = Some (p, s1)"
    "scan_frac s1 = Some (q, s2)" "scan_exp s2 = Some (u, t)" "x = ?sgn @ p @ q @ u"
    unfolding scan_num_def Let_def by (auto split: option.splits)
  have s: "s = ?sgn @ drop (length ?sgn) s" by (cases s) auto
  note parts = scan_int_frac_text(1) [OF n(1)] scan_int_frac_text(2) [OF n(2)] scan_exp_text [OF n(3)]
  have "s = ?sgn @ p @ q @ u @ t" using s parts by (metis append.assoc)
  moreover have "CHR ''{'' \<notin> set (?sgn @ p @ q @ u)" using parts by simp
  ultimately show ?thesis unfolding n(4) by simp
qed

lemma scan_num_glued:
  assumes "glued g" and "scan_num (p @ g) = Some (x, t)"
  shows "\<exists>t'. t = t' @ g"
proof -
  obtain m where g: "g = CHR ''{'' # m" using assms(1) by (auto simp: glued_def)
  have x: "p @ g = x @ t" "CHR ''{'' \<notin> set x" using scan_num_text [OF assms(2)] by simp_all
  then obtain us where "x = p @ us \<and> g = us @ t \<or> p = x @ us \<and> us @ g = t" by (auto simp: append_eq_append_conv2)
  then show ?thesis using x(2) by (cases us) (auto simp: g)
qed

lemma scan_lit_glued:
  assumes "glued g" and "scan_lit w v (p @ g) = Some (x, t)" and "CHR ''{'' \<notin> set w"
  shows "\<exists>t'. t = t' @ g"
proof -
  obtain m where g: "g = CHR ''{'' # m" using assms(1) by (auto simp: glued_def)
  have w: "take (length w) (p @ g) = w" "t = drop (length w) (p @ g)" using assms(2) by (auto simp: scan_lit_def split: if_splits)
  have "length w \<le> length p"
  proof (rule ccontr)
    assume "\<not> length w \<le> length p"
    then have "CHR ''{'' \<in> set (take (length w) (p @ g))" by (cases "length w - length p") (auto simp: g)
    then show False using w(1) assms(3) by (simp only:)
  qed
  then show ?thesis using w(2) by simp
qed

text \<open>The value that is read ends with \<open>g\<close> only if nothing but blanks stands before it.\<close>

lemma parse_glued:
  assumes "glued g"
  shows "parse_value n d s = Some (j, t) \<Longrightarrow> s = p @ g \<Longrightarrow> skip_ws p = [] \<and> t = [] \<or> stopped g t"
    and "parse_elems n d s = Some (vs, t) \<Longrightarrow> s = p @ g \<Longrightarrow> stopped g t"
    and "parse_members n d s = Some (ms, t) \<Longrightarrow> s = p @ g \<Longrightarrow> stopped g t"
proof (induction n d s and n d s and n d s arbitrary: p j t and p vs t and p ms t
    rule: parse_value_parse_elems_parse_members.induct)
  case (2 n d s)
  obtain m where g: "g = CHR ''{'' # m" using assms by (auto simp: glued_def)
  show ?case
  proof (cases "skip_ws p")
    case Nil
    have "parse_value (Suc n) d g = Some (j, t)"
      using "2.prems" Nil parse_value_skip [of "Suc n" d "p @ g"] by (simp add: skip_ws_glued [OF assms])
    then have "t = []" using assms unfolding glued_def by blast
    then show ?thesis using Nil by blast
  next
    case (Cons c r)
    have s: "skip_ws s = c # r @ g" using "2.prems"(2) Cons by (simp add: skip_ws_glued [OF assms])
    have r: "skip_ws (r @ g) = (if skip_ws r = [] then g else skip_ws r @ g)" by (rule skip_ws_glued [OF assms])
    consider (str) "c = DQ" | (arr) "c = CHR ''[''" | (obj) "c = CHR ''{''" | (n) "c = CHR ''n''"
      | (t) "c = CHR ''t''" | (f) "c = CHR ''f''"
      | (num) "c \<notin> {DQ, CHR ''['', CHR ''{'', CHR ''n'', CHR ''t'', CHR ''f''}" by auto
    then have "stopped g t"
    proof cases
      case str
      then show ?thesis using "2.prems"(1) s scan_str_glued [OF assms] by auto
    next
      case arr
      then have "d \<noteq> 0" using "2.prems"(1) s by (auto split: if_splits)
      obtain e u where e: "skip_ws (r @ g) = e # u" using r g by (cases "skip_ws r") auto
      show ?thesis
      proof (cases "e = CHR '']''")
        case True
        then obtain u' where "u = u' @ g" using r e g by (cases "skip_ws r") auto
        then show ?thesis using "2.prems"(1) s arr e True \<open>d \<noteq> 0\<close> by (auto simp: stopped_def)
      next
        case False
        obtain vs where "parse_elems n (d - 1) (e # u) = Some (vs, t)"
          using "2.prems"(1) s arr e False \<open>d \<noteq> 0\<close> by auto
        moreover have "e # u = (if skip_ws r = [] then [] else skip_ws r) @ g" using r e by simp
        ultimately show ?thesis using "2.IH"(1) [OF s _ arr \<open>d \<noteq> 0\<close> e False] arr by blast
      qed
    next
      case obj
      then have "d \<noteq> 0" using "2.prems"(1) s by (auto split: if_splits)
      obtain e u where e: "skip_ws (r @ g) = e # u" using r g by (cases "skip_ws r") auto
      show ?thesis
      proof (cases "e = CHR ''}''")
        case True
        then obtain u' where "u = u' @ g" using r e g by (cases "skip_ws r") auto
        then show ?thesis using "2.prems"(1) s obj e True \<open>d \<noteq> 0\<close> by (auto simp: stopped_def)
      next
        case False
        obtain ms where "parse_members n (d - 1) (e # u) = Some (ms, t)"
          using "2.prems"(1) s obj e False \<open>d \<noteq> 0\<close> by auto
        moreover have "e # u = (if skip_ws r = [] then [] else skip_ws r) @ g" using r e by simp
        ultimately show ?thesis using "2.IH"(2) [OF s _ _ obj \<open>d \<noteq> 0\<close> e False] obj by blast
      qed
    next
      case n
      then show ?thesis using "2.prems"(1) s scan_lit_glued [OF assms, of "''null''" JNull "c # r"] by (auto simp: stopped_def)
    next
      case t
      then show ?thesis using "2.prems"(1) s scan_lit_glued [OF assms, of "''true''" "JBool True" "c # r"] by (auto simp: stopped_def)
    next
      case f
      then show ?thesis using "2.prems"(1) s scan_lit_glued [OF assms, of "''false''" "JBool False" "c # r"] by (auto simp: stopped_def)
    next
      case num
      then obtain x where "scan_num ((c # r) @ g) = Some (x, t)" using "2.prems"(1) s by auto
      then show ?thesis using scan_num_glued [OF assms] unfolding stopped_def by blast
    qed
    then show ?thesis ..
  qed
next
  case (4 n d s)
  obtain m where g: "g = CHR ''{'' # m" using assms by (auto simp: glued_def)
  from "4.prems"(1) obtain v t1 c r where v: "parse_value n d s = Some (v, t1)" and c: "skip_ws t1 = c # r"
    "c = CHR '']'' \<and> r = t \<or> c = CHR '','' \<and> (\<exists>ws. parse_elems n d r = Some (ws, t))"
    by (auto split: option.splits list.splits if_splits)
  have "stopped g t1" using "4.IH"(1) [OF v "4.prems"(2)] c by auto
  then obtain t' where t': "t1 = t' @ g" using c by (auto simp: stopped_def)
  then obtain r' where "r = r' @ g" using c skip_ws_glued [OF assms, of t'] g by (cases "skip_ws t'") auto
  then show ?case using c(2) "4.IH"(2) [OF v refl c(1)] by (auto simp: stoppedI)
next
  case (6 n d s)
  obtain m where g: "g = CHR ''{'' # m" using assms by (auto simp: glued_def)
  from "6.prems"(1) obtain r k r1 r2 v r3 e r4 where
    q: "skip_ws s = DQ # r" and k: "scan_str r = Some (k, r1)" and c: "skip_ws r1 = CHR '':'' # r2"
    and v: "parse_value n d r2 = Some (v, r3)" and e: "skip_ws r3 = e # r4"
      "e = CHR ''}'' \<and> r4 = t \<or> e = CHR '','' \<and> (\<exists>ns. parse_members n d r4 = Some (ns, t))"
    by (auto split: option.splits list.splits if_splits)
  have next_char: "\<exists>y'. y = y' @ g" if "stopped g x" "skip_ws x = a # y" "a \<noteq> CHR ''t''" "a \<noteq> CHR ''{''" for x a y
  proof -
    note h = that
    obtain x' where x': "x = x' @ g" using h by (auto simp: stopped_def skip_ws_def is_ws_def)
    then show ?thesis using h skip_ws_glued [OF assms, of x'] g by (cases "skip_ws x'") auto
  qed
  obtain r' where r': "r = r' @ g" using next_char [OF stoppedI [of g p]] q "6.prems"(2) by auto
  obtain r2' where r2': "r2 = r2' @ g" using next_char [OF scan_str_glued [OF assms k [unfolded r']] c] by auto
  have "stopped g r3" using "6.IH"(1) [OF q _ k _ c _ v r2'] e by auto
  then obtain r4' where "r4 = r4' @ g" using next_char e by fastforce
  then show ?case using e "6.IH"(2) q k c v by (auto simp: stoppedI)
qed simp_all

lemma glued_not_parsed:
  assumes "glued g" and "skip_ws p \<noteq> []"
  shows "parse_json (p @ g) = None"
proof (rule ccontr)
  assume "parse_json (p @ g) \<noteq> None"
  then obtain j t where p: "parse_value (2 * length (p @ g) + 2) max_nesting (p @ g) = Some (j, t)" "skip_ws t = []"
    by (auto simp: parse_json_def split: option.splits prod.splits if_splits)
  obtain m where g: "g = CHR ''{'' # m" using assms by (auto simp: glued_def)
  have "stopped g t" using parse_glued(1) [OF assms(1) p(1) refl] assms(2) by blast
  then consider (before) t' where "t = t' @ g" | (name) m where "t = CHR ''t'' # m" unfolding stopped_def by blast
  then show False
  proof cases
    case before
    then show ?thesis using p(2) skip_ws_glued [OF assms(1), of t'] by (auto simp: g split: if_splits)
  next
    case name
    then show ?thesis using p(2) by (simp add: skip_ws_def is_ws_def)
  qed
qed

end
