(* ===== verification/Sha256.thy ===== *)
theory Sha256
  imports Go_Text
begin

text \<open>
  SHA-256 as \<open>crypto/sha256\<close> computes it (FIPS 180-4): padding, the message schedule, the
  compression function on 32-bit words with wrap-around addition, and the big-endian output.
  Everything is executable. What the components use of it is its length (\<open>length_sha256\<close>).
  Collision resistance is not a theorem about a concrete function: the tamper-evidence
  theorems exhibit the colliding inputs instead.
\<close>

unbundle bit_operations_syntax

definition rotr :: "nat \<Rightarrow> 32 word \<Rightarrow> 32 word" where
  "rotr n w = drop_bit n w OR push_bit (32 - n) w"

text \<open>
  The constants as the standard defines them: the first 32 bits of the fractional parts of the cube
  roots of the first 64 primes, and of the square roots of the first 8. \<open>root_floor k n\<close> is the integer
  \<open>k\<close>-th root of \<open>n\<close>, found bit by bit from bit 36 down.
\<close>

definition root_floor :: "nat \<Rightarrow> nat \<Rightarrow> nat" where
  "root_floor k n = fold (\<lambda>b r. if (r + 2 ^ b) ^ k \<le> n then r + 2 ^ b else r) (rev [0..<37]) 0"

definition root_fraction :: "nat \<Rightarrow> nat \<Rightarrow> 32 word" where
  "root_fraction k p = of_nat (root_floor k (p * 2 ^ (32 * k)))"

definition round_constants :: "32 word list" where
  "round_constants = map (root_fraction 3)
     [2, 3, 5, 7, 11, 13, 17, 19, 23, 29, 31, 37, 41, 43, 47, 53, 59, 61, 67, 71, 73, 79, 83, 89, 97, 101, 103,
      107, 109, 113, 127, 131, 137, 139, 149, 151, 157, 163, 167, 173, 179, 181, 191, 193, 197, 199, 211, 223, 227,
      229, 233, 239, 241, 251, 257, 263, 269, 271, 277, 281, 283, 293, 307, 311]"

type_synonym digest_state = "32 word \<times> 32 word \<times> 32 word \<times> 32 word \<times> 32 word \<times> 32 word \<times> 32 word \<times> 32 word"

definition initial_digest :: digest_state where
  "initial_digest =
     (root_fraction 2 2, root_fraction 2 3, root_fraction 2 5, root_fraction 2 7,
      root_fraction 2 11, root_fraction 2 13, root_fraction 2 17, root_fraction 2 19)"

lemma root_bit_order:
  "rev [0..<37] = [36, 35, 34, 33, 32, 31, 30, 29, 28, 27, 26, 25, 24, 23, 22, 21, 20, 19, 18, 17, 16, 15, 14, 13,
     12, 11, 10, 9, 8, 7, 6, 5, 4, 3, 2, 1, 0::nat]"
  by (simp add: upt_conv_Cons)

text \<open>The first and the last constant of each kind, as the standard prints them.\<close>

lemma printed_constants:
  "root_fraction 3 2 = 0x428a2f98" "root_fraction 3 311 = 0xc67178f2"
  "root_fraction 2 2 = 0x6a09e667" "root_fraction 2 19 = 0x5be0cd19"
  by (simp_all only: root_fraction_def root_floor_def root_bit_order) simp_all

definition be_word :: "bytes \<Rightarrow> 32 word" where
  "be_word s = of_nat (foldl (\<lambda>n c. n * 256 + byte c) 0 s)"

text \<open>The schedule, latest word first: word \<open>t\<close> is computed from words \<open>t-2, t-7, t-15, t-16\<close>.\<close>

fun extend_schedule :: "nat \<Rightarrow> 32 word list \<Rightarrow> 32 word list" where
  "extend_schedule 0 ws = ws"
| "extend_schedule (Suc n) ws =
     (let x = ws ! 1; y = ws ! 14;
          s1 = rotr 17 x XOR rotr 19 x XOR drop_bit 10 x;
          s0 = rotr 7 y XOR rotr 18 y XOR drop_bit 3 y
      in extend_schedule n ((ws ! 15 + s0 + ws ! 6 + s1) # ws))"

fun block_words :: "nat \<Rightarrow> bytes \<Rightarrow> 32 word list" where
  "block_words 0 s = []"
| "block_words (Suc n) s = be_word (take 4 s) # block_words n (drop 4 s)"

definition sha_round :: "32 word \<times> 32 word \<Rightarrow> digest_state \<Rightarrow> digest_state" where
  "sha_round kw st =
     (case st of (a, b, c, d, e, f, g, h) \<Rightarrow>
        let s1 = rotr 6 e XOR rotr 11 e XOR rotr 25 e;
            ch = (e AND f) XOR (NOT e AND g);
            t1 = h + s1 + ch + fst kw + snd kw;
            s0 = rotr 2 a XOR rotr 13 a XOR rotr 22 a;
            maj = (a AND b) XOR (a AND c) XOR (b AND c)
        in (t1 + s0 + maj, a, b, c, d + t1, e, f, g))"

fun add_digest :: "digest_state \<Rightarrow> digest_state \<Rightarrow> digest_state" where
  "add_digest (a, b, c, d, e, f, g, h) (a', b', c', d', e', f', g', h') =
     (a + a', b + b', c + c', d + d', e + e', f + f', g + g', h + h')"

definition compress :: "bytes \<Rightarrow> digest_state \<Rightarrow> digest_state" where
  "compress blk st =
     add_digest st
       (fold sha_round (zip round_constants (rev (extend_schedule 48 (rev (block_words 16 blk))))) st)"

fun compress_blocks :: "nat \<Rightarrow> bytes \<Rightarrow> digest_state \<Rightarrow> digest_state" where
  "compress_blocks 0 s st = st"
| "compress_blocks (Suc n) s st = compress_blocks n (drop 64 s) (compress (take 64 s) st)"

fun be_bytes :: "nat \<Rightarrow> nat \<Rightarrow> bytes" where
  "be_bytes 0 v = []"
| "be_bytes (Suc n) v = be_bytes n (v div 256) @ [chr (v mod 256)]"

definition sha_pad :: "bytes \<Rightarrow> bytes" where
  "sha_pad s =
     s @ [CHR 0x80] @ replicate ((119 - length s mod 64) mod 64) CHR 0x00 @ be_bytes 8 (8 * length s)"

fun digest_bytes :: "digest_state \<Rightarrow> bytes" where
  "digest_bytes (a, b, c, d, e, f, g, h) =
     concat (map (\<lambda>w. be_bytes 4 (unat w)) [a, b, c, d, e, f, g, h])"

definition sha256 :: "bytes \<Rightarrow> bytes" where
  "sha256 s =
     digest_bytes (compress_blocks (length (sha_pad s) div 64) (sha_pad s) initial_digest)"

lemma length_be_bytes [simp]: "length (be_bytes n v) = n"
  by (induction n arbitrary: v) auto

lemma length_sha256 [simp]: "length (sha256 s) = 32"
proof -
  have "length (digest_bytes st) = 32" for st
    by (cases st rule: digest_bytes.cases) simp
  then show ?thesis by (simp add: sha256_def)
qed

lemma pad_zeros: "(n + ((119 - n mod 64) mod 64 + 9)) mod 64 = (0 :: nat)"
proof -
  define m where "m = n mod 64"
  have "m < 64" by (simp add: m_def)
  then have "(m + ((119 - m) mod 64 + 9)) mod 64 = 0"
  proof (cases "m \<le> 55")
    case True
    then have "(119 - m) mod 64 = 55 - m" by (simp add: le_mod_geq)
    with True show ?thesis by simp
  qed simp
  then show ?thesis unfolding m_def by (metis mod_add_left_eq)
qed

lemma sha_pad_blocks: "64 dvd length (sha_pad s)"
proof -
  have "length (sha_pad s) = length s + ((119 - length s mod 64) mod 64 + 9)"
    by (simp add: sha_pad_def)
  then show ?thesis using pad_zeros [of "length s"] by (metis dvd_eq_mod_eq_0)
qed

end
