(* ===== verification/Audit_Record.thy ===== *)
theory Audit_Record
  imports Json "HOL-Library.Product_Lexorder"
begin

text \<open>
  \<open>internal/record/record.go\<close> and \<open>internal/canonical/canonical.go\<close>: the schema-version sets, the
  timestamp type with its two spellings, the audit record with its version-dependent wire
  shape, the mapping from spans, and canonical serialization.

  A span belongs to the collector's \<open>pdata\<close> package; it is a record of what the code reads
  from it. \<open>json.Marshal\<close> cannot fail on the types serialized here (strings, integers and
  slices of structs), so encoders return bytes; decoders return \<open>None\<close> on error.
  The lemmas show that decoding inverts encoding, that the encoding is injective and fits one
  line, that a timestamp has exactly two accepted spellings beside \<open>null\<close>, and what the
  span mapping selects.
\<close>

section \<open>Schema versions\<close>

definition SchemaVersion :: bytes where "SchemaVersion = ''v3''"

definition legacyNumericTimestampSchemas :: "bytes list" where
  "legacyNumericTimestampSchemas = [''v1'', ''v2'']"

definition UsesNumericTimestamps :: "bytes \<Rightarrow> bool" where
  "UsesNumericTimestamps schemaVersion \<longleftrightarrow> List.member legacyNumericTimestampSchemas schemaVersion"

definition restampableToCurrent :: "bytes list" where
  "restampableToCurrent = [''v2'', ''v3'']"

definition RestampableToCurrent :: "bytes \<Rightarrow> bool" where
  "RestampableToCurrent schemaVersion \<longleftrightarrow> List.member restampableToCurrent schemaVersion"

definition implementedSchemas :: "bytes list" where
  "implementedSchemas = [''v1'', ''v2'', ''v3'']"

definition Implemented :: "bytes \<Rightarrow> bool" where
  "Implemented schemaVersion \<longleftrightarrow> List.member implementedSchemas schemaVersion"

lemmas schema_set_defs = SchemaVersion_def UsesNumericTimestamps_def legacyNumericTimestampSchemas_def
  RestampableToCurrent_def restampableToCurrent_def Implemented_def implementedSchemas_def

section \<open>Timestamps\<close>

type_synonym UnixNano = "64 word"

definition UnixNano_MarshalJSON :: "UnixNano \<Rightarrow> bytes" where
  "UnixNano_MarshalJSON t = DQ # FormatUint (unat t) @ [DQ]"

definition UnixNano_UnmarshalJSON :: "bytes \<Rightarrow> UnixNano option" where
  "UnixNano_UnmarshalJSON b =
     (if b = ''null'' then Some 0
      else let s = (if 2 \<le> length b \<and> hd b = DQ \<and> last b = DQ then butlast (tl b) else b)
           in if 1 < length s \<and> hd s = CHR ''0'' then None
              else map_option of_nat (ParseUint s))"

lemma not_digit_quote [simp]: "\<not> is_digit DQ"
  by (simp add: is_digit_def)

lemma unat_word64: "unat (t :: 64 word) < 2 ^ 64"
  using unsigned_less [of t] by simp

lemma ParseUint_unat [simp]: "ParseUint (FormatUint (unat (t :: 64 word))) = Some (unat t)"
  by (rule ParseUint_FormatUint [OF unat_word64])

lemma strip_quotes: "butlast (tl (q # s @ [r])) = s"
  by simp

lemma FormatUint_canonical: "\<not> (1 < length (FormatUint n) \<and> hd (FormatUint n) = CHR ''0'')"
  by (cases "n = 0") (auto simp: hd_FormatUint FormatUint_0)

lemma FormatUint_not_null [simp]: "FormatUint n \<noteq> ''null''" "FormatUint n \<noteq> CHR ''n'' # s"
  by (cases n rule: FormatUint_Cons; auto simp: is_digit_def)+

lemma FormatUint_not_quote [simp]: "hd (FormatUint n) \<noteq> DQ"
  by (cases n rule: FormatUint_Cons) (auto simp: is_digit_def)

lemma UnixNano_number: "UnixNano_UnmarshalJSON (FormatUint (unat t)) = Some t"
  using FormatUint_canonical [of "unat t"]
  by (simp add: UnixNano_UnmarshalJSON_def Let_def)

lemma UnixNano_quoted: "UnixNano_UnmarshalJSON (UnixNano_MarshalJSON t) = Some t"
  using FormatUint_canonical [of "unat t"]
  by (simp add: UnixNano_UnmarshalJSON_def UnixNano_MarshalJSON_def Let_def)

text \<open>The canonical spelling is the only one \<open>ParseUint\<close> accepts without leading zeros.\<close>

lemma parse_digits_bound: "parse_digits acc s = Some n \<Longrightarrow> acc \<le> n"
  by (induction acc s rule: parse_digits.induct) (auto split: if_splits)

lemma digit_char_val: "is_digit c \<Longrightarrow> digit_char (digit_val c) = c"
  by (simp add: digit_char_def digit_val_def is_digit_def)

lemma digit_val_less: "is_digit c \<Longrightarrow> digit_val c < 10"
  by (simp add: digit_val_def is_digit_def) linarith

lemma char_zero: "digit_char 0 = CHR ''0''"
  by (simp add: digit_char_def chr_eq_iff)

lemma parse_digits_canonical:
  "parse_digits acc s = Some n \<Longrightarrow> 0 < acc \<Longrightarrow> FormatUint n = FormatUint acc @ s"
proof (induction acc s rule: parse_digits.induct)
  case (2 acc c cs)
  then have d: "is_digit c" "digit_val c < 10" by (auto split: if_splits dest: digit_val_less)
  have "FormatUint (10 * acc + digit_val c) = FormatUint acc @ [c]"
    using d "2.prems"(2) by (subst FormatUint.simps) (simp add: digit_char_val)
  with 2 d show ?case by simp
qed simp

lemma ParseUint_canonical:
  assumes "ParseUint s = Some n" and "\<not> (1 < length s \<and> hd s = CHR ''0'')"
  shows "s = FormatUint n"
proof -
  from assms(1) obtain c r where s: "s = c # r" and p: "parse_digits 0 s = Some n"
    by (cases s) (auto simp: ParseUint_def split: option.splits if_splits)
  then have d: "is_digit c" "parse_digits (digit_val c) r = Some n" by (auto split: if_splits)
  have one: "FormatUint (digit_val c) = [c]"
    using digit_val_less [OF d(1)] by (simp add: FormatUint.simps digit_char_val d(1))
  show ?thesis
  proof (cases "digit_val c = 0")
    case True
    then have "c = CHR ''0''" using digit_char_val [OF d(1)] char_zero by simp
    with assms(2) s have "r = []" by auto
    with d one s show ?thesis by simp
  next
    case False
    with parse_digits_canonical [OF d(2)] one s show ?thesis by simp
  qed
qed

lemma ParseUint_range: "ParseUint s = Some n \<Longrightarrow> n < 2 ^ 64"
  by (auto simp: ParseUint_def split: if_splits option.splits)

lemma unat_of_nat64: "n < 2 ^ 64 \<Longrightarrow> unat (of_nat n :: 64 word) = n"
  by (simp add: unat_of_nat take_bit_nat_eq_self)

lemma ParseUint_spelling:
  assumes "\<not> (1 < length s \<and> hd s = CHR ''0'')" and "map_option of_nat (ParseUint s) = Some (t :: 64 word)"
  shows "s = FormatUint (unat t)"
proof -
  from assms(2) obtain n where n: "ParseUint s = Some n" "t = of_nat n" by auto
  with ParseUint_canonical [OF n(1) assms(1)] ParseUint_range [OF n(1)]
  show ?thesis by (simp add: unat_of_nat64)
qed

lemma quoted_split: "2 \<le> length b \<Longrightarrow> hd b = q \<Longrightarrow> last b = q' \<Longrightarrow> b = q # butlast (tl b) @ [q']"
  by (cases b; cases "tl b") (auto simp: append_butlast_last_id [symmetric])

lemma UnixNano_spellings:
  assumes "UnixNano_UnmarshalJSON b = Some t"
  shows "b = ''null'' \<and> t = 0 \<or> b = FormatUint (unat t) \<or> b = UnixNano_MarshalJSON t"
proof (cases "b = ''null''")
  case False
  show ?thesis
  proof (cases "2 \<le> length b \<and> hd b = DQ \<and> last b = DQ")
    case True
    with assms False have "butlast (tl b) = FormatUint (unat t)"
      by (auto simp: UnixNano_UnmarshalJSON_def Let_def split: if_splits intro!: ParseUint_spelling)
    then show ?thesis using True quoted_split [of b DQ DQ] by (simp add: UnixNano_MarshalJSON_def)
  next
    case other: False
    with assms False have "b = FormatUint (unat t)"
      unfolding UnixNano_UnmarshalJSON_def Let_def if_not_P [OF other]
      by (auto split: if_splits intro!: ParseUint_spelling)
    then show ?thesis by simp
  qed
qed (use assms in \<open>simp add: UnixNano_UnmarshalJSON_def\<close>)

section \<open>Records\<close>

type_synonym AuditKind = bytes

definition AuditKindTask :: AuditKind where "AuditKindTask = ''task''"
definition AuditKindTool :: AuditKind where "AuditKindTool = ''tool''"
definition AuditKindHandoff :: AuditKind where "AuditKindHandoff = ''handoff''"
definition AuditKindGuardrail :: AuditKind where "AuditKindGuardrail = ''guardrail''"
definition AuditKindError :: AuditKind where "AuditKindError = ''error''"

record AttributeEntry =
  attrKey :: bytes
  attrValue :: bytes

record AuditRecord =
  schemaVersion :: bytes
  traceID :: bytes
  spanID :: bytes
  parentSpanID :: bytes
  seqInTrace :: int
  startTimeUnixNano :: UnixNano
  endTimeUnixNano :: UnixNano
  spanName :: bytes
  otelKind :: bytes
  genAIOperation :: bytes
  auditKind :: AuditKind
  selectedAttributes :: "AttributeEntry list option"
  status :: bytes

definition AttributeEntry_json :: "AttributeEntry \<Rightarrow> json" where
  "AttributeEntry_json a =
     JObj [(''key'', json_string (attrKey a)), (''value'', json_string (attrValue a))]"

text \<open>The fields every version writes alike, around the two timestamps.\<close>

definition record_json :: "(UnixNano \<Rightarrow> json) \<Rightarrow> AuditRecord \<Rightarrow> json" where
  "record_json time r = JObj
     [(''schema_version'', json_string (schemaVersion r)),
      (''trace_id'', json_string (traceID r)),
      (''span_id'', json_string (spanID r)),
      (''parent_span_id'', json_string (parentSpanID r)),
      (''seq_in_trace'', JNum (FormatInt (seqInTrace r))),
      (''start_time_unix_nano'', time (startTimeUnixNano r)),
      (''end_time_unix_nano'', time (endTimeUnixNano r)),
      (''span_name'', json_string (spanName r)),
      (''otel_kind'', json_string (otelKind r)),
      (''gen_ai_operation'', json_string (genAIOperation r)),
      (''audit_kind'', json_string (auditKind r)),
      (''selected_attributes'', json_slice AttributeEntry_json (selectedAttributes r)),
      (''status'', json_string (status r))]"

definition currentRecord_json :: "AuditRecord \<Rightarrow> json" where
  "currentRecord_json = record_json (\<lambda>t. JStr (FormatUint (unat t)))"

definition legacyV1V2Record_json :: "AuditRecord \<Rightarrow> json" where
  "legacyV1V2Record_json = record_json (\<lambda>t. JNum (FormatUint (unat t)))"

definition AuditRecord_json :: "AuditRecord \<Rightarrow> json" where
  "AuditRecord_json r =
     (if \<not> UsesNumericTimestamps (schemaVersion r) then currentRecord_json r
      else legacyV1V2Record_json r)"

definition AuditRecord_MarshalJSON :: "AuditRecord \<Rightarrow> bytes" where
  "AuditRecord_MarshalJSON r = render (AuditRecord_json r)"

definition AttributeEntry_fields :: "AttributeEntry fields" where
  "AttributeEntry_fields =
     [(''key'', string_field attrKey_update), (''value'', string_field attrValue_update)]"

definition AttributeEntry_zero :: AttributeEntry where
  "AttributeEntry_zero = \<lparr>attrKey = [], attrValue = []\<rparr>"

definition AuditRecord_fields :: "AuditRecord fields" where
  "AuditRecord_fields =
     [(''schema_version'', string_field schemaVersion_update),
      (''trace_id'', string_field traceID_update),
      (''span_id'', string_field spanID_update),
      (''parent_span_id'', string_field parentSpanID_update),
      (''seq_in_trace'', int_field seqInTrace_update),
      (''start_time_unix_nano'', custom_field UnixNano_UnmarshalJSON startTimeUnixNano_update),
      (''end_time_unix_nano'', custom_field UnixNano_UnmarshalJSON endTimeUnixNano_update),
      (''span_name'', string_field spanName_update),
      (''otel_kind'', string_field otelKind_update),
      (''gen_ai_operation'', string_field genAIOperation_update),
      (''audit_kind'', string_field auditKind_update),
      (''selected_attributes'',
        slice_field AttributeEntry_fields AttributeEntry_zero selectedAttributes_update),
      (''status'', string_field status_update)]"

definition AuditRecord_zero :: AuditRecord where
  "AuditRecord_zero =
     \<lparr>schemaVersion = [], traceID = [], spanID = [], parentSpanID = [], seqInTrace = 0,
      startTimeUnixNano = 0, endTimeUnixNano = 0, spanName = [], otelKind = [], genAIOperation = [],
      auditKind = [], selectedAttributes = None, status = []\<rparr>"

subsection \<open>internal/canonical\<close>

definition Marshal :: "AuditRecord \<Rightarrow> bytes" where
  "Marshal r = AuditRecord_MarshalJSON r"

definition Unmarshal :: "bytes \<Rightarrow> AuditRecord option" where
  "Unmarshal b = json_Unmarshal AuditRecord_fields AuditRecord_zero b"

definition valid_attribute :: "AttributeEntry \<Rightarrow> bool" where
  "valid_attribute a \<longleftrightarrow> valid_utf8 (attrKey a) \<and> valid_utf8 (attrValue a)"

text \<open>Records whose strings are UTF-8 and whose position fits Go's 64-bit \<open>int\<close>.\<close>

definition valid_record :: "AuditRecord \<Rightarrow> bool" where
  "valid_record r \<longleftrightarrow>
     list_all valid_utf8 [schemaVersion r, traceID r, spanID r, parentSpanID r, spanName r,
       otelKind r, genAIOperation r, auditKind r, status r] \<and>
     - (2 ^ 63) \<le> seqInTrace r \<and> seqInTrace r < 2 ^ 63 \<and>
     (case selectedAttributes r of None \<Rightarrow> True | Some as \<Rightarrow> list_all valid_attribute as)"

lemma wf_object:
  "list_all (\<lambda>(k, v). list_all name_char k \<and> wf_json d v) kvs \<Longrightarrow> wf_json (Suc d) (JObj kvs)"
  using wf_name by (fastforce simp: list_all_iff [where xs = kvs])

lemma wf_json_uint: "\<exists>i. FormatUint n = FormatInt i"
  by (rule exI [of _ "int n"]) (simp add: FormatInt_def)

lemma wf_json_digits: "\<exists>x. FormatUint n = esc x"
proof -
  have "list_all (\<lambda>c. esc [c] = [c] \<and> byte c < 128) s \<Longrightarrow> esc s = s" for s
    by (induction s) (auto simp: esc.simps(2))
  moreover have "list_all (\<lambda>c. esc [c] = [c] \<and> byte c < 128) (FormatUint n)"
    by (auto simp: list_all_iff esc.simps(2) esc_ascii_def is_digit_def dest!: FormatUint_digits)
  ultimately show ?thesis by metis
qed

lemma wf_slice:
  "0 < d \<Longrightarrow> (\<And>x. x \<in> (case xs of None \<Rightarrow> {} | Some ys \<Rightarrow> set ys) \<Longrightarrow> wf_json (d - 1) (f x))
    \<Longrightarrow> wf_json d (json_slice f xs)"
  by (auto simp: json_slice_def split: option.splits)

lemma wf_AttributeEntry_json: "wf_json (Suc d) (AttributeEntry_json a)"
  unfolding AttributeEntry_json_def by (rule wf_object) (auto simp: name_char_def)

lemma wf_AuditRecord_json: "wf_json (Suc (Suc (Suc d))) (AuditRecord_json r)"
  unfolding AuditRecord_json_def currentRecord_json_def legacyV1V2Record_json_def record_json_def
  by (auto simp: name_char_def wf_json_uint wf_json_digits wf_AttributeEntry_json
      intro!: wf_object wf_slice simp del: wf_json.simps(6))

text \<open>Decoding gives the record back.\<close>

lemma decode_AttributeEntry:
  "valid_attribute a \<Longrightarrow>
     decode_struct AttributeEntry_fields (AttributeEntry_json a) AttributeEntry_zero = Some a"
  by (simp add: AttributeEntry_json_def decode_struct_def AttributeEntry_fields_def decode_member
      name_char_def string_field_def valid_attribute_def unq_esc AttributeEntry_zero_def
      del: decode_members.simps(2))

lemma decode_attributes:
  assumes "case xs of None \<Rightarrow> True | Some as \<Rightarrow> list_all valid_attribute as"
  shows "slice_field AttributeEntry_fields AttributeEntry_zero selectedAttributes_update
     (json_slice AttributeEntry_json xs) r = Some (r\<lparr>selectedAttributes := xs\<rparr>)"
proof (cases xs)
  case (Some as)
  then have "decode_list (\<lambda>j. decode_struct AttributeEntry_fields j AttributeEntry_zero)
      (map AttributeEntry_json as) = Some as"
    using assms by (intro decode_list_map decode_AttributeEntry) (simp add: list_all_iff)
  with Some show ?thesis by (simp add: json_slice_def slice_field_def)
qed (simp add: json_slice_def slice_field_def)

lemma decode_record_json:
  assumes "valid_record r" and time: "\<And>t. UnixNano_UnmarshalJSON (render (time t)) = Some t"
  shows "decode_struct AuditRecord_fields (record_json time r) AuditRecord_zero = Some r"
  using assms(1)
  by (simp add: record_json_def decode_struct_def AuditRecord_fields_def decode_member
      name_char_def string_field_def int_field_def custom_field_def time unq_esc valid_record_def
      ParseInt_FormatInt decode_attributes AuditRecord_zero_def
      del: decode_members.simps(2))

lemma decode_AuditRecord_json:
  assumes "valid_record r"
  shows "decode_struct AuditRecord_fields (AuditRecord_json r) AuditRecord_zero = Some r"
  using assms UnixNano_quoted
  by (auto simp: AuditRecord_json_def currentRecord_json_def legacyV1V2Record_json_def UnixNano_number
      UnixNano_MarshalJSON_def intro!: decode_record_json)

lemma nesting_3: "max_nesting = Suc (Suc (Suc 9997))"
  by (simp add: max_nesting_def)

lemma wf_record_document: "wf_json max_nesting (AuditRecord_json r)"
  unfolding nesting_3 by (rule wf_AuditRecord_json)

lemma decode_Marshal: "valid_record r \<Longrightarrow> Unmarshal (Marshal r) = Some r"
  unfolding Unmarshal_def Marshal_def AuditRecord_MarshalJSON_def
  by (subst json_Unmarshal_render) (simp_all add: wf_record_document decode_AuditRecord_json)

lemma Marshal_eq_iff: "valid_record r \<Longrightarrow> valid_record r' \<Longrightarrow> Marshal r = Marshal r' \<longleftrightarrow> r = r'"
  by (metis decode_Marshal option.inject)

text \<open>
  Whatever decodes is valid: \<open>unquote\<close> only yields UTF-8 and \<open>ParseInt\<close> only 64-bit values.
\<close>

lemma ParseInt_range: "ParseInt s = Some i \<Longrightarrow> - (2 ^ 63) \<le> i \<and> i < 2 ^ 63"
  by (auto simp: ParseInt_def split: list.splits if_splits option.splits)

lemma valid_attribute_zero: "valid_attribute AttributeEntry_zero"
  by (simp add: valid_attribute_def AttributeEntry_zero_def)

lemma decode_attribute_valid:
  assumes "decode_struct AttributeEntry_fields j AttributeEntry_zero = Some a"
  shows "valid_attribute a"
  by (rule decode_struct_inv [where P = valid_attribute, OF _ assms valid_attribute_zero])
     (auto simp: AttributeEntry_fields_def string_field_def valid_attribute_def valid_unq split: json.splits)

lemma valid_record_zero: "valid_record AuditRecord_zero"
  by (simp add: valid_record_def AuditRecord_zero_def)

lemma record_setter_valid:
  assumes "(k, f) \<in> set AuditRecord_fields" and "valid_record r" and "f j r = Some r'"
  shows "valid_record r'"
  using assms
  by (auto simp: AuditRecord_fields_def string_field_def int_field_def custom_field_def slice_field_def
      valid_record_def valid_unq split: json.splits
      dest!: ParseInt_range intro!: decode_list_all decode_attribute_valid)

lemma decode_AuditRecord_valid:
  "decode_struct AuditRecord_fields j r = Some r' \<Longrightarrow> valid_record r \<Longrightarrow> valid_record r'"
  by (rule decode_struct_inv [where P = valid_record, OF record_setter_valid])

section \<open>Spans\<close>

text \<open>
  What the code reads from a \<open>ptrace.Span\<close>: the texts of its identifiers, kind and status, its
  two timestamps, and \<open>Attributes().Get(k)\<close> followed by \<open>AsString()\<close>.
\<close>

record Span =
  spanAttribute :: "bytes \<Rightarrow> bytes option"
  spanTraceID :: bytes
  spanSpanID :: bytes
  spanParentSpanID :: bytes
  spanStart :: "64 word"
  spanEnd :: "64 word"
  spanNameText :: bytes
  spanKind :: bytes
  spanStatusIsError :: bool
  spanStatusText :: bytes

definition attributeAllowlist :: "bytes list" where
  "attributeAllowlist =
     [''gen_ai.guardrail.action'', ''gen_ai.guardrail.name'', ''gen_ai.guardrail.reason'',
      ''gen_ai.guardrail.severity'', ''gen_ai.operation.name'', ''gen_ai.request.model'',
      ''gen_ai.response.model'', ''gen_ai.system'', ''gen_ai.usage.input_tokens'',
      ''gen_ai.usage.output_tokens'']"

definition inferAuditKind :: "Span \<Rightarrow> AuditKind" where
  "inferAuditKind span =
     (if spanAttribute span ''gen_ai.guardrail.name'' \<noteq> None then AuditKindGuardrail
      else
        let rest = (if spanStatusIsError span then AuditKindError else AuditKindTask) in
        (case spanAttribute span ''gen_ai.operation.name'' of
           Some v \<Rightarrow>
             if v = ''execute_tool'' \<or> v = ''tool_call'' then AuditKindTool
             else if v = ''handoff'' \<or> v = ''transfer'' then AuditKindHandoff
             else rest
         | None \<Rightarrow> rest))"

text \<open>\<open>append\<close> on a slice that may be nil.\<close>

definition slice_append :: "'a \<Rightarrow> 'a list option \<Rightarrow> 'a list option" where
  "slice_append x s = (case s of None \<Rightarrow> Some [x] | Some xs \<Rightarrow> Some (xs @ [x]))"

fun select_attributes :: "(bytes \<Rightarrow> bytes option) \<Rightarrow> bytes list \<Rightarrow> AttributeEntry list option \<Rightarrow> AttributeEntry list option" where
  "select_attributes get [] selected = selected"
| "select_attributes get (key # keys) selected =
     (case get key of
        Some v \<Rightarrow> select_attributes get keys (slice_append \<lparr>attrKey = key, attrValue = v\<rparr> selected)
      | None \<Rightarrow> select_attributes get keys selected)"

definition SpanToRecord :: "Span \<Rightarrow> int \<Rightarrow> AuditRecord" where
  "SpanToRecord span seq =
     \<lparr>schemaVersion = SchemaVersion,
      traceID = spanTraceID span,
      spanID = spanSpanID span,
      parentSpanID = spanParentSpanID span,
      seqInTrace = seq,
      startTimeUnixNano = spanStart span,
      endTimeUnixNano = spanEnd span,
      spanName = spanNameText span,
      otelKind = spanKind span,
      genAIOperation = (case spanAttribute span ''gen_ai.operation.name'' of Some v \<Rightarrow> v | None \<Rightarrow> []),
      auditKind = inferAuditKind span,
      selectedAttributes = select_attributes (spanAttribute span) attributeAllowlist None,
      status = spanStatusText span\<rparr>"

abbreviation slice_list :: "'a list option \<Rightarrow> 'a list" where
  "slice_list s \<equiv> (case s of None \<Rightarrow> [] | Some xs \<Rightarrow> xs)"

lemma select_attributes_list:
  "slice_list (select_attributes get keys s) =
     slice_list s @ map (\<lambda>k. \<lparr>attrKey = k, attrValue = the (get k)\<rparr>) (filter (\<lambda>k. get k \<noteq> None) keys)"
  by (induction get keys s rule: select_attributes.induct)
     (auto simp: slice_append_def split: option.splits)

lemma select_attributes_nil:
  "select_attributes get keys s = None \<longleftrightarrow> s = None \<and> (\<forall>k \<in> set keys. get k = None)"
  by (induction get keys s rule: select_attributes.induct)
     (auto simp: slice_append_def split: option.splits)

lemma attributeAllowlist_sorted: "sorted attributeAllowlist" "distinct attributeAllowlist"
  by code_simp+

section \<open>Properties\<close>

text \<open>\<open>UnixNano.UnmarshalJSON\<close> accepts exactly three kinds of text: the number's shortest run
  of digits, the same run in quotes (what \<open>MarshalJSON\<close> writes), and \<open>null\<close> for zero. No value
  has a fourth spelling, and every value is accepted in both of its spellings.\<close>

theorem UnixNano_accepts_exactly:
  "UnixNano_UnmarshalJSON b = Some t \<longleftrightarrow>
     b = ''null'' \<and> t = 0 \<or> b = FormatUint (unat t) \<or> b = UnixNano_MarshalJSON t"
  using UnixNano_spellings UnixNano_number UnixNano_quoted
  by (auto simp: UnixNano_UnmarshalJSON_def [of "''null''"])

text \<open>A record as the golden fixtures under \<open>internal/canonical/testdata\<close> have it.\<close>

definition fixture_record :: AuditRecord where
  "fixture_record =
     \<lparr>schemaVersion = ''v3'', traceID = ''01010101010101010101010101010101'', spanID = ''0102030405060708'',
      parentSpanID = [], seqInTrace = 0, startTimeUnixNano = 1764547200123456789,
      endTimeUnixNano = 1764547200987654321, spanName = ''gen_ai.chat'', otelKind = ''Client'',
      genAIOperation = ''chat'', auditKind = AuditKindTask,
      selectedAttributes = Some
        [\<lparr>attrKey = ''gen_ai.operation.name'', attrValue = ''chat''\<rparr>,
         \<lparr>attrKey = ''gen_ai.request.model'', attrValue = ''gpt-4o''\<rparr>,
         \<lparr>attrKey = ''gen_ai.system'', attrValue = ''openai''\<rparr>],
      status = ''Ok''\<rparr>"

definition quote_bars :: "bytes \<Rightarrow> bytes" where
  "quote_bars s = map (\<lambda>c. if c = CHR ''|'' then DQ else c) s"

lemma plain_valid_utf8: "list_all (\<lambda>c. byte c < 128) s \<Longrightarrow> valid_utf8 s"
  by (rule valid_utf8_ascii)

lemma valid_fixture_record: "valid_record fixture_record"
  by (simp add: valid_record_def fixture_record_def AuditKindTask_def valid_attribute_def
      plain_valid_utf8)

text \<open>C21. Decoding the canonical bytes of a record gives the record back, whichever schema version
  (and so whichever timestamp encoding) it carries: every field survives, the nil slice included,
  for records of valid UTF-8 strings.\<close>

theorem canonical_round_trip:
  assumes "valid_record r"
  shows "Unmarshal (Marshal r) = Some r"
  using assms by (rule decode_Marshal)

theorem canonical_round_trip_witness:
  "Unmarshal (Marshal fixture_record) = Some fixture_record \<and>
   Unmarshal (Marshal (fixture_record\<lparr>schemaVersion := ''v1'', selectedAttributes := None\<rparr>)) =
     Some (fixture_record\<lparr>schemaVersion := ''v1'', selectedAttributes := None\<rparr>)"
proof
  show "Unmarshal (Marshal fixture_record) = Some fixture_record"
    by (rule canonical_round_trip [OF valid_fixture_record])
  have "valid_record (fixture_record\<lparr>schemaVersion := ''v1'', selectedAttributes := None\<rparr>)"
    using valid_fixture_record by (simp add: valid_record_def plain_valid_utf8)
  then show "Unmarshal (Marshal (fixture_record\<lparr>schemaVersion := ''v1'', selectedAttributes := None\<rparr>)) =
     Some (fixture_record\<lparr>schemaVersion := ''v1'', selectedAttributes := None\<rparr>)"
    by (rule canonical_round_trip)
qed

definition safe_char :: "char \<Rightarrow> bool" where
  "safe_char c \<longleftrightarrow> 32 \<le> byte c \<and> byte c < 128 \<and> byte c \<notin> {34, 92, 38, 60, 62}"

lemma esc_safe: "list_all safe_char s \<Longrightarrow> esc s = s"
  by (induction s) (auto simp: esc.simps(2) esc_ascii_def safe_char_def)

lemma plain_safe: "plain_char c \<Longrightarrow> safe_char c"
  by (auto simp: plain_char_def safe_char_def Let_def)

lemma esc_plain: "list_all plain_char s \<Longrightarrow> esc s = s"
  by (rule esc_safe) (auto simp: list_all_iff plain_safe)

lemmas fixture_simps = Marshal_def AuditRecord_MarshalJSON_def AuditRecord_json_def UsesNumericTimestamps_def
  legacyNumericTimestampSchemas_def currentRecord_json_def legacyV1V2Record_json_def record_json_def
  fixture_record_def AttributeEntry_json_def json_slice_def FormatInt_def FormatUint.simps digit_char_def
  AuditKindTask_def quote_bars_def esc_safe safe_char_def chr_eq_iff

text \<open>The canonical bytes of the repository's v3 and v2 golden fixtures, byte for byte: the field
  order, the compact form, and the timestamps as decimal strings for v3 and as numbers for v2.\<close>

theorem Marshal_golden_fixtures:
  "Marshal fixture_record = quote_bars
     (''{|schema_version|:|v3|,|trace_id|:|01010101010101010101010101010101|,|span_id|:|0102030405060708|,'' @
      ''|parent_span_id|:||,|seq_in_trace|:0,|start_time_unix_nano|:|1764547200123456789|,'' @
      ''|end_time_unix_nano|:|1764547200987654321|,|span_name|:|gen_ai.chat|,|otel_kind|:|Client|,'' @
      ''|gen_ai_operation|:|chat|,|audit_kind|:|task|,|selected_attributes|:['' @
      ''{|key|:|gen_ai.operation.name|,|value|:|chat|},{|key|:|gen_ai.request.model|,|value|:|gpt-4o|},'' @
      ''{|key|:|gen_ai.system|,|value|:|openai|}],|status|:|Ok|}'') \<and>
   Marshal (fixture_record\<lparr>schemaVersion := ''v2'', startTimeUnixNano := 1000000000,
       endTimeUnixNano := 2000000000\<rparr>) = quote_bars
     (''{|schema_version|:|v2|,|trace_id|:|01010101010101010101010101010101|,|span_id|:|0102030405060708|,'' @
      ''|parent_span_id|:||,|seq_in_trace|:0,|start_time_unix_nano|:1000000000,'' @
      ''|end_time_unix_nano|:2000000000,|span_name|:|gen_ai.chat|,|otel_kind|:|Client|,'' @
      ''|gen_ai_operation|:|chat|,|audit_kind|:|task|,|selected_attributes|:['' @
      ''{|key|:|gen_ai.operation.name|,|value|:|chat|},{|key|:|gen_ai.request.model|,|value|:|gpt-4o|},'' @
      ''{|key|:|gen_ai.system|,|value|:|openai|}],|status|:|Ok|}'')"
  by (rule conjI; simp add: fixture_simps)

text \<open>What \<open>SpanToRecord\<close> selects: exactly the allowlisted attributes the span has, each with its
  value, under strictly increasing keys, so that the list is canonical; and the slice is nil
  (written \<open>null\<close>) exactly when the span has none of them, never an empty list.\<close>

theorem SpanToRecord_selects:
  "slice_list (selectedAttributes (SpanToRecord span n)) =
     map (\<lambda>k. \<lparr>attrKey = k, attrValue = the (spanAttribute span k)\<rparr>)
       (filter (\<lambda>k. spanAttribute span k \<noteq> None) attributeAllowlist) \<and>
   sorted_wrt (<) (map attrKey (slice_list (selectedAttributes (SpanToRecord span n)))) \<and>
   selectedAttributes (SpanToRecord span n) \<noteq> Some []"
proof -
  let ?ks = "filter (\<lambda>k. spanAttribute span k \<noteq> None) attributeAllowlist"
  let ?sel = "select_attributes (spanAttribute span) attributeAllowlist None"
  have l: "slice_list ?sel = map (\<lambda>k. \<lparr>attrKey = k, attrValue = the (spanAttribute span k)\<rparr>) ?ks"
    by (simp add: select_attributes_list)
  then have keys: "map attrKey (slice_list ?sel) = ?ks" by (simp add: comp_def)
  have "sorted_wrt (<) attributeAllowlist"
    using attributeAllowlist_sorted by (simp add: strict_sorted_iff)
  then have strict: "sorted_wrt (<) ?ks" by (rule sorted_wrt_filter)
  have "?sel \<noteq> Some []"
    using l select_attributes_nil [of "spanAttribute span" attributeAllowlist None]
    by (auto simp: filter_empty_conv)
  with l keys strict show ?thesis by (simp add: SpanToRecord_def)
qed

lemma select_attributes_cong:
  "(\<And>k. k \<in> set keys \<Longrightarrow> f k = g k) \<Longrightarrow> select_attributes f keys s = select_attributes g keys s"
  by (induction keys arbitrary: s) (auto split: option.splits)

text \<open>The record of a span says nothing about attributes outside the allowlist: changing them in
  any way leaves every field of the record, the inferred audit kind included, as it is.\<close>

theorem SpanToRecord_ignores_other_attributes:
  assumes "\<And>k. k \<in> set attributeAllowlist \<Longrightarrow> attrs k = spanAttribute span k"
  shows "SpanToRecord (span\<lparr>spanAttribute := attrs\<rparr>) n = SpanToRecord span n"
proof -
  have "attrs ''gen_ai.operation.name'' = spanAttribute span ''gen_ai.operation.name''"
    "attrs ''gen_ai.guardrail.name'' = spanAttribute span ''gen_ai.guardrail.name''"
    by (rule assms; simp add: attributeAllowlist_def)+
  with select_attributes_cong [of attributeAllowlist attrs "spanAttribute span", OF assms]
  show ?thesis by (simp add: SpanToRecord_def inferAuditKind_def)
qed

definition example_span :: Span where
  "example_span =
     \<lparr>spanAttribute = (\<lambda>k. map_of [(''gen_ai.system'', ''openai''), (''gen_ai.operation.name'', ''chat'')] k),
      spanTraceID = ''0a'', spanSpanID = ''01'', spanParentSpanID = [], spanStart = 1, spanEnd = 2,
      spanNameText = ''chat'', spanKind = ''Client'', spanStatusIsError = False, spanStatusText = ''Ok''\<rparr>"

theorem SpanToRecord_ignores_other_attributes_witness:
  "SpanToRecord (example_span\<lparr>spanAttribute := (spanAttribute example_span)(''user.email'' := Some ''a@b.c'')\<rparr>) 0 =
     SpanToRecord example_span 0"
  by (rule SpanToRecord_ignores_other_attributes) (auto simp: attributeAllowlist_def)

end
