(* ===== verification/Sign.thy ===== *)
theory Sign
  imports Sha256
begin

text \<open>
  \<open>internal/sign/sign.go\<close>: the signature block of a log entry, the signer interface with its
  Ed25519 implementation, and \<open>Verify\<close>. The curve arithmetic of \<open>crypto/ed25519\<close> is a parameter,
  a record of the three functions the code calls; \<open>ed25519_correct\<close> is what its documentation
  promises (a signature made with a private key verifies under that key's public half) and
  nothing else about it is used. \<open>faithful_signer\<close> is the contract the chain and the
  checkpoints rely on (a signature it makes verifies, its key id is the fingerprint of its
  public key), stated as a locale and interpreted on \<open>NewEd25519Signer\<close>.
  The key files are in \<open>Keys\<close>; key generation draws on the system and is not modelled.
\<close>

record ed25519 =
  ed_public :: "bytes \<Rightarrow> bytes"
  ed_sign :: "bytes \<Rightarrow> bytes \<Rightarrow> bytes"
  ed_verify :: "bytes \<Rightarrow> bytes \<Rightarrow> bytes \<Rightarrow> bool"

definition ed25519_correct :: "ed25519 \<Rightarrow> bool" where
  "ed25519_correct ed \<longleftrightarrow> (\<forall>priv msg. ed_verify ed (ed_public ed priv) msg (ed_sign ed priv msg))"

text \<open>The interface \<open>Signer\<close>: signing may fail with an error text.\<close>

record Signer =
  signerSign :: "bytes \<Rightarrow> bytes + bytes"
  signerKeyID :: bytes

record SignedEntry =
  seKeyID :: bytes
  seAlgorithm :: bytes
  seEntryHash :: bytes
  seSignature :: bytes

text \<open>\<open>NewEd25519Signer\<close> with the \<open>Sign\<close> and \<open>KeyID\<close> methods of the signer it returns.\<close>

definition Ed25519Signer_Sign :: "ed25519 \<Rightarrow> bytes \<Rightarrow> bytes \<Rightarrow> bytes + bytes" where
  "Ed25519Signer_Sign ed privKey payload = Inr (ed_sign ed privKey payload)"

definition NewEd25519Signer :: "ed25519 \<Rightarrow> bytes \<Rightarrow> Signer" where
  "NewEd25519Signer ed privKey =
     (let pubKey = ed_public ed privKey
      in \<lparr>signerSign = Ed25519Signer_Sign ed privKey,
          signerKeyID = hex_EncodeToString (sha256 pubKey)\<rparr>)"

datatype sign_error =
    UnsupportedAlgorithm bytes
  | DecodingSignature
  | SignatureVerificationFailed

text \<open>\<open>None\<close> is the nil error.\<close>

definition Verify :: "ed25519 \<Rightarrow> SignedEntry \<Rightarrow> bytes \<Rightarrow> bytes \<Rightarrow> sign_error option" where
  "Verify ed entry sigPayload pubKey =
     (if seAlgorithm entry \<noteq> ''ed25519'' then Some (UnsupportedAlgorithm (seAlgorithm entry))
      else
        (case b64_DecodeString (seSignature entry) of
           None \<Rightarrow> Some DecodingSignature
         | Some sig \<Rightarrow>
             if \<not> ed_verify ed pubKey sigPayload sig then Some SignatureVerificationFailed
             else None))"

text \<open>What a verified entry tells.\<close>

definition signed_by :: "ed25519 \<Rightarrow> bytes \<Rightarrow> bytes \<Rightarrow> bytes \<Rightarrow> bool" where
  "signed_by ed pubKey payload signature \<longleftrightarrow>
     (case b64_DecodeString signature of
        None \<Rightarrow> False | Some sig \<Rightarrow> ed_verify ed pubKey payload sig)"

lemma Verify_None_iff:
  "Verify ed entry payload pub = None \<longleftrightarrow>
     seAlgorithm entry = ''ed25519'' \<and> signed_by ed pub payload (seSignature entry)"
  by (simp add: Verify_def signed_by_def split: option.splits)

lemma Verify_key_id [simp]:
  "Verify ed (entry\<lparr>seKeyID := k\<rparr>) payload pub = Verify ed entry payload pub"
  by (simp add: Verify_def)

section \<open>The signer contract\<close>

locale faithful_signer =
  fixes signer :: Signer and ed :: ed25519 and pub :: bytes
  assumes signed: "ed25519_correct ed \<Longrightarrow> signerSign signer m = Inr sig \<Longrightarrow> ed_verify ed pub m sig"
    and key_id: "signerKeyID signer = hex_EncodeToString (sha256 pub)"
begin

lemma signature_accepted:
  "ed25519_correct ed \<Longrightarrow> signerSign signer m = Inr sig \<Longrightarrow> signed_by ed pub m (b64_EncodeToString sig)"
  by (simp add: signed_by_def signed)

lemma Verify_signature:
  "ed25519_correct ed \<Longrightarrow> signerSign signer m = Inr sig \<Longrightarrow>
     Verify ed \<lparr>seKeyID = k, seAlgorithm = ''ed25519'', seEntryHash = h, seSignature = b64_EncodeToString sig\<rparr> m pub = None"
  by (simp add: Verify_None_iff signature_accepted)

end

interpretation ed: faithful_signer "NewEd25519Signer ed priv" ed "ed_public ed priv" for ed priv
  by unfold_locales (auto simp: NewEd25519Signer_def Ed25519Signer_Sign_def ed25519_correct_def)

text \<open>
  A scheme that satisfies \<open>ed25519_correct\<close>, for the theorems that suppose it: the signature is
  the digest of key and message.
\<close>

definition toy_ed25519 :: ed25519 where
  "toy_ed25519 =
     \<lparr>ed_public = (\<lambda>k. k), ed_sign = (\<lambda>k m. sha256 (k @ m)),
      ed_verify = (\<lambda>k m s. s = sha256 (k @ m))\<rparr>"

lemma toy_ed25519_correct: "ed25519_correct toy_ed25519"
  by (simp add: ed25519_correct_def toy_ed25519_def)

end
