(* ===== verification/Keys.thy ===== *)
theory Keys
  imports Sign
begin

text \<open>
  The key files of \<open>internal/sign/sign.go\<close>: reading and writing PEM blocks with PKCS#8 and PKIX
  contents. The PEM and X.509 codecs are Go's \<open>encoding/pem\<close> and \<open>crypto/x509\<close>; like \<open>ed25519\<close> they
  are arguments of the model, a record of functions, and the round trip states what it needs of them.
\<close>

datatype parsed_key = Ed25519Key bytes | OtherKey

record key_codec =
  pemDecode :: "bytes \<Rightarrow> (bytes \<times> bytes) option"
  pemEncode :: "bytes \<Rightarrow> bytes \<Rightarrow> bytes"
  parsePKCS8 :: "bytes \<Rightarrow> parsed_key option"
  parsePKIX :: "bytes \<Rightarrow> parsed_key option"
  marshalPKCS8 :: "bytes \<Rightarrow> bytes option"
  marshalPKIX :: "bytes \<Rightarrow> bytes option"

datatype key_error = KeyRead | KeyNoPEM | KeyBlockType bytes bytes | KeyParse | KeyNotEd25519 | KeyMarshal

text \<open>The two loaders differ in the type of block and the parser.\<close>

definition load_key :: "key_codec \<Rightarrow> bytes \<Rightarrow> (bytes \<Rightarrow> parsed_key option) \<Rightarrow> disk_file \<Rightarrow> key_error + bytes" where
  "load_key kc block_type parse f =
     (case f of
        Content data \<Rightarrow>
          (case pemDecode kc data of
             None \<Rightarrow> Inl KeyNoPEM
           | Some (ty, der) \<Rightarrow>
               if ty \<noteq> block_type then Inl (KeyBlockType block_type ty)
               else (case parse der of
                       None \<Rightarrow> Inl KeyParse
                     | Some OtherKey \<Rightarrow> Inl KeyNotEd25519
                     | Some (Ed25519Key k) \<Rightarrow> Inr k))
      | _ \<Rightarrow> Inl KeyRead)"

definition LoadEd25519PrivateKeyPEM :: "key_codec \<Rightarrow> disk_file \<Rightarrow> key_error + bytes" where
  "LoadEd25519PrivateKeyPEM kc f = load_key kc ''PRIVATE KEY'' (parsePKCS8 kc) f"

definition LoadEd25519PublicKeyPEM :: "key_codec \<Rightarrow> disk_file \<Rightarrow> key_error + bytes" where
  "LoadEd25519PublicKeyPEM kc f = load_key kc ''PUBLIC KEY'' (parsePKIX kc) f"

definition MarshalEd25519PrivateKeyPEM :: "key_codec \<Rightarrow> bytes \<Rightarrow> key_error + bytes" where
  "MarshalEd25519PrivateKeyPEM kc priv =
     (case marshalPKCS8 kc priv of None \<Rightarrow> Inl KeyMarshal | Some der \<Rightarrow> Inr (pemEncode kc ''PRIVATE KEY'' der))"

definition MarshalEd25519PublicKeyPEM :: "key_codec \<Rightarrow> bytes \<Rightarrow> key_error + bytes" where
  "MarshalEd25519PublicKeyPEM kc pub =
     (case marshalPKIX kc pub of None \<Rightarrow> Inl KeyMarshal | Some der \<Rightarrow> Inr (pemEncode kc ''PUBLIC KEY'' der))"

text \<open>What the loaders rely on: PEM gives back the block it encoded, X.509 the key.\<close>

definition faithful_codec :: "key_codec \<Rightarrow> bool" where
  "faithful_codec kc \<longleftrightarrow>
     (\<forall>ty der. pemDecode kc (pemEncode kc ty der) = Some (ty, der)) \<and>
     (\<forall>k der. marshalPKCS8 kc k = Some der \<longrightarrow> parsePKCS8 kc der = Some (Ed25519Key k)) \<and>
     (\<forall>k der. marshalPKIX kc k = Some der \<longrightarrow> parsePKIX kc der = Some (Ed25519Key k))"

text \<open>A key file is read back: under a faithful codec the loader returns the key whose file the
  marshaller wrote, for both kinds of key; a private key given where the public key is expected is
  refused by the type of its block, and so is the reverse, and an absent file is a read error.\<close>

theorem key_file_round_trip:
  assumes "faithful_codec kc" and "MarshalEd25519PrivateKeyPEM kc k = Inr priv_pem"
    and "MarshalEd25519PublicKeyPEM kc p = Inr pub_pem"
  shows "LoadEd25519PrivateKeyPEM kc (Content priv_pem) = Inr k \<and> LoadEd25519PublicKeyPEM kc (Content pub_pem) = Inr p \<and>
    LoadEd25519PublicKeyPEM kc (Content priv_pem) = Inl (KeyBlockType ''PUBLIC KEY'' ''PRIVATE KEY'') \<and>
    LoadEd25519PrivateKeyPEM kc (Content pub_pem) = Inl (KeyBlockType ''PRIVATE KEY'' ''PUBLIC KEY'') \<and>
    LoadEd25519PublicKeyPEM kc NotExist = Inl KeyRead"
  using assms
  by (auto simp: faithful_codec_def MarshalEd25519PrivateKeyPEM_def LoadEd25519PrivateKeyPEM_def
      MarshalEd25519PublicKeyPEM_def LoadEd25519PublicKeyPEM_def load_key_def split: option.splits)

text \<open>A codec to evaluate with: the length of the type in unary, the type, and the key itself.\<close>

definition toy_codec :: key_codec where
  "toy_codec =
     \<lparr>pemDecode = (\<lambda>s. let n = length (takeWhile (\<lambda>c. c = CHR ''-'') s); rest = drop (Suc n) s
                      in Some (take n rest, drop n rest)),
      pemEncode = (\<lambda>ty der. replicate (length ty) (CHR ''-'') @ LF # ty @ der),
      parsePKCS8 = (\<lambda>der. Some (Ed25519Key der)), parsePKIX = (\<lambda>der. Some (Ed25519Key der)),
      marshalPKCS8 = Some, marshalPKIX = Some\<rparr>"

lemma toy_codec_faithful: "faithful_codec toy_codec"
proof -
  have "takeWhile (\<lambda>c. c = CHR ''-'') (replicate (length ty) (CHR ''-'') @ LF # x) = replicate (length ty) (CHR ''-'')"
    for ty x :: bytes
    by (induction ty) simp_all
  then show ?thesis by (simp add: faithful_codec_def toy_codec_def Let_def)
qed

theorem key_file_round_trip_witness:
  "LoadEd25519PrivateKeyPEM toy_codec (Content (pemEncode toy_codec ''PRIVATE KEY'' ''secret'')) = Inr ''secret'' \<and>
   LoadEd25519PublicKeyPEM toy_codec (Content (pemEncode toy_codec ''PRIVATE KEY'' ''secret'')) =
     Inl (KeyBlockType ''PUBLIC KEY'' ''PRIVATE KEY'')"
proof -
  have "MarshalEd25519PrivateKeyPEM toy_codec ''secret'' = Inr (pemEncode toy_codec ''PRIVATE KEY'' ''secret'')"
    "MarshalEd25519PublicKeyPEM toy_codec ''public'' = Inr (pemEncode toy_codec ''PUBLIC KEY'' ''public'')"
    by (simp_all add: MarshalEd25519PrivateKeyPEM_def MarshalEd25519PublicKeyPEM_def toy_codec_def)
  from key_file_round_trip [OF toy_codec_faithful this] show ?thesis by blast
qed

end
