(* ===== verification/Config.thy ===== *)
theory Config
  imports Prelude
begin

text \<open>
  \<open>config.go\<close> of the exporter, with the defaults of \<open>exporter.go\<close> it shares. A configured \<open>int\<close> or
  \<open>time.Duration\<close> is an \<open>int\<close> in the range of \<open>int64\<close>; the default pending-tip cap is a product that
  can overflow, so its wrap-around is written out.
\<close>

record Config =
  LogPath :: bytes
  KeyPath :: bytes
  WalPath :: bytes
  CheckpointPath :: bytes
  TraceTimeout :: int
  CheckpointInterval :: int
  FsyncLog :: "bool option"
  MaxPendingTips :: int
  MinCheckpointRetryInterval :: int

definition wrap64 :: "int \<Rightarrow> int" where
  "wrap64 x = (x + 2 ^ 63) mod 2 ^ 64 - 2 ^ 63"

lemma wrap64_id: "- (2 ^ 63) \<le> x \<Longrightarrow> x < 2 ^ 63 \<Longrightarrow> wrap64 x = x"
  by (simp add: wrap64_def)

definition quarantineSuffix :: bytes where "quarantineSuffix = ''.quarantine.jsonl''"

definition defaultCheckpointInterval :: int where "defaultCheckpointInterval = 100"
definition defaultMaxPendingTipsFactor :: int where "defaultMaxPendingTipsFactor = 10"
definition defaultMinCheckpointRetryInterval :: int where "defaultMinCheckpointRetryInterval = 1000000000"

definition effectiveCheckpointIntervalOf :: "int \<Rightarrow> int" where
  "effectiveCheckpointIntervalOf interval = (if 0 < interval then interval else defaultCheckpointInterval)"

definition effectiveMaxPendingTipsOf :: "int \<Rightarrow> int \<Rightarrow> int" where
  "effectiveMaxPendingTipsOf maxPendingTips checkpointInterval =
     (if 0 < maxPendingTips then maxPendingTips else wrap64 (defaultMaxPendingTipsFactor * checkpointInterval))"

definition effectiveMinCheckpointRetryIntervalOf :: "int \<Rightarrow> int" where
  "effectiveMinCheckpointRetryIntervalOf interval =
     (if 0 < interval then interval else defaultMinCheckpointRetryInterval)"

text \<open>The methods of the exporter that apply them to its configuration.\<close>

definition effectiveCheckpointInterval :: "Config \<Rightarrow> int" where
  "effectiveCheckpointInterval cfg = effectiveCheckpointIntervalOf (CheckpointInterval cfg)"

definition effectiveMaxPendingTips :: "Config \<Rightarrow> int \<Rightarrow> int" where
  "effectiveMaxPendingTips cfg checkpointInterval = effectiveMaxPendingTipsOf (MaxPendingTips cfg) checkpointInterval"

definition effectiveMinCheckpointRetryInterval :: "Config \<Rightarrow> int" where
  "effectiveMinCheckpointRetryInterval cfg = effectiveMinCheckpointRetryIntervalOf (MinCheckpointRetryInterval cfg)"

definition fsyncLog :: "Config \<Rightarrow> bool" where
  "fsyncLog cfg = (case FsyncLog cfg of Some b \<Rightarrow> b | None \<Rightarrow> True)"

text \<open>The timeout \<open>Start\<close> gives the background worker.\<close>

definition effectiveTraceTimeout :: "Config \<Rightarrow> int" where
  "effectiveTraceTimeout cfg = (if TraceTimeout cfg \<le> 0 then 30 * 10 ^ 9 else TraceTimeout cfg)"

definition quarantinePath :: "Config \<Rightarrow> bytes" where
  "quarantinePath cfg = WalPath cfg @ quarantineSuffix"

datatype config_error =
    LogPathRequired | KeyPathRequired | WalPathRequired | CheckpointPathRequired | PathsNotDistinct
  | QuarantineCollision bytes | TraceTimeoutNegative | CheckpointIntervalNegative | MaxPendingTipsNegative
  | RetryIntervalNegative | CapBelowInterval int int

definition Config_Validate :: "Config \<Rightarrow> config_error option" where
  "Config_Validate c =
     (if LogPath c = [] then Some LogPathRequired
      else if KeyPath c = [] then Some KeyPathRequired
      else if WalPath c = [] then Some WalPathRequired
      else if CheckpointPath c = [] then Some CheckpointPathRequired
      else if LogPath c = WalPath c \<or> LogPath c = CheckpointPath c \<or> WalPath c = CheckpointPath c
      then Some PathsNotDistinct
      else if LogPath c = WalPath c @ quarantineSuffix \<or> CheckpointPath c = WalPath c @ quarantineSuffix
      then Some (QuarantineCollision (WalPath c @ quarantineSuffix))
      else if TraceTimeout c < 0 then Some TraceTimeoutNegative
      else if CheckpointInterval c < 0 then Some CheckpointIntervalNegative
      else if MaxPendingTips c < 0 then Some MaxPendingTipsNegative
      else if MinCheckpointRetryInterval c < 0 then Some RetryIntervalNegative
      else
        let interval = effectiveCheckpointIntervalOf (CheckpointInterval c);
            cap = effectiveMaxPendingTipsOf (MaxPendingTips c) interval
        in if cap < interval then Some (CapBelowInterval cap interval) else None)"

text \<open>What an accepted configuration gives the exporter: four files apart, and a cap a checkpoint can reach.\<close>

lemma Config_Validate_paths:
  "Config_Validate c = None \<Longrightarrow> distinct [LogPath c, WalPath c, CheckpointPath c, quarantinePath c]"
  by (auto simp: Config_Validate_def quarantinePath_def quarantineSuffix_def Let_def split: if_splits)

lemma Config_Validate_cap:
  "Config_Validate c = None \<Longrightarrow>
     0 < effectiveCheckpointInterval c \<and>
     effectiveCheckpointInterval c \<le> effectiveMaxPendingTips c (effectiveCheckpointInterval c)"
  by (auto simp: Config_Validate_def effectiveCheckpointInterval_def effectiveMaxPendingTips_def
      effectiveCheckpointIntervalOf_def defaultCheckpointInterval_def Let_def split: if_splits)

text \<open>Unset fields mean the documented defaults: an interval of 100, a cap of 1000, one second, fsync on.\<close>

lemma unset_defaults:
  assumes "CheckpointInterval c = 0" and "MaxPendingTips c = 0" and "MinCheckpointRetryInterval c = 0"
    and "FsyncLog c = None"
  shows "effectiveCheckpointInterval c = 100" "effectiveMaxPendingTips c (effectiveCheckpointInterval c) = 1000"
    "effectiveMinCheckpointRetryInterval c = 10 ^ 9" "fsyncLog c"
  using assms
  by (simp_all add: effectiveCheckpointInterval_def effectiveCheckpointIntervalOf_def effectiveMaxPendingTips_def
      effectiveMaxPendingTipsOf_def effectiveMinCheckpointRetryInterval_def effectiveMinCheckpointRetryIntervalOf_def
      defaultCheckpointInterval_def defaultMaxPendingTipsFactor_def defaultMinCheckpointRetryInterval_def
      fsyncLog_def wrap64_def)

text \<open>
  The default cap wraps: with an interval past a tenth of the range of \<open>int64\<close> and no cap configured,
  the product is negative and a configuration that sets no cap is refused for its cap.
\<close>

lemma default_cap_overflows:
  "effectiveMaxPendingTipsOf 0 (2 ^ 62) = - (2 ^ 63)"
  by (simp add: effectiveMaxPendingTipsOf_def defaultMaxPendingTipsFactor_def wrap64_def)

text \<open>
  The configuration the factory starts from (factory.go): no paths, so not acceptable by itself, and
  acceptable as soon as the user sets four paths that are apart.
\<close>

definition createDefaultConfig :: Config where
  "createDefaultConfig =
     \<lparr>LogPath = [], KeyPath = [], WalPath = [], CheckpointPath = [], TraceTimeout = 30 * 10 ^ 9,
      CheckpointInterval = 100, FsyncLog = None, MaxPendingTips = 0, MinCheckpointRetryInterval = 0\<rparr>"

lemma default_config:
  "Config_Validate createDefaultConfig = Some LogPathRequired"
  "k \<noteq> [] \<Longrightarrow> [] \<notin> set [l, w, c] \<Longrightarrow> distinct [l, w, c, w @ quarantineSuffix] \<Longrightarrow>
     Config_Validate (createDefaultConfig\<lparr>LogPath := l, KeyPath := k, WalPath := w, CheckpointPath := c\<rparr>) = None"
  by (auto simp: Config_Validate_def createDefaultConfig_def effectiveCheckpointIntervalOf_def effectiveMaxPendingTipsOf_def
      defaultMaxPendingTipsFactor_def wrap64_def Let_def)

end
