(* ===== verification/Chain.thy ===== *)
theory Chain
  imports Audit_Record Sign
begin

text \<open>
  \<open>internal/chain/chain.go\<close>: log entries and chain entries, the order of a trace's records, the
  genesis seed, the construction of the hash chain and the log line. The hash chain itself is
  also given in the abstract (\<open>chain_payloads\<close>, \<open>chain_end\<close>, over any hash and encoder); the
  locale \<open>hash_chain\<close> states what it needs of both and proves that two chains with the same end
  are equal or exhibit a collision of the hash. \<open>BuildChain\<close> refines the abstract chain.
\<close>

record LogEntry =
  leRecord :: AuditRecord
  leSigned :: SignedEntry

record ChainEntry =
  ceRecord :: AuditRecord
  ceEntryHash :: bytes
  ceSignature :: bytes
  ceKeyID :: bytes

definition SortRecords :: "AuditRecord list \<Rightarrow> AuditRecord list" where
  "SortRecords records = sort_key (\<lambda>r. (startTimeUnixNano r, spanID r)) records"

datatype seed_error = EmptySchemaVersion bytes | DecodingTraceID bytes

definition GenesisSeedForSchema :: "bytes \<Rightarrow> bytes \<Rightarrow> seed_error + bytes" where
  "GenesisSeedForSchema trace version =
     (if version = [] then Inl (EmptySchemaVersion trace)
      else
        (case hex_DecodeString trace of
           None \<Rightarrow> Inl (DecodingTraceID trace)
         | Some traceIDBytes \<Rightarrow> Inr (sha256 (traceIDBytes @ version))))"

definition GenesisSeed :: "bytes \<Rightarrow> seed_error + bytes" where
  "GenesisSeed trace = GenesisSeedForSchema trace SchemaVersion"

text \<open>\<open>TipHash\<close> panics on an empty chain: \<open>None\<close>.\<close>

definition TipHash :: "ChainEntry list \<Rightarrow> bytes option" where
  "TipHash entries = (if entries = [] then None else Some (ceEntryHash (last entries)))"

datatype build_error = SigningEntry nat bytes

text \<open>The loop of \<open>BuildChain\<close> from position \<open>i\<close> on, with \<open>prev\<close> as the loop variable.\<close>

fun build_from :: "nat \<Rightarrow> bytes \<Rightarrow> Signer \<Rightarrow> AuditRecord list \<Rightarrow> build_error + ChainEntry list" where
  "build_from i prev signer [] = Inr []"
| "build_from i prev signer (rec # records) =
     (let canonicalBytes = Marshal rec;
          sigPayload = canonicalBytes @ prev;
          hashArr = sha256 sigPayload
      in case signerSign signer sigPayload of
           Inl e \<Rightarrow> Inl (SigningEntry i e)
         | Inr sig \<Rightarrow>
             bind_res (build_from (Suc i) hashArr signer records) (\<lambda>entries. Inr
               (\<lparr>ceRecord = rec, ceEntryHash = hex_EncodeToString hashArr,
                 ceSignature = b64_EncodeToString sig, ceKeyID = signerKeyID signer\<rparr> # entries)))"

definition BuildChain :: "AuditRecord list \<Rightarrow> bytes \<Rightarrow> Signer \<Rightarrow> build_error + ChainEntry list" where
  "BuildChain records genesisSeed signer = build_from 0 genesisSeed signer records"

definition ToLogEntries :: "ChainEntry list \<Rightarrow> LogEntry list" where
  "ToLogEntries entries =
     map (\<lambda>e. \<lparr>leRecord = ceRecord e,
               leSigned = \<lparr>seKeyID = ceKeyID e, seAlgorithm = ''ed25519'',
                           seEntryHash = ceEntryHash e, seSignature = ceSignature e\<rparr>\<rparr>) entries"

section \<open>The log line\<close>

definition SignedEntry_json :: "SignedEntry \<Rightarrow> json" where
  "SignedEntry_json s = JObj
     [(''key_id'', json_string (seKeyID s)), (''algorithm'', json_string (seAlgorithm s)),
      (''entry_hash'', json_string (seEntryHash s)), (''signature'', json_string (seSignature s))]"

definition LogEntry_json :: "LogEntry \<Rightarrow> json" where
  "LogEntry_json e = JObj
     [(''record'', AuditRecord_json (leRecord e)), (''signed'', SignedEntry_json (leSigned e))]"

definition MarshalLogEntry :: "LogEntry \<Rightarrow> bytes" where
  "MarshalLogEntry e = render (LogEntry_json e)"

definition SignedEntry_fields :: "SignedEntry fields" where
  "SignedEntry_fields =
     [(''key_id'', string_field seKeyID_update), (''algorithm'', string_field seAlgorithm_update),
      (''entry_hash'', string_field seEntryHash_update), (''signature'', string_field seSignature_update)]"

definition SignedEntry_zero :: SignedEntry where
  "SignedEntry_zero = \<lparr>seKeyID = [], seAlgorithm = [], seEntryHash = [], seSignature = []\<rparr>"

definition LogEntry_fields :: "LogEntry fields" where
  "LogEntry_fields =
     [(''record'', struct_field AuditRecord_fields leRecord leRecord_update),
      (''signed'', struct_field SignedEntry_fields leSigned leSigned_update)]"

definition LogEntry_zero :: LogEntry where
  "LogEntry_zero = \<lparr>leRecord = AuditRecord_zero, leSigned = SignedEntry_zero\<rparr>"

definition UnmarshalLogEntry :: "bytes \<Rightarrow> LogEntry option" where
  "UnmarshalLogEntry line = json_Unmarshal LogEntry_fields LogEntry_zero line"

definition valid_signed :: "SignedEntry \<Rightarrow> bool" where
  "valid_signed s \<longleftrightarrow> list_all valid_utf8 [seKeyID s, seAlgorithm s, seEntryHash s, seSignature s]"

definition valid_entry :: "LogEntry \<Rightarrow> bool" where
  "valid_entry e \<longleftrightarrow> valid_record (leRecord e) \<and> valid_signed (leSigned e)"

lemma wf_SignedEntry_json: "wf_json (Suc d) (SignedEntry_json s)"
  unfolding SignedEntry_json_def by (rule wf_object) (auto simp: name_char_def)

lemma nesting_4: "max_nesting = Suc (Suc (Suc (Suc 9996)))"
  by (simp add: max_nesting_def)

lemma wf_LogEntry_depth: "wf_json (Suc (Suc (Suc (Suc d)))) (LogEntry_json e)"
  unfolding LogEntry_json_def
  by (rule wf_object) (auto simp: name_char_def wf_SignedEntry_json wf_AuditRecord_json)

lemma wf_LogEntry_json: "wf_json max_nesting (LogEntry_json e)"
  unfolding nesting_4 by (rule wf_LogEntry_depth)

lemma decode_SignedEntry:
  "valid_signed s \<Longrightarrow> decode_struct SignedEntry_fields (SignedEntry_json s) SignedEntry_zero = Some s"
  by (simp add: SignedEntry_json_def decode_struct_def SignedEntry_fields_def decode_member name_char_def
      string_field_def valid_signed_def unq_esc SignedEntry_zero_def del: decode_members.simps(2))

lemma decode_LogEntry:
  "valid_entry e \<Longrightarrow> decode_struct LogEntry_fields (LogEntry_json e) LogEntry_zero = Some e"
  by (simp add: LogEntry_json_def LogEntry_fields_def decode_member
      name_char_def struct_field_def valid_entry_def LogEntry_zero_def decode_AuditRecord_json
      decode_SignedEntry del: decode_members.simps(2))

lemma Unmarshal_MarshalLogEntry: "valid_entry e \<Longrightarrow> UnmarshalLogEntry (MarshalLogEntry e) = Some e"
  by (simp add: UnmarshalLogEntry_def MarshalLogEntry_def json_Unmarshal_render wf_LogEntry_json decode_LogEntry)

lemma log_line:
  "LF \<notin> set (MarshalLogEntry e)" "hd (MarshalLogEntry e) = CHR ''{''" "last (MarshalLogEntry e) = CHR ''}''"
  "TrimSpace (MarshalLogEntry e) = MarshalLogEntry e" "MarshalLogEntry e \<noteq> []"
  using object_line [OF wf_LogEntry_json [of e, unfolded LogEntry_json_def]]
  by (simp_all add: MarshalLogEntry_def LogEntry_json_def)

section \<open>The abstract hash chain\<close>

text \<open>
  The payload of an element is made from the element and the previous hash; the hash of the
  payload is the next previous hash. For a trace the payload is \<open>sigPayload\<close>, the canonical
  bytes followed by the previous hash.
\<close>

fun chain_payloads :: "(bytes \<Rightarrow> bytes) \<Rightarrow> ('r \<Rightarrow> bytes \<Rightarrow> bytes) \<Rightarrow> bytes \<Rightarrow> 'r list \<Rightarrow> bytes list" where
  "chain_payloads H pay prev [] = []"
| "chain_payloads H pay prev (r # rs) = pay r prev # chain_payloads H pay (H (pay r prev)) rs"

fun chain_end :: "(bytes \<Rightarrow> bytes) \<Rightarrow> ('r \<Rightarrow> bytes \<Rightarrow> bytes) \<Rightarrow> bytes \<Rightarrow> 'r list \<Rightarrow> bytes" where
  "chain_end H pay prev [] = prev"
| "chain_end H pay prev (r # rs) = chain_end H pay (H (pay r prev)) rs"

lemma length_chain_payloads [simp]: "length (chain_payloads H pay prev rs) = length rs"
  by (induction H pay prev rs rule: chain_payloads.induct) auto

lemma chain_end_last:
  "chain_end H pay prev rs = (if rs = [] then prev else H (last (chain_payloads H pay prev rs)))"
proof (induction H pay prev rs rule: chain_payloads.induct)
  case (2 H pay prev r rs)
  have "rs \<noteq> [] \<Longrightarrow> chain_payloads H pay (H (pay r prev)) rs \<noteq> []"
    by (metis length_0_conv length_chain_payloads)
  with 2 show ?case by auto
qed simp

lemma chain_payloads_append:
  "chain_payloads H pay prev (rs @ ss) =
     chain_payloads H pay prev rs @ chain_payloads H pay (chain_end H pay prev rs) ss"
  by (induction H pay prev rs rule: chain_payloads.induct) auto

lemma chain_end_append: "chain_end H pay prev (rs @ ss) = chain_end H pay (chain_end H pay prev rs) ss"
  by (induction H pay prev rs rule: chain_end.induct) auto

definition collision :: "(bytes \<Rightarrow> bytes) \<Rightarrow> bytes list \<Rightarrow> bytes list \<Rightarrow> bool" where
  "collision H ps qs \<longleftrightarrow> list_ex (\<lambda>p. list_ex (\<lambda>q. p \<noteq> q \<and> H p = H q) qs) ps"

lemma collisionI: "p \<in> set ps \<Longrightarrow> q \<in> set qs \<Longrightarrow> p \<noteq> q \<Longrightarrow> H p = H q \<Longrightarrow> collision H ps qs"
  by (auto simp: collision_def list_ex_iff)

lemma collision_mono:
  "collision H ps qs \<Longrightarrow> set ps \<subseteq> set ps' \<Longrightarrow> set qs \<subseteq> set qs' \<Longrightarrow> collision H ps' qs'"
  by (fastforce simp: collision_def list_ex_iff)

lemma collision_append: "collision H ps qs \<Longrightarrow> collision H (ps @ ps') (qs @ qs')"
  by (erule collision_mono) auto

text \<open>The hash has a fixed length; a payload determines its element and the previous hash.\<close>

locale hash_chain =
  fixes H :: "bytes \<Rightarrow> bytes" and pay :: "'r \<Rightarrow> bytes \<Rightarrow> bytes" and ok :: "'r \<Rightarrow> bool" and n :: nat
  assumes hash_length: "length (H x) = n"
    and pay_inject: "ok r \<Longrightarrow> ok r' \<Longrightarrow> length p = n \<Longrightarrow> length p' = n \<Longrightarrow>
      pay r p = pay r' p' \<Longrightarrow> r = r' \<and> p = p'"
begin

lemma end_length: "length prev = n \<Longrightarrow> length (chain_end H pay prev rs) = n"
  by (induction rs arbitrary: prev) (auto simp: hash_length)

lemma same_end:
  assumes "length rs = length rs'" and "length s = n" and "length s' = n"
    and "list_all ok rs" and "list_all ok rs'"
    and "chain_end H pay s rs = chain_end H pay s' rs'"
    and "\<not> collision H (chain_payloads H pay s rs) (chain_payloads H pay s' rs')"
  shows "rs = rs' \<and> s = s'"
  using assms
proof (induction rs arbitrary: rs' rule: rev_induct)
  case (snoc r rs xs)
  obtain rs' r' where xs: "xs = rs' @ [r']" using snoc.prems(1) by (cases xs rule: rev_cases) auto
  note prems = snoc.prems [unfolded xs]
  let ?p = "pay r (chain_end H pay s rs)" and ?q = "pay r' (chain_end H pay s' rs')"
  have "H ?p = H ?q" using prems(6) by (simp add: chain_end_append)
  then have pq: "?p = ?q"
    using prems(7) collisionI [of ?p "chain_payloads H pay s (rs @ [r])" ?q "chain_payloads H pay s' (rs' @ [r'])" H]
    by (auto simp: chain_payloads_append)
  have e: "r = r' \<and> chain_end H pay s rs = chain_end H pay s' rs'"
    by (rule pay_inject [OF _ _ _ _ pq]) (use prems end_length in auto)
  have "\<not> collision H (chain_payloads H pay s rs) (chain_payloads H pay s' rs')"
    using prems(7) by (auto simp: chain_payloads_append dest: collision_append)
  then have "rs = rs' \<and> s = s'" using snoc.IH [of rs'] prems e by simp
  then show ?case using e xs by simp
qed simp

end

definition sigPayload :: "AuditRecord \<Rightarrow> bytes \<Rightarrow> bytes" where
  "sigPayload r prev = Marshal r @ prev"

interpretation hc: hash_chain sha256 sigPayload valid_record 32
proof
  fix r r' p p'
  assume "valid_record r" "valid_record r'" "length p = 32" "length p' = 32" "sigPayload r p = sigPayload r' p'"
  then show "r = r' \<and> p = p'" by (auto simp: sigPayload_def Marshal_eq_iff)
qed simp

section \<open>What BuildChain builds\<close>

abbreviation payloads :: "bytes \<Rightarrow> AuditRecord list \<Rightarrow> bytes list" where
  "payloads \<equiv> chain_payloads sha256 sigPayload"

text \<open>The abstract description of a chain entry: its record, its payload, its signature.\<close>

definition entry_of :: "Signer \<Rightarrow> AuditRecord \<Rightarrow> bytes \<Rightarrow> ChainEntry \<Rightarrow> bool" where
  "entry_of signer r p e \<longleftrightarrow>
     ceRecord e = r \<and> ceEntryHash e = hex_EncodeToString (sha256 p) \<and> ceKeyID e = signerKeyID signer \<and>
     (\<exists>sig. signerSign signer p = Inr sig \<and> ceSignature e = b64_EncodeToString sig)"

lemma build_from_step:
  "build_from i prev signer (r # rs) =
     (case signerSign signer (sigPayload r prev) of
        Inl e \<Rightarrow> Inl (SigningEntry i e)
      | Inr sig \<Rightarrow> bind_res (build_from (Suc i) (sha256 (sigPayload r prev)) signer rs) (\<lambda>entries. Inr
          (\<lparr>ceRecord = r, ceEntryHash = hex_EncodeToString (sha256 (sigPayload r prev)),
            ceSignature = b64_EncodeToString sig, ceKeyID = signerKeyID signer\<rparr> # entries)))"
  by (simp only: build_from.simps Let_def sigPayload_def)

declare build_from.simps(2) [simp del]

lemma build_from_Cons:
  "build_from i prev signer (r # rs) = Inr es \<longleftrightarrow>
     (\<exists>e es'. es = e # es' \<and> entry_of signer r (sigPayload r prev) e \<and>
        build_from (Suc i) (sha256 (sigPayload r prev)) signer rs = Inr es')"
  by (auto simp: build_from_step entry_of_def bind_res_Inr_iff split: sum.splits)

lemma build_from_length: "build_from i prev signer rs = Inr es \<Longrightarrow> length es = length rs"
  by (induction rs arbitrary: i prev es)
     (auto simp: build_from_Cons)

lemma build_from_records: "build_from i prev signer rs = Inr es \<Longrightarrow> map ceRecord es = rs"
  by (induction rs arbitrary: i prev es)
     (auto simp: build_from_Cons entry_of_def)

lemma build_from_hashes:
  "build_from i prev signer rs = Inr es \<Longrightarrow>
     map ceEntryHash es = map (hex_EncodeToString \<circ> sha256) (payloads prev rs)"
  by (induction rs arbitrary: i prev es)
     (auto simp: build_from_Cons entry_of_def)

lemma build_from_key_id:
  "build_from i prev signer rs = Inr es \<Longrightarrow> e \<in> set es \<Longrightarrow> ceKeyID e = signerKeyID signer"
  by (induction rs arbitrary: i prev es)
     (auto simp: build_from_Cons entry_of_def)

text \<open>It fails exactly when a payload cannot be signed, and names the first such position.\<close>

lemma build_from_fails:
  "build_from i prev signer rs = Inl err \<longleftrightarrow>
     (\<exists>k e. k < length rs \<and> err = SigningEntry (i + k) e \<and>
        signerSign signer (payloads prev rs ! k) = Inl e \<and>
        (\<forall>j < k. \<not> isl (signerSign signer (payloads prev rs ! j))))"
proof (induction rs arbitrary: i prev)
  case (Cons r rs)
  let ?p = "sigPayload r prev"
  show ?case
  proof (cases "signerSign signer ?p")
    case (Inl e)
    have "(\<forall>j < k. \<not> isl (signerSign signer (payloads prev (r # rs) ! j))) \<longleftrightarrow> k = 0" for k
      using Inl by (cases k) (auto intro!: exI [of _ 0])
    with Inl show ?thesis by (auto simp: build_from_step)
  next
    case (Inr sig)
    have shift: "(\<forall>j < Suc k. \<not> isl (signerSign signer (payloads prev (r # rs) ! j))) \<longleftrightarrow>
        (\<forall>j < k. \<not> isl (signerSign signer (payloads (sha256 ?p) rs ! j)))" for k
      using Inr by (auto simp: less_Suc_eq_0_disj)
    have "build_from i prev signer (r # rs) = Inl err \<longleftrightarrow> build_from (Suc i) (sha256 ?p) signer rs = Inl err"
      using Inr by (cases "build_from (Suc i) (sha256 ?p) signer rs") (auto simp: build_from_step)
    also have "\<dots> \<longleftrightarrow> (\<exists>k e. k < length rs \<and> err = SigningEntry (Suc i + k) e \<and>
        signerSign signer (payloads (sha256 ?p) rs ! k) = Inl e \<and>
        (\<forall>j < k. \<not> isl (signerSign signer (payloads (sha256 ?p) rs ! j))))"
      by (rule Cons.IH)
    also have "\<dots> \<longleftrightarrow> (\<exists>k e. k < length (r # rs) \<and> err = SigningEntry (i + k) e \<and>
        signerSign signer (payloads prev (r # rs) ! k) = Inl e \<and>
        (\<forall>j < k. \<not> isl (signerSign signer (payloads prev (r # rs) ! j))))" (is "?l \<longleftrightarrow> ?r")
    proof
      assume ?l
      then obtain k e where "k < length rs" "err = SigningEntry (Suc i + k) e"
        "signerSign signer (payloads (sha256 ?p) rs ! k) = Inl e"
        "\<forall>j < k. \<not> isl (signerSign signer (payloads (sha256 ?p) rs ! j))" by blast
      then show ?r using shift [of k] by (intro exI [of _ "Suc k"] exI [of _ e]) simp
    next
      assume ?r
      then obtain k e where k: "k < length (r # rs)" "err = SigningEntry (i + k) e"
        "signerSign signer (payloads prev (r # rs) ! k) = Inl e"
        "\<forall>j < k. \<not> isl (signerSign signer (payloads prev (r # rs) ! j))" by blast
      then obtain m where "k = Suc m" using Inr by (cases k) auto
      with k show ?l using shift [of m] by (intro exI [of _ m] exI [of _ e]) simp
    qed
    finally show ?thesis .
  qed
qed simp

lemma BuildChain_chain:
  assumes "BuildChain rs seed signer = Inr es"
  shows "map ceRecord es = rs" "length es = length rs"
    "map ceEntryHash es = map (hex_EncodeToString \<circ> sha256) (payloads seed rs)"
    "e \<in> set es \<Longrightarrow> ceKeyID e = signerKeyID signer"
  using assms build_from_records build_from_length build_from_hashes
    build_from_key_id [where es = es and e = e]
  unfolding BuildChain_def by blast+

lemma BuildChain_tip:
  assumes "BuildChain rs seed signer = Inr es" and "rs \<noteq> []"
  shows "TipHash es = Some (hex_EncodeToString (chain_end sha256 sigPayload seed rs))"
proof -
  have "length es = length rs" by (rule BuildChain_chain(2) [OF assms(1)])
  with assms(2) have "es \<noteq> []" by auto
  moreover have "payloads seed rs \<noteq> []"
    using assms(2) by (metis length_0_conv length_chain_payloads)
  ultimately have "ceEntryHash (last es) = hex_EncodeToString (sha256 (last (payloads seed rs)))"
    using BuildChain_chain(3) [OF assms(1)] by (metis comp_apply last_map)
  with \<open>es \<noteq> []\<close> assms(2) show ?thesis by (simp add: TipHash_def chain_end_last)
qed

lemma Ed25519_BuildChain_total: "\<exists>es. BuildChain rs seed (NewEd25519Signer ed priv) = Inr es"
proof (cases "BuildChain rs seed (NewEd25519Signer ed priv)")
  case (Inl e)
  then show ?thesis
    by (auto simp: BuildChain_def build_from_fails NewEd25519Signer_def Ed25519Signer_Sign_def)
qed simp

lemma GenesisSeedForSchema_length: "GenesisSeedForSchema t v = Inr s \<Longrightarrow> length s = 32"
  by (auto simp: GenesisSeedForSchema_def split: if_splits option.splits)

lemma decoded_length: "hex_DecodeString t = Some b \<Longrightarrow> length t = 2 * length b"
  by (induction t arbitrary: b rule: hex_DecodeString.induct) (auto split: option.splits)

section \<open>Properties\<close>

text \<open>\<open>SortRecords\<close> is deterministic: whatever order the spans of a trace were received in, records
  with distinct (start time, span id) pairs come out in the same order, so that the sequence
  numbers and with them the canonical bytes do not depend on arrival order.\<close>

theorem SortRecords_deterministic:
  assumes "mset records = mset records'"
    and "distinct (map (\<lambda>r. (startTimeUnixNano r, spanID r)) records)"
  shows "SortRecords records = SortRecords records' \<and> mset (SortRecords records) = mset records \<and>
     sorted (map (\<lambda>r. (startTimeUnixNano r, spanID r)) (SortRecords records))"
  using sort_key_perm_eq [OF assms] by (simp add: SortRecords_def flip: assms(1))

theorem SortRecords_deterministic_witness:
  "SortRecords [fixture_record, fixture_record\<lparr>spanID := ''00''\<rparr>, fixture_record\<lparr>startTimeUnixNano := 5\<rparr>] =
   SortRecords [fixture_record\<lparr>spanID := ''00''\<rparr>, fixture_record\<lparr>startTimeUnixNano := 5\<rparr>, fixture_record]"
  by (rule SortRecords_deterministic [THEN conjunct1]) (simp_all add: fixture_record_def)

text \<open>C29. \<open>BuildChain\<close> refines the abstract chain: on success there is one entry per record in order,
  entry \<open>i\<close> stores the hash of the canonical bytes of record \<open>i\<close> followed by the previous hash
  (the genesis seed for the first), and the tip hash is the end of the abstract chain.\<close>

theorem BuildChain_refines:
  assumes "BuildChain records seed signer = Inr entries" and "records \<noteq> []"
  shows "map ceRecord entries = records \<and>
    map ceEntryHash entries = map (hex_EncodeToString \<circ> sha256) (chain_payloads sha256 sigPayload seed records) \<and>
    TipHash entries = Some (hex_EncodeToString (chain_end sha256 sigPayload seed records)) \<and>
    (\<forall>e. e \<in> set entries \<longrightarrow> ceKeyID e = signerKeyID signer)"
  using BuildChain_chain [OF assms(1)] BuildChain_tip [OF assms] by blast

theorem BuildChain_refines_witness:
  "\<exists>entries. BuildChain [fixture_record] (sha256 ''seed'') (NewEd25519Signer toy_ed25519 ''k'') = Inr entries \<and>
     map ceRecord entries = [fixture_record]"
  using Ed25519_BuildChain_total [of "[fixture_record]" "sha256 ''seed''" toy_ed25519 "''k''"]
    BuildChain_refines [of "[fixture_record]" "sha256 ''seed''" "NewEd25519Signer toy_ed25519 ''k''"]
  by blast

text \<open>\<open>BuildChain\<close> fails exactly when the signer refuses one of the payloads, with the position and
  error of the first refusal: no partial chain is ever returned.\<close>

theorem BuildChain_fails_exactly:
  "BuildChain records seed signer = Inl err \<longleftrightarrow>
     (\<exists>k e. k < length records \<and> err = SigningEntry k e \<and>
        signerSign signer (chain_payloads sha256 sigPayload seed records ! k) = Inl e \<and>
        (\<forall>j < k. \<not> isl (signerSign signer (chain_payloads sha256 sigPayload seed records ! j))))"
  unfolding BuildChain_def build_from_fails by simp

definition refusing_signer :: Signer where
  "refusing_signer = \<lparr>signerSign = (\<lambda>m. Inl ''no key''), signerKeyID = ''k''\<rparr>"

theorem BuildChain_fails_exactly_witness:
  "BuildChain [fixture_record] (sha256 []) refusing_signer = Inl (SigningEntry 0 ''no key'')"
  by (subst BuildChain_fails_exactly) (auto simp: refusing_signer_def)

text \<open>Chains of different traces or schema versions do not share a genesis seed: for trace ids of 32
  hex digits, equal seeds mean the same 16 bytes and the same version, or two inputs that collide
  under SHA-256.\<close>

theorem genesis_seed_separates:
  assumes "GenesisSeedForSchema t v = Inr seed" and "GenesisSeedForSchema t' v' = Inr seed"
    and "length t = 32" and "length t' = 32"
  shows "v = v' \<and> hex_DecodeString t = hex_DecodeString t' \<or>
    collision sha256 [the (hex_DecodeString t) @ v] [the (hex_DecodeString t') @ v']"
proof -
  from assms(1,2) obtain b b' where b: "hex_DecodeString t = Some b" "hex_DecodeString t' = Some b'"
    "sha256 (b @ v) = sha256 (b' @ v')"
    by (auto simp: GenesisSeedForSchema_def split: if_splits option.splits)
  with assms(3,4) have "length b = length b'" by (simp add: decoded_length)
  then have "b @ v = b' @ v' \<Longrightarrow> b = b' \<and> v = v'" by simp
  with b show ?thesis by (auto simp: collision_def)
qed

definition zero_trace_id :: bytes where
  "zero_trace_id = replicate 32 CHR ''0''"

lemma hex_zero: "hex_DecodeString (replicate 32 CHR ''0'') = Some (replicate 16 CHR 0x00)"
  by code_simp

theorem genesis_seed_separates_witness:
  "(''v3'' :: bytes) = ''v3'' \<and> hex_DecodeString zero_trace_id = hex_DecodeString zero_trace_id \<or>
     collision sha256 [the (hex_DecodeString zero_trace_id) @ ''v3''] [the (hex_DecodeString zero_trace_id) @ ''v3'']"
  by (rule genesis_seed_separates [where seed = "sha256 (replicate 16 CHR 0x00 @ ''v3'')"])
     (simp_all add: zero_trace_id_def GenesisSeedForSchema_def hex_zero)

lemma chr_171: "chr 171 = CHR 0xAB"
  by (simp add: chr_eq_iff)

text \<open>\<open>GenesisSeed\<close> is more liberal than its comment (32 lowercase hex digits): it accepts upper
  case, which gives the same seed as lower case, and any even length, the empty trace id included.\<close>

theorem GenesisSeed_accepts:
  "GenesisSeed ''AB'' = GenesisSeed ''ab'' \<and> GenesisSeed ''ab'' = Inr (sha256 (CHR 0xAB # ''v3'')) \<and>
   GenesisSeed [] = Inr (sha256 ''v3'') \<and> GenesisSeed ''abc'' = Inl (DecodingTraceID ''abc'')"
  by (simp add: GenesisSeed_def GenesisSeedForSchema_def SchemaVersion_def hex_val_def chr_171)

text \<open>A log line decodes to the entry it was written from, and contains no line feed, so that the
  entry is one line of the file.\<close>

theorem log_entry_round_trip:
  assumes "valid_entry e"
  shows "UnmarshalLogEntry (MarshalLogEntry e) = Some e \<and> LF \<notin> set (MarshalLogEntry e)"
  using Unmarshal_MarshalLogEntry [OF assms] log_line(1) by blast

definition fixture_entry :: LogEntry where
  "fixture_entry =
     \<lparr>leRecord = fixture_record,
      leSigned = \<lparr>seKeyID = ''PLACEHOLDER'', seAlgorithm = ''ed25519'',
                  seEntryHash = ''eaf594'', seSignature = ''PLACEHOLDER''\<rparr>\<rparr>"

lemma valid_fixture_entry: "valid_entry fixture_entry"
  using valid_fixture_record by (simp add: fixture_entry_def valid_entry_def valid_signed_def plain_valid_utf8)

theorem log_entry_round_trip_witness:
  "UnmarshalLogEntry (MarshalLogEntry fixture_entry) = Some fixture_entry \<and>
   LF \<notin> set (MarshalLogEntry fixture_entry)"
  by (rule log_entry_round_trip [OF valid_fixture_entry])

lemma torn_line:
  assumes "MarshalLogEntry e = p @ q" and "q \<noteq> []"
  shows "UnmarshalLogEntry p = None"
proof (cases "p = []")
  case True
  then show ?thesis by (simp add: UnmarshalLogEntry_def json_Unmarshal_def parse_json_def)
next
  case False
  have "parse_json (MarshalLogEntry e) \<noteq> None"
    by (simp add: MarshalLogEntry_def parse_render wf_LogEntry_json)
  then have "json_Valid (p @ q)" using assms(1) by (simp add: json_Valid_def)
  moreover have "hd p = CHR ''{''" "last q = CHR ''}''"
    using log_line(2,3) [of e] assms False by simp_all
  ultimately have "\<not> json_Valid p" using no_valid_prefix False assms(2) by blast
  then show ?thesis by (simp add: json_Valid_def UnmarshalLogEntry_def json_Unmarshal_def)
qed

text \<open>A log line cut short at any point does not parse: an interrupted write of one entry can never
  be mistaken for an entry, however much of it reached the file.\<close>

theorem torn_log_entry_unparseable:
  assumes "MarshalLogEntry e = p @ q" and "q \<noteq> []"
  shows "UnmarshalLogEntry p = None"
  using assms by (rule torn_line)

theorem torn_log_entry_unparseable_witness:
  "UnmarshalLogEntry (butlast (MarshalLogEntry fixture_entry)) = None"
  by (rule torn_log_entry_unparseable [of fixture_entry _ "[last (MarshalLogEntry fixture_entry)]"])
     (simp_all add: log_line(5))

end
