(* ===== verification/Checkpoint.thy ===== *)
theory Checkpoint
  imports Chain
begin

text \<open>
  \<open>internal/chain/checkpoint.go\<close>: trace tips, checkpoints with the bytes that are signed, and the
  accumulator with its two-phase \<open>Stage\<close> and \<open>Commit\<close>. The accumulator's mutex makes every method
  one atomic step, so a run is a sequence of method calls: the relation \<open>acc_step\<close> adds a step
  for each method and records, as ghost state, the checkpoints that were committed and the fate
  of every tip that was added. Its invariant, proved by rule induction, says that the committed
  checkpoints form a verifying hash chain and that no tip is lost or covered twice. The time is
  passed in as the text \<open>ts.UTC().Format(time.RFC3339)\<close> gives.
\<close>

definition ZeroPrevCheckpointHash :: bytes where
  "ZeroPrevCheckpointHash = replicate 64 CHR ''0''"

record TraceTip =
  tipTraceID :: bytes
  tipHash :: bytes
  tipEntryCount :: int

record checkpointForSigning =
  cfsSchemaVersion :: bytes
  cfsCheckpointSeq :: "64 word"
  cfsTimestamp :: bytes
  cfsPrevCheckpointHash :: bytes
  cfsTraceTips :: "TraceTip list option"
  cfsKeyID :: bytes
  cfsAlgorithm :: bytes

record Checkpoint =
  cpSchemaVersion :: bytes
  cpCheckpointSeq :: "64 word"
  cpTimestamp :: bytes
  cpPrevCheckpointHash :: bytes
  cpTraceTips :: "TraceTip list option"
  cpKeyID :: bytes
  cpAlgorithm :: bytes
  cpSignature :: bytes

definition TraceTip_json :: "TraceTip \<Rightarrow> json" where
  "TraceTip_json t = JObj
     [(''trace_id'', json_string (tipTraceID t)), (''tip_hash'', json_string (tipHash t)),
      (''entry_count'', JNum (FormatInt (tipEntryCount t)))]"

definition checkpointForSigning_json :: "checkpointForSigning \<Rightarrow> json" where
  "checkpointForSigning_json c = JObj
     [(''schema_version'', json_string (cfsSchemaVersion c)),
      (''checkpoint_seq'', JNum (FormatUint (unat (cfsCheckpointSeq c)))),
      (''timestamp'', json_string (cfsTimestamp c)),
      (''prev_checkpoint_hash'', json_string (cfsPrevCheckpointHash c)),
      (''trace_tips'', json_slice TraceTip_json (cfsTraceTips c)),
      (''key_id'', json_string (cfsKeyID c)),
      (''algorithm'', json_string (cfsAlgorithm c))]"

definition Checkpoint_json :: "Checkpoint \<Rightarrow> json" where
  "Checkpoint_json c = JObj
     [(''schema_version'', json_string (cpSchemaVersion c)),
      (''checkpoint_seq'', JNum (FormatUint (unat (cpCheckpointSeq c)))),
      (''timestamp'', json_string (cpTimestamp c)),
      (''prev_checkpoint_hash'', json_string (cpPrevCheckpointHash c)),
      (''trace_tips'', json_slice TraceTip_json (cpTraceTips c)),
      (''key_id'', json_string (cpKeyID c)),
      (''algorithm'', json_string (cpAlgorithm c)),
      (''signature'', json_string (cpSignature c))]"

text \<open>\<open>json.Marshal\<close> of the two structs; it cannot fail on them.\<close>

definition Marshal_checkpointForSigning :: "checkpointForSigning \<Rightarrow> bytes" where
  "Marshal_checkpointForSigning c = render (checkpointForSigning_json c)"

definition Marshal_Checkpoint :: "Checkpoint \<Rightarrow> bytes" where
  "Marshal_Checkpoint c = render (Checkpoint_json c)"

definition CheckpointSigningPayload :: "Checkpoint \<Rightarrow> bytes" where
  "CheckpointSigningPayload cp = Marshal_checkpointForSigning
     \<lparr>cfsSchemaVersion = cpSchemaVersion cp, cfsCheckpointSeq = cpCheckpointSeq cp,
      cfsTimestamp = cpTimestamp cp, cfsPrevCheckpointHash = cpPrevCheckpointHash cp,
      cfsTraceTips = cpTraceTips cp, cfsKeyID = cpKeyID cp, cfsAlgorithm = cpAlgorithm cp\<rparr>"

definition TraceTip_fields :: "TraceTip fields" where
  "TraceTip_fields =
     [(''trace_id'', string_field tipTraceID_update), (''tip_hash'', string_field tipHash_update),
      (''entry_count'', int_field tipEntryCount_update)]"

definition TraceTip_zero :: TraceTip where
  "TraceTip_zero = \<lparr>tipTraceID = [], tipHash = [], tipEntryCount = 0\<rparr>"

definition Checkpoint_fields :: "Checkpoint fields" where
  "Checkpoint_fields =
     [(''schema_version'', string_field cpSchemaVersion_update),
      (''checkpoint_seq'', uint64_field cpCheckpointSeq_update),
      (''timestamp'', string_field cpTimestamp_update),
      (''prev_checkpoint_hash'', string_field cpPrevCheckpointHash_update),
      (''trace_tips'', slice_field TraceTip_fields TraceTip_zero cpTraceTips_update),
      (''key_id'', string_field cpKeyID_update),
      (''algorithm'', string_field cpAlgorithm_update),
      (''signature'', string_field cpSignature_update)]"

definition Checkpoint_zero :: Checkpoint where
  "Checkpoint_zero =
     \<lparr>cpSchemaVersion = [], cpCheckpointSeq = 0, cpTimestamp = [], cpPrevCheckpointHash = [],
      cpTraceTips = None, cpKeyID = [], cpAlgorithm = [], cpSignature = []\<rparr>"

definition Unmarshal_Checkpoint :: "bytes \<Rightarrow> Checkpoint option" where
  "Unmarshal_Checkpoint line = json_Unmarshal Checkpoint_fields Checkpoint_zero line"

section \<open>The accumulator\<close>

record Accumulator =
  accSigner :: Signer
  accSeq :: "64 word"
  accPrevHash :: bytes
  accPending :: "TraceTip list"

definition NewAccumulator :: "Signer \<Rightarrow> 64 word \<Rightarrow> bytes \<Rightarrow> Accumulator" where
  "NewAccumulator signer initialSeq prevHash =
     \<lparr>accSigner = signer, accSeq = initialSeq, accPrevHash = prevHash, accPending = []\<rparr>"

definition AddTip :: "bytes \<Rightarrow> bytes \<Rightarrow> int \<Rightarrow> Accumulator \<Rightarrow> Accumulator" where
  "AddTip trace hash entries a =
     a\<lparr>accPending := accPending a @ [\<lparr>tipTraceID = trace, tipHash = hash, tipEntryCount = entries\<rparr>]\<rparr>"

definition PendingCount :: "Accumulator \<Rightarrow> nat" where
  "PendingCount a = length (accPending a)"

text \<open>\<open>PendingTips\<close> builds a map from trace ids to sets of tip hashes; the model's map gives the
  hashes as a list.\<close>

definition PendingTips :: "Accumulator \<Rightarrow> (bytes \<times> bytes list) list" where
  "PendingTips a =
     fold (\<lambda>tip m. if List.member (al_get m (tipTraceID tip)) (tipHash tip) then m
                   else al_append (tipTraceID tip) (tipHash tip) m) (accPending a) []"

definition DropPending :: "Accumulator \<Rightarrow> nat \<times> Accumulator" where
  "DropPending a = (length (accPending a), a\<lparr>accPending := []\<rparr>)"

definition TrimPending :: "int \<Rightarrow> Accumulator \<Rightarrow> nat \<times> Accumulator" where
  "TrimPending cap a =
     (if cap \<le> 0 \<or> int (length (accPending a)) \<le> cap then (0, a)
      else (let dropped = length (accPending a) - nat cap
            in (dropped, a\<lparr>accPending := take (nat cap) (drop dropped (accPending a))\<rparr>)))"

record StagedCheckpoint =
  stCheckpoint :: Checkpoint
  stNextPrevHash :: bytes
  stTipCount :: nat

definition StagedCheckpoint_zero :: StagedCheckpoint where
  "StagedCheckpoint_zero = \<lparr>stCheckpoint = Checkpoint_zero, stNextPrevHash = [], stTipCount = 0\<rparr>"

definition stageLocked :: "bytes \<Rightarrow> Accumulator \<Rightarrow> bytes + StagedCheckpoint" where
  "stageLocked ts a =
     (let tips = sort_key tipTraceID (accPending a);
          cfs = \<lparr>cfsSchemaVersion = SchemaVersion, cfsCheckpointSeq = accSeq a + 1, cfsTimestamp = ts,
                 cfsPrevCheckpointHash = accPrevHash a, cfsTraceTips = Some tips,
                 cfsKeyID = signerKeyID (accSigner a), cfsAlgorithm = ''ed25519''\<rparr>;
          payload = Marshal_checkpointForSigning cfs
      in case signerSign (accSigner a) payload of
           Inl e \<Rightarrow> Inl e
         | Inr sig \<Rightarrow> Inr
             \<lparr>stCheckpoint =
                \<lparr>cpSchemaVersion = cfsSchemaVersion cfs, cpCheckpointSeq = cfsCheckpointSeq cfs,
                 cpTimestamp = cfsTimestamp cfs, cpPrevCheckpointHash = cfsPrevCheckpointHash cfs,
                 cpTraceTips = Some tips, cpKeyID = cfsKeyID cfs, cpAlgorithm = cfsAlgorithm cfs,
                 cpSignature = b64_EncodeToString sig\<rparr>,
              stNextPrevHash = hex_EncodeToString (sha256 payload),
              stTipCount = length tips\<rparr>)"

definition Stage :: "bytes \<Rightarrow> Accumulator \<Rightarrow> bytes + StagedCheckpoint" where
  "Stage ts a = stageLocked ts a"

text \<open>The error of a commit carries the two sequence numbers its message names.\<close>

datatype commit_error = NotSuccessor "64 word" "64 word"

definition commitLocked :: "StagedCheckpoint \<Rightarrow> Accumulator \<Rightarrow> commit_error + Accumulator" where
  "commitLocked st a =
     (if stNextPrevHash st = [] \<or> cpCheckpointSeq (stCheckpoint st) \<noteq> accSeq a + 1
      then Inl (NotSuccessor (accSeq a) (cpCheckpointSeq (stCheckpoint st)))
      else
        let a' = a\<lparr>accSeq := cpCheckpointSeq (stCheckpoint st), accPrevHash := stNextPrevHash st\<rparr>
        in if length (accPending a) \<le> stTipCount st then Inr (a'\<lparr>accPending := []\<rparr>)
           else Inr (a'\<lparr>accPending := drop (stTipCount st) (accPending a)\<rparr>))"

definition Commit :: "StagedCheckpoint \<Rightarrow> Accumulator \<Rightarrow> commit_error + Accumulator" where
  "Commit st a = commitLocked st a"

datatype build_failure = BuildStage bytes | BuildCommit commit_error

text \<open>\<open>Build\<close>: the accumulator after it and the result.\<close>

definition Build :: "bytes \<Rightarrow> Accumulator \<Rightarrow> (build_failure + Checkpoint) \<times> Accumulator" where
  "Build ts a =
     (case stageLocked ts a of
        Inl e \<Rightarrow> (Inl (BuildStage e), a)
      | Inr st \<Rightarrow>
          (case commitLocked st a of
             Inl e \<Rightarrow> (Inl (BuildCommit e), a)
           | Inr a' \<Rightarrow> (Inr (stCheckpoint st), a')))"

lemmas [state_simps] = AddTip_def PendingCount_def DropPending_def TrimPending_def Stage_def Commit_def
  stageLocked_def commitLocked_def Let_def

section \<open>Checkpoint lines and signing payloads\<close>

definition valid_tip :: "TraceTip \<Rightarrow> bool" where
  "valid_tip t \<longleftrightarrow> valid_utf8 (tipTraceID t) \<and> valid_utf8 (tipHash t) \<and>
     - (2 ^ 63) \<le> tipEntryCount t \<and> tipEntryCount t < 2 ^ 63"

definition valid_checkpoint :: "Checkpoint \<Rightarrow> bool" where
  "valid_checkpoint c \<longleftrightarrow>
     list_all valid_utf8 [cpSchemaVersion c, cpTimestamp c, cpPrevCheckpointHash c, cpKeyID c,
       cpAlgorithm c, cpSignature c] \<and>
     (case cpTraceTips c of None \<Rightarrow> True | Some tips \<Rightarrow> list_all valid_tip tips)"

lemma wf_TraceTip_json: "wf_json (Suc d) (TraceTip_json t)"
  unfolding TraceTip_json_def by (rule wf_object) (auto simp: name_char_def)

lemma wf_uint: "wf_json d (JNum (FormatUint n))"
  using wf_json_uint [of n] by simp

lemma wf_Checkpoint_depth:
  "wf_json (Suc (Suc (Suc (Suc d)))) (Checkpoint_json c)"
  "wf_json (Suc (Suc (Suc (Suc d)))) (checkpointForSigning_json s)"
  unfolding Checkpoint_json_def checkpointForSigning_json_def
  by (rule wf_object; auto simp: name_char_def wf_TraceTip_json wf_uint intro!: wf_slice simp del: wf_json.simps(3))+

lemma wf_Checkpoint_json:
  "wf_json max_nesting (Checkpoint_json c)" "wf_json max_nesting (checkpointForSigning_json s)"
  unfolding nesting_4 by (rule wf_Checkpoint_depth)+

lemma decode_TraceTip:
  "valid_tip t \<Longrightarrow> decode_struct TraceTip_fields (TraceTip_json t) TraceTip_zero = Some t"
  by (simp add: TraceTip_json_def TraceTip_fields_def decode_member name_char_def string_field_def
      int_field_def ParseInt_FormatInt valid_tip_def unq_esc TraceTip_zero_def del: decode_members.simps(2))

lemma decode_tips:
  assumes "case xs of None \<Rightarrow> True | Some ts \<Rightarrow> list_all valid_tip ts"
  shows "slice_field TraceTip_fields TraceTip_zero cpTraceTips_update (json_slice TraceTip_json xs) c =
     Some (c\<lparr>cpTraceTips := xs\<rparr>)"
proof (cases xs)
  case (Some ts)
  then have "decode_list (\<lambda>j. decode_struct TraceTip_fields j TraceTip_zero) (map TraceTip_json ts) = Some ts"
    using assms by (intro decode_list_map decode_TraceTip) (simp add: list_all_iff)
  with Some show ?thesis by (simp add: json_slice_def slice_field_def)
qed (simp add: json_slice_def slice_field_def)

lemmas decode_checkpoint_simps = Checkpoint_fields_def decode_member name_char_def string_field_def
  uint64_field_def valid_checkpoint_def unq_esc decode_tips Checkpoint_zero_def

lemma Unmarshal_Marshal_Checkpoint:
  "valid_checkpoint c \<Longrightarrow> Unmarshal_Checkpoint (Marshal_Checkpoint c) = Some c"
  unfolding Unmarshal_Checkpoint_def Marshal_Checkpoint_def json_Unmarshal_render [OF wf_Checkpoint_json(1)]
  by (simp add: Checkpoint_json_def decode_checkpoint_simps del: decode_members.simps(2))

text \<open>The signing payload read back as a checkpoint is the checkpoint without its signature.\<close>

lemma Unmarshal_payload:
  "valid_checkpoint c \<Longrightarrow> Unmarshal_Checkpoint (CheckpointSigningPayload c) = Some (c\<lparr>cpSignature := []\<rparr>)"
  unfolding Unmarshal_Checkpoint_def CheckpointSigningPayload_def Marshal_checkpointForSigning_def
    json_Unmarshal_render [OF wf_Checkpoint_json(2)]
  by (simp add: checkpointForSigning_json_def decode_checkpoint_simps del: decode_members.simps(2))

lemma payload_inject:
  "valid_checkpoint c \<Longrightarrow> valid_checkpoint d \<Longrightarrow> CheckpointSigningPayload c = CheckpointSigningPayload d \<Longrightarrow>
     c\<lparr>cpSignature := []\<rparr> = d\<lparr>cpSignature := []\<rparr>"
  by (metis Unmarshal_payload option.inject)

lemma checkpoint_line:
  "LF \<notin> set (Marshal_Checkpoint c)" "hd (Marshal_Checkpoint c) = CHR ''{''"
  "last (Marshal_Checkpoint c) = CHR ''}''" "TrimSpace (Marshal_Checkpoint c) = Marshal_Checkpoint c"
  "Marshal_Checkpoint c \<noteq> []"
  using object_line [OF wf_Checkpoint_json(1) [of c, unfolded Checkpoint_json_def]]
  by (simp_all add: Marshal_Checkpoint_def Checkpoint_json_def)

text \<open>
  A list of checkpoints as an abstract chain: the elements are the checkpoints without their
  link and signature, the payload puts the previous hash in as a hexadecimal link.
\<close>

definition core :: "Checkpoint \<Rightarrow> Checkpoint" where
  "core c = c\<lparr>cpPrevCheckpointHash := [], cpSignature := []\<rparr>"

definition linked_payload :: "Checkpoint \<Rightarrow> bytes \<Rightarrow> bytes" where
  "linked_payload c prev = CheckpointSigningPayload (c\<lparr>cpPrevCheckpointHash := hex_EncodeToString prev\<rparr>)"

definition valid_core :: "Checkpoint \<Rightarrow> bool" where
  "valid_core c \<longleftrightarrow> valid_checkpoint c \<and> core c = c"

interpretation cc: hash_chain sha256 linked_payload valid_core 32
proof
  fix c c' p p'
  assume h: "valid_core c" "valid_core c'" "linked_payload c p = linked_payload c' p'"
  then have v: "valid_checkpoint (c\<lparr>cpPrevCheckpointHash := hex_EncodeToString p\<rparr>)"
    "valid_checkpoint (c'\<lparr>cpPrevCheckpointHash := hex_EncodeToString p'\<rparr>)"
    by (simp_all add: valid_core_def valid_checkpoint_def)
  from payload_inject [OF v h(3) [unfolded linked_payload_def]] h(1,2)
  show "c = c' \<and> p = p'" by (cases c; cases c') (auto simp: valid_core_def core_def)
qed simp

text \<open>\<open>linked prev cps\<close>: every checkpoint names the hash of its predecessor's signing payload.\<close>

fun linked :: "bytes \<Rightarrow> Checkpoint list \<Rightarrow> bool" where
  "linked prev [] = True"
| "linked prev (c # cs) =
     (cpPrevCheckpointHash c = prev \<and> linked (hex_EncodeToString (sha256 (CheckpointSigningPayload c))) cs)"

fun last_link :: "bytes \<Rightarrow> Checkpoint list \<Rightarrow> bytes" where
  "last_link prev [] = prev"
| "last_link prev (c # cs) = last_link (hex_EncodeToString (sha256 (CheckpointSigningPayload c))) cs"

lemma linked_append: "linked prev (cs @ ds) \<longleftrightarrow> linked prev cs \<and> linked (last_link prev cs) ds"
  by (induction prev cs rule: linked.induct) auto

lemma last_link_append: "last_link prev (cs @ ds) = last_link (last_link prev cs) ds"
  by (induction prev cs rule: last_link.induct) auto

lemma payload_core:
  "cpPrevCheckpointHash c = hex_EncodeToString p \<Longrightarrow> linked_payload (core c) p = CheckpointSigningPayload c"
  by (simp add: linked_payload_def core_def CheckpointSigningPayload_def)

lemma linked_chain:
  "linked (hex_EncodeToString p) cs \<Longrightarrow>
     chain_payloads sha256 linked_payload p (map core cs) = map CheckpointSigningPayload cs \<and>
     hex_EncodeToString (chain_end sha256 linked_payload p (map core cs)) = last_link (hex_EncodeToString p) cs"
  by (induction cs arbitrary: p) (auto simp: payload_core)

lemma ZeroPrev_hex: "ZeroPrevCheckpointHash = hex_EncodeToString (replicate 32 CHR 0x00)"
proof -
  have "hex_EncodeToString (replicate n CHR 0x00) = replicate (2 * n) CHR ''0''" for n
    by (induction n) (simp_all add: hex_digit_def chr_eq_iff)
  then show ?thesis by (simp add: ZeroPrevCheckpointHash_def)
qed

section \<open>Runs of the accumulator\<close>

text \<open>What a staged checkpoint is with respect to the accumulator it was staged from.\<close>

definition made_by :: "Signer \<Rightarrow> Checkpoint \<Rightarrow> bool" where
  "made_by signer c \<longleftrightarrow>
     (\<exists>sig. signerSign signer (CheckpointSigningPayload c) = Inr sig \<and> cpSignature c = b64_EncodeToString sig) \<and>
     cpKeyID c = signerKeyID signer \<and> cpAlgorithm c = ''ed25519'' \<and> cpSchemaVersion c = SchemaVersion"

definition succeeds :: "Accumulator \<Rightarrow> StagedCheckpoint \<Rightarrow> bool" where
  "succeeds a st \<longleftrightarrow>
     made_by (accSigner a) (stCheckpoint st) \<and>
     cpCheckpointSeq (stCheckpoint st) = accSeq a + 1 \<and>
     cpPrevCheckpointHash (stCheckpoint st) = accPrevHash a \<and>
     stNextPrevHash st = hex_EncodeToString (sha256 (CheckpointSigningPayload (stCheckpoint st))) \<and>
     stTipCount st \<le> length (accPending a) \<and>
     cpTraceTips (stCheckpoint st) = Some (sort_key tipTraceID (take (stTipCount st) (accPending a)))"

lemma hex_digest_nonempty: "hex_EncodeToString (sha256 m) \<noteq> []"
proof
  assume "hex_EncodeToString (sha256 m) = []"
  then have "length (hex_EncodeToString (sha256 m)) = 0" by simp
  then show False by simp
qed

lemma stage_succeeds:
  assumes "Stage ts a = Inr st"
  shows "succeeds a st" "stTipCount st = length (accPending a)" "cpTimestamp (stCheckpoint st) = ts"
  using assms
  by (auto simp: Stage_def stageLocked_def Let_def succeeds_def made_by_def CheckpointSigningPayload_def
      split: sum.splits)

lemma AddTip_succeeds: "succeeds a st \<Longrightarrow> succeeds (AddTip t h n a) st"
  by (simp add: succeeds_def AddTip_def)

lemma commit_succeeds:
  assumes "succeeds a st"
  shows "Commit st a = Inr (a\<lparr>accSeq := accSeq a + 1, accPrevHash := stNextPrevHash st,
    accPending := drop (stTipCount st) (accPending a)\<rparr>)"
  using assms hex_digest_nonempty by (simp add: Commit_def commitLocked_def succeeds_def Let_def)

record acc_run =
  runAcc :: Accumulator
  runStaged :: "StagedCheckpoint option"
  runCommitted :: "Checkpoint list"
  runAdded :: "TraceTip list"
  runGivenUp :: "TraceTip list"

definition acc_start :: "Signer \<Rightarrow> 64 word \<Rightarrow> bytes \<Rightarrow> acc_run" where
  "acc_start signer initialSeq prevHash =
     \<lparr>runAcc = NewAccumulator signer initialSeq prevHash, runStaged = None, runCommitted = [],
      runAdded = [], runGivenUp = []\<rparr>"

text \<open>
  The discipline the comments of \<open>Stage\<close>, \<open>DropPending\<close> and \<open>TrimPending\<close> ask of the caller: one
  staged checkpoint at a time, and no dropping or trimming between \<open>Stage\<close> and \<open>Commit\<close>. Tips may
  be added at any time; a staged checkpoint whose write failed is abandoned.
\<close>

inductive acc_step :: "acc_run \<Rightarrow> acc_run \<Rightarrow> bool" where
  add: "acc_step s (s\<lparr>runAcc := AddTip t h n (runAcc s),
      runAdded := runAdded s @ [\<lparr>tipTraceID = t, tipHash = h, tipEntryCount = n\<rparr>]\<rparr>)"
| stage: "runStaged s = None \<Longrightarrow> Stage ts (runAcc s) = Inr st \<Longrightarrow> acc_step s (s\<lparr>runStaged := Some st\<rparr>)"
| abandon: "acc_step s (s\<lparr>runStaged := None\<rparr>)"
| commit: "runStaged s = Some st \<Longrightarrow> Commit st (runAcc s) = Inr a \<Longrightarrow>
    acc_step s (s\<lparr>runAcc := a, runStaged := None, runCommitted := runCommitted s @ [stCheckpoint st]\<rparr>)"
| drop_all: "runStaged s = None \<Longrightarrow> DropPending (runAcc s) = (n, a) \<Longrightarrow>
    acc_step s (s\<lparr>runAcc := a, runGivenUp := runGivenUp s @ accPending (runAcc s)\<rparr>)"
| trim: "runStaged s = None \<Longrightarrow> TrimPending cap (runAcc s) = (n, a) \<Longrightarrow>
    acc_step s (s\<lparr>runAcc := a, runGivenUp := runGivenUp s @ take n (accPending (runAcc s))\<rparr>)"

definition covered_tips :: "Checkpoint list \<Rightarrow> TraceTip list" where
  "covered_tips cs = concat (map (\<lambda>c. slice_list (cpTraceTips c)) cs)"

definition acc_inv :: "Signer \<Rightarrow> 64 word \<Rightarrow> bytes \<Rightarrow> acc_run \<Rightarrow> bool" where
  "acc_inv signer seq0 prev0 s \<longleftrightarrow>
     accSigner (runAcc s) = signer \<and>
     accSeq (runAcc s) = seq0 + of_nat (length (runCommitted s)) \<and>
     accPrevHash (runAcc s) = last_link prev0 (runCommitted s) \<and>
     linked prev0 (runCommitted s) \<and>
     map cpCheckpointSeq (runCommitted s) =
       map (\<lambda>i. seq0 + of_nat (Suc i)) [0..<length (runCommitted s)] \<and>
     (\<forall>c \<in> set (runCommitted s). made_by signer c) \<and>
     mset (runAdded s) =
       mset (covered_tips (runCommitted s)) + mset (runGivenUp s) + mset (accPending (runAcc s)) \<and>
     (\<forall>st. runStaged s = Some st \<longrightarrow> succeeds (runAcc s) st)"

lemma trim_split:
  assumes "TrimPending cap a = (n, a')"
  shows "a' = a\<lparr>accPending := drop n (accPending a)\<rparr>" "n \<le> length (accPending a)"
  using assms by (auto simp: TrimPending_def Let_def split: if_splits)

lemma commit_conserves:
  assumes "succeeds a st"
  shows "mset (slice_list (cpTraceTips (stCheckpoint st))) + mset (drop (stTipCount st) (accPending a)) =
    mset (accPending a)"
proof -
  have "mset (take (stTipCount st) (accPending a)) + mset (drop (stTipCount st) (accPending a)) =
      mset (accPending a)"
    by (metis append_take_drop_id mset_append)
  with assms show ?thesis by (simp add: succeeds_def)
qed

lemma acc_inv_step: "acc_step s s' \<Longrightarrow> acc_inv signer seq0 prev0 s \<Longrightarrow> acc_inv signer seq0 prev0 s'"
proof (induction rule: acc_step.induct)
  case (add s t h n)
  then show ?case by (auto simp: acc_inv_def AddTip_succeeds) (simp_all add: AddTip_def)
next
  case (stage s ts st)
  then show ?case by (simp add: acc_inv_def stage_succeeds(1))
next
  case (abandon s)
  then show ?case by (simp add: acc_inv_def)
next
  case (commit s st a)
  then have sc: "succeeds (runAcc s) st" by (simp add: acc_inv_def)
  note a = commit_succeeds [OF sc] and m = commit_conserves [OF sc]
  from commit a sc m show ?case
    by (auto simp: acc_inv_def linked_append last_link_append covered_tips_def succeeds_def add_ac)
next
  case (drop_all s n a)
  then show ?case by (auto simp: acc_inv_def DropPending_def)
next
  case (trim s cap n a)
  have "mset (take n (accPending (runAcc s))) + mset (drop n (accPending (runAcc s))) = mset (accPending (runAcc s))"
    by (metis append_take_drop_id mset_append)
  with trim trim_split [OF trim(2)] show ?case by (auto simp: acc_inv_def add_ac)
qed

lemma acc_inv_start: "acc_inv signer seq0 prev0 (acc_start signer seq0 prev0)"
  by (simp add: acc_inv_def acc_start_def NewAccumulator_def covered_tips_def)

lemma acc_inv_reachable:
  "acc_step\<^sup>*\<^sup>* (acc_start signer seq0 prev0) s \<Longrightarrow> acc_inv signer seq0 prev0 s"
  by (induction rule: rtranclp_induct) (auto intro: acc_inv_start acc_inv_step)

subsection \<open>PendingTips\<close>

lemma PendingTips_fold:
  "h \<in> set (al_get (fold (\<lambda>tip m. if List.member (al_get m (tipTraceID tip)) (tipHash tip) then m
                   else al_append (tipTraceID tip) (tipHash tip) m) tips m) t) \<longleftrightarrow>
     h \<in> set (al_get m t) \<or> (\<exists>tip \<in> set tips. tipTraceID tip = t \<and> tipHash tip = h)"
  by (induction tips arbitrary: m) auto

lemma PendingTips_member:
  "h \<in> set (al_get (PendingTips a) t) \<longleftrightarrow> (\<exists>tip \<in> set (accPending a). tipTraceID tip = t \<and> tipHash tip = h)"
  unfolding PendingTips_def PendingTips_fold by simp

section \<open>Properties\<close>

definition toy_signer :: Signer where
  "toy_signer = NewEd25519Signer toy_ed25519 ''k''"

lemma toy_stage: "\<exists>st. Stage ts (a\<lparr>accSigner := toy_signer\<rparr>) = Inr st"
  by (simp add: Stage_def stageLocked_def toy_signer_def NewEd25519Signer_def Ed25519Signer_Sign_def Let_def)

text \<open>C5. Along every run of the accumulator that keeps the caller's discipline, with any number of
  failed writes, drops and trims: the committed checkpoints carry consecutive sequence numbers,
  each links to the hash of its predecessor's signing payload and is signed by the signer; and no
  tip is lost or covered twice: the tips added are, counted with multiplicity, those covered by
  committed checkpoints, those deliberately given up and those still pending.\<close>

theorem accumulator_run_sound:
  assumes "acc_step\<^sup>*\<^sup>* (acc_start signer seq0 prev0) s"
  shows "linked prev0 (runCommitted s) \<and>
    map cpCheckpointSeq (runCommitted s) = map (\<lambda>i. seq0 + of_nat (Suc i)) [0..<length (runCommitted s)] \<and>
    list_all (made_by signer) (runCommitted s) \<and>
    mset (runAdded s) =
      mset (covered_tips (runCommitted s)) + mset (runGivenUp s) + mset (accPending (runAcc s))"
  using acc_inv_reachable [OF assms] by (simp add: acc_inv_def list_all_iff)

lemma run_one_checkpoint:
  assumes "Stage ts (AddTip t h n (NewAccumulator signer seq0 prev0)) = Inr st"
  shows "\<exists>s. acc_step\<^sup>*\<^sup>* (acc_start signer seq0 prev0) s \<and> runCommitted s = [stCheckpoint st] \<and>
     runAdded s = [\<lparr>tipTraceID = t, tipHash = h, tipEntryCount = n\<rparr>]"
proof -
  let ?s0 = "acc_start signer seq0 prev0"
  let ?s1 = "?s0\<lparr>runAcc := AddTip t h n (runAcc ?s0),
      runAdded := runAdded ?s0 @ [\<lparr>tipTraceID = t, tipHash = h, tipEntryCount = n\<rparr>]\<rparr>"
  have st: "Stage ts (runAcc ?s1) = Inr st" using assms by (simp add: acc_start_def)
  let ?s2 = "?s1\<lparr>runStaged := Some st\<rparr>"
  obtain a where a: "Commit st (runAcc ?s2) = Inr a"
    using commit_succeeds [OF stage_succeeds(1) [OF st]] by simp
  have "acc_step ?s0 ?s1" by (rule acc_step.add)
  moreover have "acc_step ?s1 ?s2" by (rule acc_step.stage [OF _ st]) (simp add: acc_start_def)
  moreover have "acc_step ?s2 (?s2\<lparr>runAcc := a, runStaged := None,
      runCommitted := runCommitted ?s2 @ [stCheckpoint st]\<rparr>)"
    by (rule acc_step.commit [OF _ a]) simp
  ultimately show ?thesis
    by (intro exI [of _ "?s2\<lparr>runAcc := a, runStaged := None,
      runCommitted := runCommitted ?s2 @ [stCheckpoint st]\<rparr>"])
      (auto simp: acc_start_def intro: converse_rtranclp_into_rtranclp)
qed

theorem accumulator_run_sound_witness:
  "\<exists>s. acc_step\<^sup>*\<^sup>* (acc_start toy_signer 0 ZeroPrevCheckpointHash) s \<and>
     map cpCheckpointSeq (runCommitted s) = [1] \<and> linked ZeroPrevCheckpointHash (runCommitted s)"
proof -
  obtain st where "Stage [] (AddTip ''aa'' ''h1'' 2 (NewAccumulator toy_signer 0 ZeroPrevCheckpointHash)) = Inr st"
    using toy_stage [of "[]" "AddTip ''aa'' ''h1'' 2 (NewAccumulator toy_signer 0 ZeroPrevCheckpointHash)"]
    by (auto simp: AddTip_def NewAccumulator_def)
  then obtain s where s: "acc_step\<^sup>*\<^sup>* (acc_start toy_signer 0 ZeroPrevCheckpointHash) s" "length (runCommitted s) = 1"
    using run_one_checkpoint by fastforce
  show ?thesis using accumulator_run_sound [OF s(1)] s by (intro exI [of _ s]) simp
qed

definition add_tips :: "(bytes \<times> bytes \<times> int) list \<Rightarrow> Accumulator \<Rightarrow> Accumulator" where
  "add_tips ts a = fold (\<lambda>(t, h, n). AddTip t h n) ts a"

lemma add_tips_eq:
  "add_tips ts a = a\<lparr>accPending := accPending a @
     map (\<lambda>(t, h, n). \<lparr>tipTraceID = t, tipHash = h, tipEntryCount = n\<rparr>) ts\<rparr>"
  by (induction ts arbitrary: a) (auto simp: add_tips_def AddTip_def)

lemma add_tips_succeeds: "succeeds a st \<Longrightarrow> succeeds (add_tips ts a) st"
  by (simp add: add_tips_eq succeeds_def)

text \<open>Tips that arrive between \<open>Stage\<close> and \<open>Commit\<close> survive: committing the staged checkpoint
  succeeds, advances the sequence number by one, adopts the hash of the signed payload and leaves
  pending exactly the tips added since, in order.\<close>

theorem commit_keeps_later_tips:
  assumes "Stage ts a = Inr st"
  shows "Commit st (add_tips later a) = Inr (a\<lparr>accSeq := accSeq a + 1,
      accPrevHash := hex_EncodeToString (sha256 (CheckpointSigningPayload (stCheckpoint st))),
      accPending := map (\<lambda>(t, h, n). \<lparr>tipTraceID = t, tipHash = h, tipEntryCount = n\<rparr>) later\<rparr>)"
  using commit_succeeds [OF add_tips_succeeds [OF stage_succeeds(1) [OF assms]]]
    stage_succeeds [OF assms]
  by (simp add: add_tips_eq succeeds_def)

theorem commit_keeps_later_tips_witness:
  "\<exists>st a. Stage ''now'' (AddTip ''aa'' ''h1'' 2 (NewAccumulator toy_signer 7 ''p'')) = Inr st \<and>
     Commit st (add_tips [(''bb'', ''h2'', 3)] (AddTip ''aa'' ''h1'' 2 (NewAccumulator toy_signer 7 ''p''))) = Inr a \<and>
     accPending a = [\<lparr>tipTraceID = ''bb'', tipHash = ''h2'', tipEntryCount = 3\<rparr>] \<and> accSeq a = 8"
proof -
  let ?a = "AddTip ''aa'' ''h1'' 2 (NewAccumulator toy_signer 7 ''p'')"
  obtain st where st: "Stage ''now'' ?a = Inr st"
    using toy_stage [of "''now''" ?a] by (auto simp: AddTip_def NewAccumulator_def)
  show ?thesis using st commit_keeps_later_tips [OF st, of "[(''bb'', ''h2'', 3)]"]
    by (auto simp: AddTip_def NewAccumulator_def)
qed

text \<open>A mis-paired commit changes nothing: of two checkpoints staged from the same state only one can
  be committed, the other (or a second commit of the same one) is reported as stale, at every
  sequence number including the wrap of the 64-bit counter; and so is the zero staged checkpoint.\<close>

theorem stale_commit_rejected:
  assumes "Stage ts a = Inr st" and "Stage ts' a = Inr st'" and "Commit st a = Inr a'"
  shows "Commit st' a' = Inl (NotSuccessor (accSeq a + 1) (accSeq a + 1)) \<and>
    Commit StagedCheckpoint_zero a = Inl (NotSuccessor (accSeq a) 0)"
proof -
  have "a' = a\<lparr>accSeq := accSeq a + 1, accPrevHash := stNextPrevHash st,
      accPending := drop (stTipCount st) (accPending a)\<rparr>"
    using commit_succeeds [OF stage_succeeds(1) [OF assms(1)]] assms(3) by simp
  moreover have "cpCheckpointSeq (stCheckpoint st') = accSeq a + 1"
    using stage_succeeds(1) [OF assms(2)] by (simp add: succeeds_def)
  ultimately show ?thesis
    by (simp add: Commit_def commitLocked_def StagedCheckpoint_zero_def Checkpoint_zero_def)
qed

theorem stale_commit_rejected_witness:
  "\<exists>st a'. Stage [] (NewAccumulator toy_signer (- 1) []) = Inr st \<and>
     Commit st (NewAccumulator toy_signer (- 1) []) = Inr a' \<and> Commit st a' = Inl (NotSuccessor 0 0)"
proof -
  let ?a = "NewAccumulator toy_signer (- 1) []"
  obtain st where st: "Stage [] ?a = Inr st"
    using toy_stage [of "[]" ?a] by (auto simp: NewAccumulator_def)
  obtain a' where a': "Commit st ?a = Inr a'"
    using commit_succeeds [OF stage_succeeds(1) [OF st]] by blast
  show ?thesis using stale_commit_rejected [OF st st a'] st a' by (auto simp: NewAccumulator_def)
qed

text \<open>\<open>Build\<close> never fails in its commit half, as its comment says: it returns the signer's error and
  leaves the accumulator alone, or the staged checkpoint with nothing left pending.\<close>

theorem Build_cases:
  "(\<exists>e. Build ts a = (Inl (BuildStage e), a) \<and> Stage ts a = Inl e) \<or>
   (\<exists>st. Stage ts a = Inr st \<and> Build ts a = (Inr (stCheckpoint st),
      a\<lparr>accSeq := accSeq a + 1, accPrevHash := stNextPrevHash st, accPending := []\<rparr>))"
proof (cases "Stage ts a")
  case (Inr st)
  with commit_succeeds [OF stage_succeeds(1) [OF Inr]] stage_succeeds(2) [OF Inr] show ?thesis
    by (simp add: Build_def Stage_def Commit_def)
qed (simp add: Build_def Stage_def)

text \<open>\<open>TrimPending\<close> keeps the newest tips: what it drops is the returned number of oldest tips, at
  most \<open>cap\<close> remain when a cap is set, nothing is dropped while the cap is not exceeded, and the
  chain state is untouched.\<close>

theorem TrimPending_keeps_newest:
  assumes "TrimPending cap a = (dropped, a')"
  shows "a' = a\<lparr>accPending := drop dropped (accPending a)\<rparr> \<and>
    int (length (accPending a')) =
      (if cap \<le> 0 then int (length (accPending a)) else min cap (int (length (accPending a))))"
  using assms by (auto simp: TrimPending_def Let_def split: if_splits)

theorem TrimPending_keeps_newest_witness:
  "accPending (snd (TrimPending 1 (add_tips [(''aa'', ''h1'', 1), (''bb'', ''h2'', 1)] (NewAccumulator toy_signer 0 [])))) =
     [\<lparr>tipTraceID = ''bb'', tipHash = ''h2'', tipEntryCount = 1\<rparr>]"
proof -
  let ?a = "add_tips [(''aa'', ''h1'', 1), (''bb'', ''h2'', 1)] (NewAccumulator toy_signer 0 [])"
  have p: "accPending ?a = [\<lparr>tipTraceID = ''aa'', tipHash = ''h1'', tipEntryCount = 1\<rparr>,
      \<lparr>tipTraceID = ''bb'', tipHash = ''h2'', tipEntryCount = 1\<rparr>]"
    by (simp add: add_tips_eq NewAccumulator_def)
  then have "TrimPending 1 ?a = (1, ?a\<lparr>accPending := drop 1 (accPending ?a)\<rparr>)"
    by (simp add: TrimPending_def)
  from TrimPending_keeps_newest [OF this] p this show ?thesis by simp
qed

text \<open>A checkpoint line decodes to the checkpoint it was written from.\<close>

theorem checkpoint_round_trip:
  assumes "valid_checkpoint c"
  shows "Unmarshal_Checkpoint (Marshal_Checkpoint c) = Some c"
  using assms by (rule Unmarshal_Marshal_Checkpoint)

definition fixture_checkpoint :: Checkpoint where
  "fixture_checkpoint =
     \<lparr>cpSchemaVersion = ''v3'', cpCheckpointSeq = 1, cpTimestamp = ''2026-06-22T00:00:00Z'',
      cpPrevCheckpointHash = ZeroPrevCheckpointHash,
      cpTraceTips = Some [\<lparr>tipTraceID = ''0101'', tipHash = ''fe7c'', tipEntryCount = 2\<rparr>],
      cpKeyID = ''PLACEHOLDER'', cpAlgorithm = ''ed25519'', cpSignature = ''c2ln''\<rparr>"

lemma valid_ZeroPrev: "valid_utf8 ZeroPrevCheckpointHash"
  by (rule plain_valid_utf8) (simp add: list_all_iff ZeroPrevCheckpointHash_def)

lemma valid_fixture_checkpoint: "valid_checkpoint fixture_checkpoint"
  using valid_ZeroPrev
  by (simp add: valid_checkpoint_def fixture_checkpoint_def valid_tip_def plain_valid_utf8)

theorem checkpoint_round_trip_witness:
  "Unmarshal_Checkpoint (Marshal_Checkpoint fixture_checkpoint) = Some fixture_checkpoint"
  by (rule checkpoint_round_trip [OF valid_fixture_checkpoint])

text \<open>C30. A verified run of checkpoints commits to everything before it: two lists of the same length
  whose links hold from the same start and whose last signing payloads hash alike agree in every
  signed field of every checkpoint, or exhibit two payloads that collide under SHA-256.\<close>

theorem checkpoint_history_tamper_evident:
  assumes "linked ZeroPrevCheckpointHash cs" and "linked ZeroPrevCheckpointHash ds"
    and "length cs = length ds"
    and "last_link ZeroPrevCheckpointHash cs = last_link ZeroPrevCheckpointHash ds"
    and "list_all valid_checkpoint cs" and "list_all valid_checkpoint ds"
  shows "map CheckpointSigningPayload cs = map CheckpointSigningPayload ds \<or>
    collision sha256 (map CheckpointSigningPayload cs) (map CheckpointSigningPayload ds)"
proof -
  let ?z = "replicate 32 CHR 0x00"
  note ch = linked_chain [OF assms(1) [unfolded ZeroPrev_hex]] linked_chain [OF assms(2) [unfolded ZeroPrev_hex]]
  have ok: "list_all valid_core (map core xs)" if "list_all valid_checkpoint xs" for xs
    using that by (auto simp: list_all_iff valid_core_def valid_checkpoint_def core_def)
  have ends: "chain_end sha256 linked_payload ?z (map core cs) = chain_end sha256 linked_payload ?z (map core ds)"
    using ch assms(4) unfolding ZeroPrev_hex by (metis hex_Encode_inject)
  have "map core cs = map core ds" if "\<not> collision sha256 (map CheckpointSigningPayload cs) (map CheckpointSigningPayload ds)"
    using cc.same_end [of "map core cs" "map core ds" ?z ?z] assms ok ends ch that by simp
  then show ?thesis using ch by metis
qed

theorem checkpoint_history_tamper_evident_witness:
  "map CheckpointSigningPayload [fixture_checkpoint] = map CheckpointSigningPayload [fixture_checkpoint\<lparr>cpSignature := []\<rparr>] \<or>
    collision sha256 (map CheckpointSigningPayload [fixture_checkpoint])
      (map CheckpointSigningPayload [fixture_checkpoint\<lparr>cpSignature := []\<rparr>])"
  by (rule checkpoint_history_tamper_evident)
     (use valid_fixture_checkpoint in \<open>simp_all add: valid_checkpoint_def fixture_checkpoint_def
        CheckpointSigningPayload_def\<close>)

text \<open>
  Tips of one trace id (a re-delivered trace has two) keep their arrival order in the signed
  bytes: sorting by trace id alone does not make the payload a function of the set of tips.
\<close>

lemma same_trace_tips_keep_arrival_order:
  "sort_key tipTraceID [\<lparr>tipTraceID = t, tipHash = h, tipEntryCount = n\<rparr>, \<lparr>tipTraceID = t, tipHash = h', tipEntryCount = n'\<rparr>] =
     [\<lparr>tipTraceID = t, tipHash = h, tipEntryCount = n\<rparr>, \<lparr>tipTraceID = t, tipHash = h', tipEntryCount = n'\<rparr>]"
  by simp

end
