(* ===== verification/Verify_Log.thy ===== *)
theory Verify_Log
  imports Checkpoint
begin

text \<open>
  \<open>internal/verify/verify.go\<close>: verification of one trace's chain, of one checkpoint, and of a
  log file with its checkpoint file. A file is absent, cannot be opened, fails while it is read,
  or has contents. Error texts are kept as the data they print: every \<open>fmt.Errorf\<close> of the source
  is a constructor. Go's map of entries by trace id is an association list whose order is never
  observed: the trace ids are sorted before they are visited.
  The lemmas characterise when a chain is accepted, when a report is free of fatal findings,
  and what a torn, truncated or relabelled log does to the report.
\<close>

definition maxScanTokenSize :: nat where
  "maxScanTokenSize = 4 * 1024 * 1024"

definition KindTornTrailingLine :: bytes where "KindTornTrailingLine = ''torn_trailing_line''"
definition SeverityFatal :: bytes where "SeverityFatal = ''fatal''"
definition SeverityAdvisory :: bytes where "SeverityAdvisory = ''advisory''"

datatype chain_error =
    SeedError seed_error
  | SchemaVersionMismatch nat bytes bytes
  | EntrySignature nat sign_error
  | EntryHashMismatch nat bytes bytes

datatype checkpoint_error =
    PrevCheckpointHashMismatch bytes bytes
  | CheckpointDecodeSignature
  | CheckpointSignatureFailed

datatype detail =
    DuplicateSegment
  | ChainDetail chain_error
  | KeyIDDetail int bytes bytes
  | CheckpointDetail "64 word" checkpoint_error
  | EntryCountDetail int nat
  | UnverifiableDetail bytes
  | TipHashDetail bytes bytes
  | TornTailDetail nat

record VerifyError =
  veTraceID :: bytes
  veKind :: bytes
  veDetail :: detail
  veSeverity :: bytes

record Report =
  TracesProcessed :: nat
  CheckpointsProcessed :: nat
  Errors :: "VerifyError list"
  OtherClaimedKeyIDs :: "bytes list"

definition FatalCount :: "Report \<Rightarrow> nat" where
  "FatalCount r = length (filter (\<lambda>e. veSeverity e \<noteq> SeverityAdvisory) (Errors r))"

definition StatusLine :: "Report \<Rightarrow> bytes" where
  "StatusLine r =
     (let fatal = FatalCount r; advisory = length (Errors r) - fatal in
      if fatal = 0 \<and> advisory = 0 then ''Status: OK''
      else if fatal = 0 then ''Status: OK ('' @ FormatUint advisory @ '' advisory finding(s))''
      else if advisory = 0 then ''Status: FAILED ('' @ FormatUint fatal @ '' error(s))''
      else ''Status: FAILED ('' @ FormatUint fatal @ '' fatal, '' @ FormatUint advisory @ '' advisory)'')"

definition pubKeyID :: "bytes \<Rightarrow> bytes" where
  "pubKeyID pubKey = hex_EncodeToString (sha256 pubKey)"

definition otherClaimedKeyIDs :: "(bytes \<times> LogEntry list) list \<Rightarrow> Checkpoint list \<Rightarrow> bytes \<Rightarrow> bytes list" where
  "otherClaimedKeyIDs traceEntries checkpoints suppliedKeyID =
     sort (remdups (filter (\<lambda>id. id \<noteq> [] \<and> id \<noteq> suppliedKeyID)
       (concat (map (\<lambda>(_, entries). map (\<lambda>e. seKeyID (leSigned e)) entries) traceEntries) @
        map cpKeyID checkpoints)))"

section \<open>Chains and checkpoints\<close>

text \<open>The loop of \<open>verifyChainReturnTip\<close>, with its variables \<open>i\<close>, \<open>prev\<close> and \<open>lastHash\<close>.\<close>

fun verify_entries :: "ed25519 \<Rightarrow> bytes \<Rightarrow> bytes \<Rightarrow> nat \<Rightarrow> bytes \<Rightarrow> bytes \<Rightarrow> LogEntry list \<Rightarrow> chain_error + bytes" where
  "verify_entries ed pubKey version i prev lastHash [] = Inr (hex_EncodeToString lastHash)"
| "verify_entries ed pubKey version i prev lastHash (e # es) =
     (if schemaVersion (leRecord e) \<noteq> version
      then Inl (SchemaVersionMismatch i (schemaVersion (leRecord e)) version)
      else
        let payload = Marshal (leRecord e) @ prev in
        (case Verify ed (leSigned e) payload pubKey of
           Some err \<Rightarrow> Inl (EntrySignature i err)
         | None \<Rightarrow>
             let expectedHash = sha256 payload in
             if seEntryHash (leSigned e) \<noteq> hex_EncodeToString expectedHash
             then Inl (EntryHashMismatch i (seEntryHash (leSigned e)) (hex_EncodeToString expectedHash))
             else verify_entries ed pubKey version (Suc i) expectedHash expectedHash es))"

definition verifyChainReturnTip :: "ed25519 \<Rightarrow> LogEntry list \<Rightarrow> bytes \<Rightarrow> chain_error + bytes" where
  "verifyChainReturnTip ed entries pubKey =
     (case entries of
        [] \<Rightarrow> Inr []
      | e # _ \<Rightarrow>
          (case GenesisSeedForSchema (traceID (leRecord e)) (schemaVersion (leRecord e)) of
             Inl err \<Rightarrow> Inl (SeedError err)
           | Inr genesisSeed \<Rightarrow>
               verify_entries ed pubKey (schemaVersion (leRecord e)) 0 genesisSeed
                 (replicate 32 CHR 0x00) entries))"

definition VerifyChain :: "ed25519 \<Rightarrow> LogEntry list \<Rightarrow> bytes \<Rightarrow> chain_error option" where
  "VerifyChain ed entries pubKey =
     (case verifyChainReturnTip ed entries pubKey of Inl err \<Rightarrow> Some err | Inr _ \<Rightarrow> None)"

definition VerifyCheckpoint :: "ed25519 \<Rightarrow> Checkpoint \<Rightarrow> bytes \<Rightarrow> bytes \<Rightarrow> checkpoint_error option" where
  "VerifyCheckpoint ed cp prevSignPayloadHash pubKey =
     (let payload = CheckpointSigningPayload cp in
      if cpPrevCheckpointHash cp \<noteq> prevSignPayloadHash
      then Some (PrevCheckpointHashMismatch (cpPrevCheckpointHash cp) prevSignPayloadHash)
      else
        (case b64_DecodeString (cpSignature cp) of
           None \<Rightarrow> Some CheckpointDecodeSignature
         | Some sig \<Rightarrow> if \<not> ed_verify ed pubKey payload sig then Some CheckpointSignatureFailed else None))"

section \<open>Reading the files\<close>

datatype read_error =
    OpenLog | ScanLog | UnmarshalLogLine nat
  | OpenCheckpoint | ScanCheckpoint | UnmarshalCheckpointLine nat

definition raw_lines :: "bytes \<Rightarrow> bytes list" where
  "raw_lines s = filter (\<lambda>l. l \<noteq> []) (map TrimSpace (fst (scan_lines maxScanTokenSize s)))"

text \<open>The loop over the raw lines: the entries by trace id and the number of a torn last line.\<close>

fun parse_log_lines :: "nat \<Rightarrow> bytes list \<Rightarrow> (bytes \<times> LogEntry list) list \<Rightarrow>
    read_error + (bytes \<times> LogEntry list) list \<times> nat option" where
  "parse_log_lines i [] result = Inr (result, None)"
| "parse_log_lines i (line # lines) result =
     (case UnmarshalLogEntry line of
        None \<Rightarrow> if lines = [] then Inr (result, Some (i + 1)) else Inl (UnmarshalLogLine (i + 1))
      | Some e \<Rightarrow> parse_log_lines (i + 1) lines (al_append (traceID (leRecord e)) e result))"

fun repeats :: "LogEntry list \<Rightarrow> bool" where
  "repeats (d # e # es) \<longleftrightarrow> seqInTrace (leRecord e) = seqInTrace (leRecord d) \<or> repeats (e # es)"
| "repeats _ \<longleftrightarrow> False"

definition sort_entries :: "LogEntry list \<Rightarrow> LogEntry list" where
  "sort_entries entries = sort_key (\<lambda>e. seqInTrace (leRecord e)) entries"

type_synonym log_data = "(bytes \<times> LogEntry list) list \<times> bytes list \<times> nat option"

definition readLogEntries :: "disk_file \<Rightarrow> read_error + log_data" where
  "readLogEntries f =
     (case f of
        NotExist \<Rightarrow> Inr ([], [], None)
      | OpenFails \<Rightarrow> Inl OpenLog
      | ReadFails \<Rightarrow> Inl ScanLog
      | Content s \<Rightarrow>
          if snd (scan_lines maxScanTokenSize s) then Inl ScanLog
          else
            (case parse_log_lines 0 (raw_lines s) [] of
               Inl err \<Rightarrow> Inl err
             | Inr (result, tornTail) \<Rightarrow>
                 let result = map (\<lambda>(id, entries). (id, sort_entries entries)) result;
                     duplicates = map fst (filter (\<lambda>(id, entries). repeats entries) result)
                 in Inr (result, duplicates, tornTail)))"

fun parse_checkpoint_lines :: "nat \<Rightarrow> bytes list \<Rightarrow> read_error + Checkpoint list" where
  "parse_checkpoint_lines i [] = Inr []"
| "parse_checkpoint_lines i (line # lines) =
     (case Unmarshal_Checkpoint line of
        None \<Rightarrow> if lines = [] then Inr [] else Inl (UnmarshalCheckpointLine (i + 1))
      | Some cp \<Rightarrow> bind_res (parse_checkpoint_lines (i + 1) lines) (\<lambda>cps. Inr (cp # cps)))"

definition readCheckpoints :: "disk_file \<Rightarrow> read_error + Checkpoint list" where
  "readCheckpoints f =
     (case f of
        NotExist \<Rightarrow> Inr []
      | OpenFails \<Rightarrow> Inl OpenCheckpoint
      | ReadFails \<Rightarrow> Inl ScanCheckpoint
      | Content s \<Rightarrow>
          if snd (scan_lines maxScanTokenSize s) then Inl ScanCheckpoint
          else parse_checkpoint_lines 0 (raw_lines s))"

section \<open>VerifyLog\<close>

definition verify_error :: "bytes \<Rightarrow> bytes \<Rightarrow> detail \<Rightarrow> bytes \<Rightarrow> VerifyError" where
  "verify_error trace kind d severity =
     \<lparr>veTraceID = trace, veKind = kind, veDetail = d, veSeverity = severity\<rparr>"

text \<open>The variables of the loop over the traces.\<close>

record trace_state =
  tsErrs :: "VerifyError list"
  tsVerifiedTips :: "(bytes \<times> bytes) list"
  tsChainFailed :: "bytes list"
  tsTraces :: nat

definition key_id_mismatches :: "bytes \<Rightarrow> bytes \<Rightarrow> LogEntry list \<Rightarrow> VerifyError list" where
  "key_id_mismatches trace suppliedKeyID entries =
     map (\<lambda>e. verify_error trace ''key_id_field_mismatch''
            (KeyIDDetail (seqInTrace (leRecord e)) (seKeyID (leSigned e)) suppliedKeyID) SeverityAdvisory)
       (filter (\<lambda>e. seKeyID (leSigned e) \<noteq> [] \<and> seKeyID (leSigned e) \<noteq> suppliedKeyID) entries)"

definition verify_trace :: "ed25519 \<Rightarrow> bytes \<Rightarrow> (bytes \<times> LogEntry list) list \<Rightarrow> bytes list \<Rightarrow> bytes \<Rightarrow>
    trace_state \<Rightarrow> trace_state" where
  "verify_trace ed pubKey traceEntries duplicateTraces trace st =
     (if List.member duplicateTraces trace then
        st\<lparr>tsErrs := tsErrs st @ [verify_error trace ''duplicate_trace_segment'' DuplicateSegment SeverityFatal],
           tsChainFailed := trace # tsChainFailed st, tsTraces := tsTraces st + 1\<rparr>
      else
        let entries = al_get traceEntries trace in
        (case verifyChainReturnTip ed entries pubKey of
           Inl err \<Rightarrow>
             st\<lparr>tsErrs := tsErrs st @ [verify_error trace ''chain'' (ChainDetail err) SeverityFatal],
                tsChainFailed := trace # tsChainFailed st, tsTraces := tsTraces st + 1\<rparr>
         | Inr tip \<Rightarrow>
             st\<lparr>tsErrs := tsErrs st @ key_id_mismatches trace (pubKeyID pubKey) entries,
                tsVerifiedTips := (trace, tip) # tsVerifiedTips st, tsTraces := tsTraces st + 1\<rparr>))"

definition check_tip :: "(bytes \<times> LogEntry list) list \<Rightarrow> trace_state \<Rightarrow> TraceTip \<Rightarrow> VerifyError list" where
  "check_tip traceEntries st tip =
     (let entries = al_get traceEntries (tipTraceID tip);
          counts = (if int (length entries) \<noteq> tipEntryCount tip
                    then [verify_error (tipTraceID tip) ''entry_count_mismatch''
                            (EntryCountDetail (tipEntryCount tip) (length entries)) SeverityFatal]
                    else [])
      in if List.member (tsChainFailed st) (tipTraceID tip)
         then counts @ [verify_error (tipTraceID tip) ''tip_hash_unverifiable''
                          (UnverifiableDetail (tipHash tip)) SeverityFatal]
         else
           (case map_of (tsVerifiedTips st) (tipTraceID tip) of
              Some actual \<Rightarrow>
                if actual \<noteq> tipHash tip
                then counts @ [verify_error (tipTraceID tip) ''tip_hash_mismatch''
                                 (TipHashDetail (tipHash tip) actual) SeverityFatal]
                else counts
            | None \<Rightarrow> counts))"

text \<open>The loop over the checkpoints; the variable \<open>prevHash\<close> advances even past a bad checkpoint.\<close>

fun verify_checkpoints :: "ed25519 \<Rightarrow> bytes \<Rightarrow> (bytes \<times> LogEntry list) list \<Rightarrow> trace_state \<Rightarrow> bytes \<Rightarrow>
    Checkpoint list \<Rightarrow> VerifyError list" where
  "verify_checkpoints ed pubKey traceEntries st prevHash [] = []"
| "verify_checkpoints ed pubKey traceEntries st prevHash (cp # cps) =
     (case VerifyCheckpoint ed cp prevHash pubKey of
        Some err \<Rightarrow> [verify_error [] ''checkpoint'' (CheckpointDetail (cpCheckpointSeq cp) err) SeverityFatal]
      | None \<Rightarrow> []) @
     concat (map (check_tip traceEntries st) (slice_list (cpTraceTips cp))) @
     verify_checkpoints ed pubKey traceEntries st
       (hex_EncodeToString (sha256 (CheckpointSigningPayload cp))) cps"

definition trace_start :: trace_state where
  "trace_start = \<lparr>tsErrs = [], tsVerifiedTips = [], tsChainFailed = [], tsTraces = 0\<rparr>"

text \<open>\<open>VerifyLog\<close> after the two files have been read.\<close>

definition verify_data :: "ed25519 \<Rightarrow> bytes \<Rightarrow> log_data \<Rightarrow> Checkpoint list \<Rightarrow> Report" where
  "verify_data ed pubKey data checkpoints =
     (case data of (traceEntries, duplicateTraces, tornTail) \<Rightarrow>
        let traceIDs = sort (map fst traceEntries);
            st = fold (verify_trace ed pubKey traceEntries duplicateTraces) traceIDs trace_start;
            errs = tsErrs st @ verify_checkpoints ed pubKey traceEntries st ZeroPrevCheckpointHash checkpoints;
            torn = (case tornTail of
                      None \<Rightarrow> []
                    | Some n \<Rightarrow> [verify_error [] KindTornTrailingLine (TornTailDetail n) SeverityAdvisory])
        in \<lparr>TracesProcessed = tsTraces st, CheckpointsProcessed = length checkpoints,
            Errors = errs @ torn,
            OtherClaimedKeyIDs = otherClaimedKeyIDs traceEntries checkpoints (pubKeyID pubKey)\<rparr>)"

definition VerifyLog :: "ed25519 \<Rightarrow> disk_file \<Rightarrow> disk_file \<Rightarrow> bytes \<Rightarrow> read_error + Report" where
  "VerifyLog ed logFile checkpointFile pubKey =
     (case readLogEntries logFile of
        Inl err \<Rightarrow> Inl err
      | Inr data \<Rightarrow>
          (case readCheckpoints checkpointFile of
             Inl err \<Rightarrow> Inl err
           | Inr checkpoints \<Rightarrow> Inr (verify_data ed pubKey data checkpoints)))"

section \<open>When a chain is accepted\<close>

definition accepted :: "ed25519 \<Rightarrow> bytes \<Rightarrow> bytes \<Rightarrow> LogEntry \<Rightarrow> bytes \<Rightarrow> bool" where
  "accepted ed pub version e p \<longleftrightarrow>
     schemaVersion (leRecord e) = version \<and> seAlgorithm (leSigned e) = ''ed25519'' \<and>
     signed_by ed pub p (seSignature (leSigned e)) \<and>
     seEntryHash (leSigned e) = hex_EncodeToString (sha256 p)"

lemma accepted_iff:
  "accepted ed pub version e p \<longleftrightarrow>
     schemaVersion (leRecord e) = version \<and> Verify ed (leSigned e) p pub = None \<and>
     seEntryHash (leSigned e) = hex_EncodeToString (sha256 p)"
  by (auto simp: accepted_def Verify_None_iff)

lemma verify_entries_Inr:
  "verify_entries ed pub v i prev lh es = Inr tip \<longleftrightarrow>
     list_all2 (accepted ed pub v) es (payloads prev (map leRecord es)) \<and>
     tip = hex_EncodeToString (if es = [] then lh else chain_end sha256 sigPayload prev (map leRecord es))"
proof (induction es arbitrary: i prev lh)
  case (Cons e es)
  show ?case
  proof (cases "accepted ed pub v e (sigPayload (leRecord e) prev)")
    case True
    then have "verify_entries ed pub v i prev lh (e # es) =
        verify_entries ed pub v (Suc i) (sha256 (sigPayload (leRecord e) prev)) (sha256 (sigPayload (leRecord e) prev)) es"
      by (auto simp: accepted_iff sigPayload_def Let_def split: option.splits)
    with True Cons.IH show ?thesis by auto
  next
    case False
    then have "\<exists>err. verify_entries ed pub v i prev lh (e # es) = Inl err"
      by (auto simp: accepted_iff sigPayload_def Let_def split: option.splits)
    with False show ?thesis by auto
  qed
qed auto

text \<open>The whole of what acceptance of a nonempty chain says.\<close>

definition chain_ok :: "ed25519 \<Rightarrow> bytes \<Rightarrow> bytes \<Rightarrow> LogEntry list \<Rightarrow> bool" where
  "chain_ok ed pub seed es \<longleftrightarrow>
     GenesisSeedForSchema (traceID (leRecord (hd es))) (schemaVersion (leRecord (hd es))) = Inr seed \<and>
     list_all2 (accepted ed pub (schemaVersion (leRecord (hd es)))) es (payloads seed (map leRecord es))"

abbreviation tip_of :: "bytes \<Rightarrow> LogEntry list \<Rightarrow> bytes" where
  "tip_of seed es \<equiv> hex_EncodeToString (chain_end sha256 sigPayload seed (map leRecord es))"

lemma verifyChain_Inr:
  assumes "es \<noteq> []"
  shows "verifyChainReturnTip ed es pub = Inr tip \<longleftrightarrow>
    (\<exists>seed. chain_ok ed pub seed es \<and> tip = tip_of seed es)"
proof -
  obtain e r where es: "es = e # r" using assms by (cases es) auto
  show ?thesis
  proof (cases "GenesisSeedForSchema (traceID (leRecord e)) (schemaVersion (leRecord e))")
    case (Inl err)
    then show ?thesis by (simp add: es verifyChainReturnTip_def chain_ok_def)
  next
    case (Inr seed)
    then have "verifyChainReturnTip ed es pub = Inr tip \<longleftrightarrow>
        verify_entries ed pub (schemaVersion (leRecord e)) 0 seed (replicate 32 CHR 0x00) es = Inr tip"
      by (simp add: es verifyChainReturnTip_def del: verify_entries.simps)
    with Inr show ?thesis unfolding verify_entries_Inr by (simp add: es chain_ok_def)
  qed
qed

lemma VerifyChain_None:
  assumes "es \<noteq> []"
  shows "VerifyChain ed es pub = None \<longleftrightarrow> (\<exists>seed. chain_ok ed pub seed es)"
proof -
  have "VerifyChain ed es pub = None \<longleftrightarrow> (\<exists>tip. verifyChainReturnTip ed es pub = Inr tip)"
    by (cases "verifyChainReturnTip ed es pub") (simp_all add: VerifyChain_def)
  then show ?thesis using verifyChain_Inr [OF assms, of ed pub] by auto
qed

lemma verifyChain_empty [simp]: "verifyChainReturnTip ed [] pub = Inr []"
  by (simp add: verifyChainReturnTip_def)

text \<open>The verifier never looks at the key id of an entry.\<close>

definition relabel :: "(LogEntry \<Rightarrow> bytes) \<Rightarrow> LogEntry \<Rightarrow> LogEntry" where
  "relabel f e = e\<lparr>leSigned := (leSigned e)\<lparr>seKeyID := f e\<rparr>\<rparr>"

lemma relabel_simps [simp]:
  "leRecord (relabel f e) = leRecord e" "seAlgorithm (leSigned (relabel f e)) = seAlgorithm (leSigned e)"
  "seSignature (leSigned (relabel f e)) = seSignature (leSigned e)"
  "seEntryHash (leSigned (relabel f e)) = seEntryHash (leSigned e)"
  by (simp_all add: relabel_def)

lemma verify_entries_relabel:
  "verify_entries ed pub v i prev lh (map (relabel f) es) = verify_entries ed pub v i prev lh es"
  by (induction ed pub v i prev lh es rule: verify_entries.induct)
     (auto simp: Let_def Verify_def split: option.splits)

lemma verifyChain_relabel: "verifyChainReturnTip ed (map (relabel f) es) pub = verifyChainReturnTip ed es pub"
proof (cases es)
  case (Cons e r)
  have v: "verify_entries ed pub v i prev lh (relabel f e # map (relabel f) r) =
      verify_entries ed pub v i prev lh (e # r)" for v i prev lh
    using verify_entries_relabel [of ed pub v i prev lh f "e # r"] by (simp only: list.map)
  show ?thesis
    unfolding verifyChainReturnTip_def by (simp only: Cons list.map list.case relabel_simps v)
qed simp

text \<open>What \<open>BuildChain\<close> makes with a signer that keeps its contract is accepted.\<close>

context faithful_signer
begin

lemma build_accepted:
  assumes "ed25519_correct ed" and "build_from i prev signer rs = Inr es" and "\<forall>r \<in> set rs. schemaVersion r = v"
  shows "list_all2 (accepted ed pub v) (ToLogEntries es) (payloads prev rs)"
  using assms(2,3)
proof (induction rs arbitrary: i prev es)
  case (Cons r rs)
  then show ?case
    by (auto simp: build_from_Cons entry_of_def accepted_def ToLogEntries_def signature_accepted [OF assms(1)])
qed (simp add: ToLogEntries_def)

lemma build_chain_ok:
  assumes "ed25519_correct ed" and "BuildChain rs seed signer = Inr es" and "rs \<noteq> []"
    and "\<forall>r \<in> set rs. traceID r = t \<and> schemaVersion r = v" and "GenesisSeedForSchema t v = Inr seed"
  shows "chain_ok ed pub seed (ToLogEntries es)" "map leRecord (ToLogEntries es) = rs"
proof -
  show recs: "map leRecord (ToLogEntries es) = rs"
    using BuildChain_chain(1) [OF assms(2)] by (simp add: ToLogEntries_def comp_def)
  then have "ToLogEntries es \<noteq> []" using assms(3) by auto
  then have "leRecord (hd (ToLogEntries es)) = hd rs"
    using recs by (metis list.map_sel(1))
  moreover have "hd rs \<in> set rs" using assms(3) by simp
  ultimately show "chain_ok ed pub seed (ToLogEntries es)"
    using assms build_accepted [of 0 seed rs es v] recs by (simp add: chain_ok_def BuildChain_def)
qed

end

lemma ToLogEntries_records: "map leRecord (ToLogEntries es) = map ceRecord es"
  by (simp add: ToLogEntries_def comp_def)

section \<open>When a report has no fatal finding\<close>

definition fatal :: "VerifyError list \<Rightarrow> VerifyError list" where
  "fatal es = filter (\<lambda>e. veSeverity e \<noteq> SeverityAdvisory) es"

lemma fatal_simps [simp]:
  "fatal [] = []" "fatal (es @ fs) = fatal es @ fatal fs"
  "fatal (verify_error t k d SeverityFatal # es) = verify_error t k d SeverityFatal # fatal es"
  "fatal (verify_error t k d SeverityAdvisory # es) = fatal es"
  by (simp_all add: fatal_def verify_error_def SeverityFatal_def SeverityAdvisory_def)

lemma FatalCount_fatal: "FatalCount r = length (fatal (Errors r))"
  by (simp add: FatalCount_def fatal_def)

lemma fatal_concat: "fatal (concat ess) = concat (map fatal ess)"
  by (induction ess) auto

lemma fatal_key_id_mismatches [simp]: "fatal (key_id_mismatches t k es) = []"
  by (simp add: fatal_def key_id_mismatches_def verify_error_def filter_empty_conv)

text \<open>The outcome of one trace: its recomputed tip, or \<open>None\<close> when it failed.\<close>

definition trace_tip :: "ed25519 \<Rightarrow> bytes \<Rightarrow> (bytes \<times> LogEntry list) list \<Rightarrow> bytes list \<Rightarrow> bytes \<Rightarrow> bytes option" where
  "trace_tip ed pub m dups t =
     (if t \<in> set dups then None
      else case verifyChainReturnTip ed (al_get m t) pub of Inl _ \<Rightarrow> None | Inr tip \<Rightarrow> Some tip)"

definition trace_errors :: "ed25519 \<Rightarrow> bytes \<Rightarrow> (bytes \<times> LogEntry list) list \<Rightarrow> bytes list \<Rightarrow> bytes \<Rightarrow> VerifyError list" where
  "trace_errors ed pub m dups t =
     (if t \<in> set dups then [verify_error t ''duplicate_trace_segment'' DuplicateSegment SeverityFatal]
      else case verifyChainReturnTip ed (al_get m t) pub of
             Inl err \<Rightarrow> [verify_error t ''chain'' (ChainDetail err) SeverityFatal]
           | Inr _ \<Rightarrow> key_id_mismatches t (pubKeyID pub) (al_get m t))"

lemma verify_trace_eq:
  "verify_trace ed pub m dups t st =
     st\<lparr>tsErrs := tsErrs st @ trace_errors ed pub m dups t,
        tsVerifiedTips := (case trace_tip ed pub m dups t of None \<Rightarrow> tsVerifiedTips st | Some tip \<Rightarrow> (t, tip) # tsVerifiedTips st),
        tsChainFailed := (if trace_tip ed pub m dups t = None then t # tsChainFailed st else tsChainFailed st),
        tsTraces := tsTraces st + 1\<rparr>"
  by (simp add: verify_trace_def trace_errors_def trace_tip_def Let_def split: sum.splits)

lemma verify_traces:
  fixes ed pub m dups ids
  defines "run \<equiv> fold (verify_trace ed pub m dups) ids"
  shows "tsErrs (run st) = tsErrs st @ concat (map (trace_errors ed pub m dups) ids)"
    and "tsTraces (run st) = tsTraces st + length ids"
    and "t \<in> set (tsChainFailed (run st)) \<longleftrightarrow>
        t \<in> set (tsChainFailed st) \<or> t \<in> set ids \<and> trace_tip ed pub m dups t = None"
    and "map_of (tsVerifiedTips (run st)) t =
        (if t \<in> set ids \<and> trace_tip ed pub m dups t \<noteq> None then trace_tip ed pub m dups t
         else map_of (tsVerifiedTips st) t)"
  unfolding run_def
  by (induction ids arbitrary: st) (auto simp: verify_trace_eq split: option.splits)

lemma trace_start_simps [simp]:
  "tsErrs trace_start = []" "tsVerifiedTips trace_start = []" "tsChainFailed trace_start = []"
  "tsTraces trace_start = 0"
  by (simp_all add: trace_start_def)

lemma fatal_trace_errors: "fatal (trace_errors ed pub m dups t) = [] \<longleftrightarrow> trace_tip ed pub m dups t \<noteq> None"
  by (auto simp: trace_errors_def trace_tip_def split: sum.splits)

lemma verify_checkpoint_None:
  "VerifyCheckpoint ed cp prev pub = None \<longleftrightarrow>
     cpPrevCheckpointHash cp = prev \<and> signed_by ed pub (CheckpointSigningPayload cp) (cpSignature cp)"
  by (simp add: VerifyCheckpoint_def Let_def signed_by_def split: option.splits)

definition tip_confirmed :: "(bytes \<times> LogEntry list) list \<Rightarrow> trace_state \<Rightarrow> TraceTip \<Rightarrow> bool" where
  "tip_confirmed m st tip \<longleftrightarrow>
     int (length (al_get m (tipTraceID tip))) = tipEntryCount tip \<and>
     tipTraceID tip \<notin> set (tsChainFailed st) \<and>
     (\<forall>actual. map_of (tsVerifiedTips st) (tipTraceID tip) = Some actual \<longrightarrow> actual = tipHash tip)"

lemma fatal_check_tip: "fatal (check_tip m st tip) = [] \<longleftrightarrow> tip_confirmed m st tip"
  by (auto simp: check_tip_def tip_confirmed_def Let_def split: option.splits)

lemma fatal_checkpoints:
  "fatal (verify_checkpoints ed pub m st prev cps) = [] \<longleftrightarrow>
     linked prev cps \<and>
     (\<forall>cp \<in> set cps. signed_by ed pub (CheckpointSigningPayload cp) (cpSignature cp) \<and>
        (\<forall>tip \<in> set (slice_list (cpTraceTips cp)). tip_confirmed m st tip))"
proof (induction cps arbitrary: prev)
  case (Cons cp cps)
  have "fatal (case VerifyCheckpoint ed cp prev pub of
      Some err \<Rightarrow> [verify_error [] ''checkpoint'' (CheckpointDetail (cpCheckpointSeq cp) err) SeverityFatal]
    | None \<Rightarrow> []) = [] \<longleftrightarrow> VerifyCheckpoint ed cp prev pub = None"
    by (simp split: option.splits)
  then show ?case
    by (auto simp: Cons.IH fatal_concat fatal_check_tip verify_checkpoint_None)
qed simp

text \<open>What a report without fatal findings says of the log and the checkpoints.\<close>

definition log_sound :: "ed25519 \<Rightarrow> bytes \<Rightarrow> log_data \<Rightarrow> Checkpoint list \<Rightarrow> bool" where
  "log_sound ed pub data cps \<longleftrightarrow>
     (case data of (m, dups, torn) \<Rightarrow>
        (\<forall>t \<in> fst ` set m. trace_tip ed pub m dups t \<noteq> None) \<and>
        linked ZeroPrevCheckpointHash cps \<and>
        (\<forall>cp \<in> set cps. signed_by ed pub (CheckpointSigningPayload cp) (cpSignature cp) \<and>
           (\<forall>tip \<in> set (slice_list (cpTraceTips cp)).
              int (length (al_get m (tipTraceID tip))) = tipEntryCount tip \<and>
              (tipTraceID tip \<in> fst ` set m \<longrightarrow> trace_tip ed pub m dups (tipTraceID tip) = Some (tipHash tip)))))"

lemma FatalCount_verify_data:
  "FatalCount (verify_data ed pub data cps) = 0 \<longleftrightarrow> log_sound ed pub data cps"
proof -
  obtain m dups torn where d: "data = (m, dups, torn)" by (cases data)
  let ?ids = "sort (map fst m)"
  let ?st = "fold (verify_trace ed pub m dups) ?ids trace_start"
  note vt = verify_traces [where ids = ?ids and st = trace_start and ed = ed and pub = pub and m = m and dups = dups]
  have conf: "tip_confirmed m ?st tip \<longleftrightarrow>
      int (length (al_get m (tipTraceID tip))) = tipEntryCount tip \<and>
      (tipTraceID tip \<in> fst ` set m \<longrightarrow> trace_tip ed pub m dups (tipTraceID tip) = Some (tipHash tip))" for tip
    by (auto simp: tip_confirmed_def vt)
  have torn: "fatal (case torn of None \<Rightarrow> []
      | Some n \<Rightarrow> [verify_error [] KindTornTrailingLine (TornTailDetail n) SeverityAdvisory]) = []"
    by (simp split: option.splits)
  have "fatal (tsErrs ?st) = [] \<longleftrightarrow> (\<forall>t \<in> fst ` set m. trace_tip ed pub m dups t \<noteq> None)"
    by (auto simp: vt fatal_concat fatal_trace_errors)
  then show ?thesis
    by (simp add: d verify_data_def FatalCount_fatal log_sound_def Let_def torn fatal_checkpoints conf)
qed

section \<open>Reading a log that was written line by line\<close>

definition short_line :: "bytes \<Rightarrow> bool" where
  "short_line l \<longleftrightarrow> length l < maxScanTokenSize"

lemma scannable_object:
  assumes "LF \<notin> set l" and "last l = CHR ''}''" and "short_line l"
  shows "scannable maxScanTokenSize l"
  using assms by (auto simp: scannable_def short_line_def)

lemma scannable_log_line: "short_line (MarshalLogEntry e) \<Longrightarrow> scannable maxScanTokenSize (MarshalLogEntry e)"
  by (rule scannable_object [OF log_line(1,3)])

lemma scannable_checkpoint_line:
  "short_line (Marshal_Checkpoint c) \<Longrightarrow> scannable maxScanTokenSize (Marshal_Checkpoint c)"
  by (rule scannable_object [OF checkpoint_line(1,3)])

lemma raw_lines_terminated:
  assumes "\<forall>l \<in> set ls. scannable maxScanTokenSize l \<and> TrimSpace l = l \<and> l \<noteq> []"
    and "scannable maxScanTokenSize t"
  shows "raw_lines (terminate_lines ls @ t) = ls @ (if t = [] \<or> TrimSpace t = [] then [] else [TrimSpace t])"
    "snd (scan_lines maxScanTokenSize (terminate_lines ls @ t)) = False"
proof -
  have sc: "scan_lines maxScanTokenSize (terminate_lines ls @ t) = (if t = [] then ls else ls @ [t], False)"
    using assms by (intro scan_terminated) auto
  have id: "map TrimSpace ls = ls" "filter (\<lambda>l. l \<noteq> []) ls = ls"
    using assms(1) by (auto intro: map_idI simp: filter_id_conv)
  show "raw_lines (terminate_lines ls @ t) = ls @ (if t = [] \<or> TrimSpace t = [] then [] else [TrimSpace t])"
    unfolding raw_lines_def sc using id by simp
  show "snd (scan_lines maxScanTokenSize (terminate_lines ls @ t)) = False" by (simp add: sc)
qed

abbreviation log_file :: "LogEntry list \<Rightarrow> bytes" where
  "log_file es \<equiv> terminate_lines (map MarshalLogEntry es)"

abbreviation checkpoint_file :: "Checkpoint list \<Rightarrow> bytes" where
  "checkpoint_file cs \<equiv> terminate_lines (map Marshal_Checkpoint cs)"

lemma raw_log_file:
  assumes "\<forall>e \<in> set es. short_line (MarshalLogEntry e)" and "scannable maxScanTokenSize t"
  shows "raw_lines (log_file es @ t) =
      map MarshalLogEntry es @ (if t = [] \<or> TrimSpace t = [] then [] else [TrimSpace t])"
    "snd (scan_lines maxScanTokenSize (log_file es @ t)) = False"
  using assms scannable_log_line log_line(4,5)
  by (intro raw_lines_terminated; auto)+

lemma raw_checkpoint_file:
  assumes "\<forall>c \<in> set cs. short_line (Marshal_Checkpoint c)"
  shows "raw_lines (checkpoint_file cs) = map Marshal_Checkpoint cs"
    "snd (scan_lines maxScanTokenSize (checkpoint_file cs)) = False"
  using raw_lines_terminated [of "map Marshal_Checkpoint cs" "[]"] assms scannable_checkpoint_line
    checkpoint_line(4,5)
  by (auto simp: scannable_def maxScanTokenSize_def)

lemma parse_log_lines_ok:
  assumes "\<forall>e \<in> set es. valid_entry e"
  shows "parse_log_lines i (map MarshalLogEntry es @ rest) m =
    parse_log_lines (i + length es) rest (fold (\<lambda>e. al_append (traceID (leRecord e)) e) es m)"
  using assms by (induction es arbitrary: i m) (simp_all add: Unmarshal_MarshalLogEntry)

definition log_data_of :: "LogEntry list \<Rightarrow> nat option \<Rightarrow> log_data" where
  "log_data_of es torn =
     (let result = map (\<lambda>(id, entries). (id, sort_entries entries)) (al_group (\<lambda>e. traceID (leRecord e)) es)
      in (result, map fst (filter (\<lambda>(id, entries). repeats entries) result), torn))"

lemma readLogEntries_written:
  assumes "\<forall>e \<in> set es. valid_entry e \<and> short_line (MarshalLogEntry e)"
  shows "readLogEntries (Content (log_file es)) = Inr (log_data_of es None)"
  using assms raw_log_file [of es "[]"] parse_log_lines_ok [of es 0 "[]" "[]"]
  by (simp add: readLogEntries_def log_data_of_def al_group_def scannable_def maxScanTokenSize_def Let_def)

lemma torn_raw_line:
  assumes t: "t \<noteq> []" "MarshalLogEntry e = t @ q" "q \<noteq> []"
  shows "TrimSpace t \<noteq> []" "UnmarshalLogEntry (TrimSpace t) = None"
    "LF \<notin> set t" "last t \<noteq> CR"
proof -
  have hd: "hd t = CHR ''{''" using log_line(2) [of e] t by simp
  then obtain u where u: "t = TrimSpace t @ u" "TrimSpace t \<noteq> []"
    using TrimSpace_prefix [of t] t(1) by auto
  show "TrimSpace t \<noteq> []" by (rule u(2))
  have "MarshalLogEntry e = TrimSpace t @ u @ q" using u(1) t(2) by (metis append_assoc)
  then show "UnmarshalLogEntry (TrimSpace t) = None"
    using torn_line [of e "TrimSpace t" "u @ q"] t(3) by simp
  show "LF \<notin> set t" using log_line(1) [of e] t(2) by auto
  have "last t \<in> set (MarshalLogEntry e)" using t by simp
  then have "32 \<le> byte (last t)"
    using render_visible [OF wf_LogEntry_json [of e]] by (simp add: MarshalLogEntry_def)
  then show "last t \<noteq> CR" by auto
qed

lemma readLogEntries_torn:
  assumes "\<forall>e \<in> set es. valid_entry e \<and> short_line (MarshalLogEntry e)"
    and t: "t \<noteq> []" "MarshalLogEntry e = t @ q" "q \<noteq> []" and "short_line t"
  shows "readLogEntries (Content (log_file es @ t)) = Inr (log_data_of es (Some (length es + 1)))"
proof -
  note torn = torn_raw_line [OF t]
  have "scannable maxScanTokenSize t"
    using torn assms(5) by (simp add: scannable_def short_line_def)
  then show ?thesis
    using assms(1) raw_log_file [of es t] parse_log_lines_ok [of es 0 "[TrimSpace t]" "[]"] torn t(1)
    by (simp add: readLogEntries_def log_data_of_def al_group_def Let_def)
qed

lemma readCheckpoints_written:
  assumes "\<forall>c \<in> set cs. valid_checkpoint c \<and> short_line (Marshal_Checkpoint c)"
  shows "readCheckpoints (Content (checkpoint_file cs)) = Inr cs"
proof -
  have "\<forall>c \<in> set cs. valid_checkpoint c \<Longrightarrow> parse_checkpoint_lines i (map Marshal_Checkpoint cs) = Inr cs" for i
    by (induction cs arbitrary: i) (simp_all add: Unmarshal_Marshal_Checkpoint)
  with assms raw_checkpoint_file [of cs] show ?thesis by (simp add: readCheckpoints_def)
qed

section \<open>Relabelled key ids\<close>

definition relabel_data :: "(LogEntry \<Rightarrow> bytes) \<Rightarrow> log_data \<Rightarrow> log_data" where
  "relabel_data f data =
     (case data of (m, dups, torn) \<Rightarrow> (map (\<lambda>(t, es). (t, map (relabel f) es)) m, dups, torn))"

lemma al_get_map [simp]: "al_get (map (\<lambda>(t, es). (t, map g es)) m) k = map g (al_get m k)"
  by (induction m) (auto simp: al_get_def)

lemma fst_map_pairs [simp]: "map fst (map (\<lambda>(t, es). (t, g es)) m) = map fst m"
  by (induction m) auto

lemma trace_tip_relabel [simp]:
  "trace_tip ed pub (map (\<lambda>(t, es). (t, map (relabel f) es)) m) dups = trace_tip ed pub m dups"
  by (rule ext) (simp add: trace_tip_def verifyChain_relabel)

lemma fatal_trace_errors_relabel:
  "fatal (trace_errors ed pub (map (\<lambda>(t, es). (t, map (relabel f) es)) m) dups t) =
     fatal (trace_errors ed pub m dups t)"
  by (simp add: trace_errors_def verifyChain_relabel split: sum.splits)

lemma check_tip_cong:
  assumes "length (al_get m (tipTraceID tip)) = length (al_get m' (tipTraceID tip))"
    and "set (tsChainFailed st) = set (tsChainFailed st')"
    and "map_of (tsVerifiedTips st) = map_of (tsVerifiedTips st')"
  shows "check_tip m st tip = check_tip m' st' tip"
  using assms by (simp add: check_tip_def)

lemma verify_checkpoints_cong:
  assumes "\<And>tip. check_tip m st tip = check_tip m' st' tip"
  shows "verify_checkpoints ed pub m st prev cps = verify_checkpoints ed pub m' st' prev cps"
proof -
  have "check_tip m st = check_tip m' st'" using assms by (rule ext)
  then show ?thesis by (induction cps arbitrary: prev) simp_all
qed

lemma fatal_relabel:
  "fatal (Errors (verify_data ed pub (relabel_data f data) cps)) = fatal (Errors (verify_data ed pub data cps))"
proof -
  obtain m dups torn where d: "data = (m, dups, torn)" by (cases data)
  let ?m = "map (\<lambda>(t, es). (t, map (relabel f) es)) m" and ?ids = "sort (map fst m)"
  let ?st = "fold (verify_trace ed pub m dups) ?ids trace_start"
  let ?st' = "fold (verify_trace ed pub ?m dups) ?ids trace_start"
  note vt = verify_traces [where ids = ?ids and st = trace_start and ed = ed and pub = pub and dups = dups]
  have "map_of (tsVerifiedTips ?st) = map_of (tsVerifiedTips ?st')"
    by (rule ext) (simp add: vt(4))
  moreover have "set (tsChainFailed ?st) = set (tsChainFailed ?st')"
    by (auto simp: vt(3))
  ultimately have "check_tip ?m ?st' tip = check_tip m ?st tip" for tip
    by (intro check_tip_cong) simp_all
  then have "verify_checkpoints ed pub ?m ?st' ZeroPrevCheckpointHash cps =
      verify_checkpoints ed pub m ?st ZeroPrevCheckpointHash cps"
    by (rule verify_checkpoints_cong)
  moreover have "fatal (tsErrs ?st') = fatal (tsErrs ?st)"
    by (simp add: vt(1) fatal_concat comp_def fatal_trace_errors_relabel)
  ultimately show ?thesis
    unfolding d relabel_data_def verify_data_def by (simp add: Let_def del: map_map)
qed

section \<open>Reports without any finding\<close>

lemma fatal_check_tip_id: "fatal (check_tip m st tip) = check_tip m st tip"
  by (auto simp: check_tip_def Let_def split: option.splits)

lemma fatal_verify_checkpoints_id:
  "fatal (verify_checkpoints ed pub m st prev cps) = verify_checkpoints ed pub m st prev cps"
  by (induction cps arbitrary: prev)
     (simp_all add: fatal_concat fatal_check_tip_id comp_def split: option.splits)

lemma no_errors:
  assumes "log_sound ed pub (m, dups, None) cps"
    and "\<And>t e. t \<in> fst ` set m \<Longrightarrow> e \<in> set (al_get m t) \<Longrightarrow> seKeyID (leSigned e) = pubKeyID pub"
  shows "Errors (verify_data ed pub (m, dups, None) cps) = []"
proof -
  let ?ids = "sort (map fst m)"
  let ?st = "fold (verify_trace ed pub m dups) ?ids trace_start"
  note vt = verify_traces [where ids = ?ids and st = trace_start and ed = ed and pub = pub and m = m and dups = dups]
  have "FatalCount (verify_data ed pub (m, dups, None) cps) = 0"
    using assms(1) by (simp add: FatalCount_verify_data)
  then have f: "fatal (tsErrs ?st) = [] \<and>
      fatal (verify_checkpoints ed pub m ?st ZeroPrevCheckpointHash cps) = []"
    by (simp add: FatalCount_fatal verify_data_def Let_def)
  have "trace_errors ed pub m dups t = []" if "t \<in> fst ` set m" for t
  proof -
    have "trace_tip ed pub m dups t \<noteq> None" using assms(1) that by (auto simp: log_sound_def)
    then have "trace_errors ed pub m dups t = key_id_mismatches t (pubKeyID pub) (al_get m t)"
      by (auto simp: trace_tip_def trace_errors_def split: if_splits sum.splits)
    also have "\<dots> = []" using assms(2) [OF that] by (auto simp: key_id_mismatches_def filter_empty_conv)
    finally show ?thesis .
  qed
  then have "tsErrs ?st = []" by (simp add: vt(1))
  with f show ?thesis by (simp add: verify_data_def Let_def fatal_verify_checkpoints_id)
qed

section \<open>An honest log\<close>

text \<open>
  The entries of one trace, in whatever order they stand in the file, are those \<open>BuildChain\<close>
  made from its numbered records.
\<close>

definition honest_trace :: "ed25519 \<Rightarrow> bytes \<Rightarrow> bytes \<Rightarrow> LogEntry list \<Rightarrow> bytes \<Rightarrow> bool" where
  "honest_trace ed priv t entries tip \<longleftrightarrow>
     (\<exists>rs v seed es. rs \<noteq> [] \<and> (\<forall>r \<in> set rs. traceID r = t \<and> schemaVersion r = v) \<and>
        map seqInTrace rs = map int [0..<length rs] \<and> GenesisSeedForSchema t v = Inr seed \<and>
        BuildChain rs seed (NewEd25519Signer ed priv) = Inr es \<and> TipHash es = Some tip \<and>
        mset entries = mset (ToLogEntries es))"

lemma repeats_distinct: "distinct (map (\<lambda>e. seqInTrace (leRecord e)) es) \<Longrightarrow> \<not> repeats es"
  by (induction es rule: repeats.induct) auto

lemma sort_entries_numbered:
  assumes "mset entries = mset es" and "map (\<lambda>e. seqInTrace (leRecord e)) es = map int [0..<length es]"
  shows "sort_entries entries = es" "\<not> repeats es"
proof -
  have d: "distinct (map (\<lambda>e. seqInTrace (leRecord e)) es)"
    unfolding assms(2) by (simp add: distinct_map)
  have s: "sorted (map (\<lambda>e. seqInTrace (leRecord e)) es)"
    unfolding assms(2) by (simp add: sorted_map sorted_wrt_upt [THEN sorted_wrt_mono_rel, rotated])
  have "sort_entries es = es" unfolding sort_entries_def by (rule sort_key_id_if_sorted [OF s])
  moreover have "sort_entries es = sort_entries entries"
    unfolding sort_entries_def by (rule sort_key_perm_eq) (use assms(1) d in simp_all)
  ultimately show "sort_entries entries = es" by simp
  show "\<not> repeats es" using d by (rule repeats_distinct)
qed

lemma honest_trace_verifies:
  assumes "ed25519_correct ed" and "honest_trace ed priv t entries tip"
  shows "verifyChainReturnTip ed (sort_entries entries) (ed_public ed priv) = Inr tip"
    "\<not> repeats (sort_entries entries)"
    "e \<in> set entries \<Longrightarrow> seKeyID (leSigned e) = pubKeyID (ed_public ed priv)"
proof -
  from assms(2) obtain rs v seed es where h: "rs \<noteq> []" "\<forall>r \<in> set rs. traceID r = t \<and> schemaVersion r = v"
      "map seqInTrace rs = map int [0..<length rs]" "GenesisSeedForSchema t v = Inr seed"
      "BuildChain rs seed (NewEd25519Signer ed priv) = Inr es" "TipHash es = Some tip"
      "mset entries = mset (ToLogEntries es)"
    unfolding honest_trace_def by blast
  note ok = ed.build_chain_ok [OF assms(1) h(5,1,2,4)]
  have len: "length (ToLogEntries es) = length rs" using ok(2) by (metis length_map)
  have "map (\<lambda>e. seqInTrace (leRecord e)) (ToLogEntries es) = map seqInTrace (map leRecord (ToLogEntries es))"
    by (simp add: comp_def)
  also have "\<dots> = map int [0..<length (ToLogEntries es)]" unfolding ok(2) len by (rule h(3))
  finally have seq: "map (\<lambda>e. seqInTrace (leRecord e)) (ToLogEntries es) = map int [0..<length (ToLogEntries es)]" .
  note sorted = sort_entries_numbered [OF h(7) seq]
  show "\<not> repeats (sort_entries entries)" using sorted by simp
  have ne: "ToLogEntries es \<noteq> []" using len h(1) by auto
  have "tip = tip_of seed (ToLogEntries es)"
    using BuildChain_tip [OF h(5,1)] h(6) ok(2) by simp
  then show "verifyChainReturnTip ed (sort_entries entries) (ed_public ed priv) = Inr tip"
    unfolding sorted(1) verifyChain_Inr [OF ne] using ok(1) by blast
  assume "e \<in> set entries"
  then have "e \<in> set (ToLogEntries es)" using h(7) by (metis set_mset_mset)
  then show "seKeyID (leSigned e) = pubKeyID (ed_public ed priv)"
    using BuildChain_chain(4) [OF h(5)] by (auto simp: ToLogEntries_def pubKeyID_def NewEd25519Signer_def Let_def)
qed

lemma al_get_sorted [simp]:
  "al_get (map (\<lambda>(t, es). (t, sort_entries es)) m) k = sort_entries (al_get m k)"
proof (induction m)
  case (Cons x m)
  then show ?case by (cases x) (auto simp: al_get_def)
qed (simp add: sort_entries_def)

abbreviation trace_entries :: "LogEntry list \<Rightarrow> bytes \<Rightarrow> LogEntry list" where
  "trace_entries log t \<equiv> filter (\<lambda>e. traceID (leRecord e) = t) log"

definition logged_traces :: "LogEntry list \<Rightarrow> bytes set" where
  "logged_traces log = (\<lambda>e. traceID (leRecord e)) ` set log"

lemma sort_entries_set [simp]: "set (sort_entries es) = set es" "length (sort_entries es) = length es"
  by (simp_all add: sort_entries_def)

lemma map_of_al_group: "(t, es) \<in> set (al_group key vs) \<Longrightarrow> es = filter (\<lambda>v. key v = t) vs"
proof -
  assume "(t, es) \<in> set (al_group key vs)"
  then have "map_of (al_group key vs) t = Some es" by (simp add: map_of_is_SomeI)
  then have "al_get (al_group key vs) t = es" by (simp add: al_get_def)
  then show ?thesis by simp
qed

lemma honest_data:
  assumes "\<forall>t \<in> logged_traces log. \<not> repeats (sort_entries (trace_entries log t))"
  obtains m where "log_data_of log torn = (m, [], torn)" and "fst ` set m = logged_traces log"
    and "\<And>t. al_get m t = sort_entries (trace_entries log t)" and "distinct (map fst m)"
proof -
  let ?g = "al_group (\<lambda>e. traceID (leRecord e)) log"
  let ?m = "map (\<lambda>(id, entries). (id, sort_entries entries)) ?g"
  have k: "map fst ?m = map fst ?g" by (rule fst_map_pairs)
  then have keys: "fst ` set ?m = logged_traces log"
    by (metis keys_al_group list.set_map logged_traces_def)
  have "\<not> repeats es" if "(t, es) \<in> set ?m" for t es
  proof -
    have "t \<in> logged_traces log" using that keys by force
    moreover have "es = sort_entries (trace_entries log t)" using that by (auto dest: map_of_al_group)
    ultimately show ?thesis using assms by simp
  qed
  then have "filter (\<lambda>(id, entries). repeats entries) ?m = []"
    unfolding filter_empty_conv by (simp only: split_beta) (metis prod.collapse)
  then have "log_data_of log torn = (?m, [], torn)" by (simp add: log_data_of_def Let_def)
  then show thesis using keys that [of ?m] k distinct_al_group by (metis al_get_al_group al_get_sorted)
qed

lemma committed_tips_added:
  assumes "acc_inv signer seq0 prev0 s" and "c \<in> set (runCommitted s)" and "tip \<in> set (slice_list (cpTraceTips c))"
  shows "tip \<in> set (runAdded s)"
proof -
  have "tip \<in># mset (covered_tips (runCommitted s))"
    using assms(2,3) by (auto simp: covered_tips_def)
  then have "tip \<in># mset (runAdded s)" using assms(1) by (auto simp: acc_inv_def)
  then show ?thesis by simp
qed

lemma honest_report:
  assumes ed: "ed25519_correct ed"
    and log: "\<forall>t \<in> logged_traces log. honest_trace ed priv t (trace_entries log t) (tip t)"
    and run: "acc_inv (NewEd25519Signer ed priv) seq0 ZeroPrevCheckpointHash s"
    and tips: "\<forall>x \<in> set (runAdded s). tipTraceID x \<in> logged_traces log \<and> tipHash x = tip (tipTraceID x) \<and>
      tipEntryCount x = int (length (trace_entries log (tipTraceID x)))"
  defines "r \<equiv> verify_data ed (ed_public ed priv) (log_data_of log None) (runCommitted s)"
  shows "Errors r = []" "TracesProcessed r = card (logged_traces log)"
    "CheckpointsProcessed r = length (runCommitted s)"
proof -
  note hv = honest_trace_verifies [OF ed log [rule_format]]
  obtain m where d: "log_data_of log None = (m, [], None)" and keys: "fst ` set m = logged_traces log"
    and get: "\<And>t. al_get m t = sort_entries (trace_entries log t)" and dist: "distinct (map fst m)"
    using honest_data [of log None] hv(2) by metis
  have tt: "trace_tip ed (ed_public ed priv) m [] t = Some (tip t)" if "t \<in> logged_traces log" for t
    using hv(1) [OF that] by (simp add: trace_tip_def get)
  have signed: "signed_by ed (ed_public ed priv) (CheckpointSigningPayload c) (cpSignature c)"
    if "c \<in> set (runCommitted s)" for c
    using run that ed.signature_accepted [OF ed] by (auto simp: acc_inv_def made_by_def)
  have sound: "log_sound ed (ed_public ed priv) (m, [], None) (runCommitted s)"
    using run keys tt signed tips committed_tips_added [OF run]
    by (auto simp: log_sound_def get acc_inv_def)
  show "Errors r = []"
    unfolding r_def d
  proof (rule no_errors [OF sound])
    fix t e
    assume "t \<in> fst ` set m" "e \<in> set (al_get m t)"
    then show "seKeyID (leSigned e) = pubKeyID (ed_public ed priv)"
      using hv(3) [of t e] keys by (simp add: get)
  qed
  have "card (logged_traces log) = length m"
    using dist keys by (metis distinct_card length_map list.set_map)
  then show "TracesProcessed r = card (logged_traces log)"
    by (simp add: r_def d verify_data_def Let_def verify_traces(2))
  show "CheckpointsProcessed r = length (runCommitted s)"
    by (simp add: r_def d verify_data_def Let_def)
qed

end
