(* ===== verification/Verify_Reports.thy ===== *)
theory Verify_Reports
  imports Verify_Log
begin

text \<open>
  The properties of the verifier, with an example log of one trace under a checkpoint that
  shows their hypotheses can hold: what acceptance of a chain means, what honest files give,
  and which edits of the files leave a report fatal, advisory or unchanged.
\<close>

section \<open>An example log and checkpoint\<close>

lemma length_b64 [simp]: "length (b64_EncodeToString s) = 4 * ((length s + 2) div 3)"
proof (induction s rule: b64_EncodeToString.induct)
  case (4 a b c r)
  have "(length r + 5) div 3 = Suc ((length r + 2) div 3)" by presburger
  with 4 show ?case by (simp add: Let_def add.commute)
qed (simp_all add: Let_def)

definition example_key :: bytes where "example_key = ''k''"

definition example_seed :: bytes where
  "example_seed = sha256 (replicate 16 CHR 0x01 @ ''v3'')"

definition example_chain :: "ChainEntry list" where
  "example_chain =
     [\<lparr>ceRecord = fixture_record, ceEntryHash = hex_EncodeToString (sha256 (sigPayload fixture_record example_seed)),
       ceSignature = b64_EncodeToString (sha256 (example_key @ sigPayload fixture_record example_seed)),
       ceKeyID = hex_EncodeToString (sha256 example_key)\<rparr>]"

definition example_log :: "LogEntry list" where
  "example_log = ToLogEntries example_chain"

lemma example_seed_ok: "GenesisSeedForSchema ''01010101010101010101010101010101'' ''v3'' = Inr example_seed"
proof -
  have "hex_DecodeString ''01010101010101010101010101010101'' = Some (replicate 16 CHR 0x01)" by code_simp
  then show ?thesis by (simp add: GenesisSeedForSchema_def example_seed_def)
qed

lemma example_chain_built:
  "BuildChain [fixture_record] example_seed (NewEd25519Signer toy_ed25519 example_key) = Inr example_chain"
  by (simp add: BuildChain_def build_from_step example_chain_def NewEd25519Signer_def Ed25519Signer_Sign_def
      toy_ed25519_def Let_def)

lemma example_valid: "e \<in> set example_log \<Longrightarrow> valid_entry e"
  using valid_fixture_record
  by (auto simp: example_log_def example_chain_def ToLogEntries_def valid_entry_def valid_signed_def plain_valid_utf8)

lemma example_short: "e \<in> set example_log \<Longrightarrow> short_line (MarshalLogEntry e)"
  by (simp add: example_log_def example_chain_def ToLogEntries_def MarshalLogEntry_def LogEntry_json_def
      SignedEntry_json_def esc_plain plain_hex_Encode plain_b64_Encode short_line_def maxScanTokenSize_def
      fixture_simps)

lemma example_traces: "logged_traces example_log = {''01010101010101010101010101010101''}"
  by (simp add: logged_traces_def example_log_def example_chain_def ToLogEntries_def fixture_record_def)

definition example_tip :: bytes where
  "example_tip = hex_EncodeToString (sha256 (sigPayload fixture_record example_seed))"

lemma example_honest:
  assumes "t \<in> logged_traces example_log"
  shows "honest_trace toy_ed25519 example_key t (trace_entries example_log t) example_tip"
proof -
  have t: "t = ''01010101010101010101010101010101''" using assms example_traces by simp
  have e: "trace_entries example_log t = ToLogEntries example_chain"
    by (simp add: t example_log_def example_chain_def ToLogEntries_def fixture_record_def)
  show ?thesis
    unfolding honest_trace_def e
    by (rule exI [of _ "[fixture_record]"], rule exI [of _ "''v3''"], rule exI [of _ example_seed],
        rule exI [of _ example_chain])
      (use example_chain_built example_seed_ok in \<open>simp_all add: t TipHash_def example_chain_def
        example_tip_def fixture_record_def\<close>)
qed

definition example_signer :: Signer where
  "example_signer = NewEd25519Signer toy_ed25519 example_key"

abbreviation example_pending :: Accumulator where
  "example_pending \<equiv> AddTip ''01010101010101010101010101010101'' example_tip 1 (NewAccumulator example_signer 0 ZeroPrevCheckpointHash)"

lemma example_stage:
  "\<exists>st. Stage ''2026-06-22T00:00:00Z'' example_pending = Inr st \<and>
     cpTraceTips (stCheckpoint st) = Some [\<lparr>tipTraceID = ''01010101010101010101010101010101'', tipHash = example_tip, tipEntryCount = 1\<rparr>] \<and>
     valid_checkpoint (stCheckpoint st) \<and> short_line (Marshal_Checkpoint (stCheckpoint st))"
proof -
  let ?t = "''01010101010101010101010101010101''"
  obtain st where st: "Stage ''2026-06-22T00:00:00Z'' example_pending = Inr st"
    by (auto simp: Stage_def stageLocked_def Let_def AddTip_def NewAccumulator_def example_signer_def
        NewEd25519Signer_def Ed25519Signer_Sign_def)
  obtain m where sig: "cpSignature (stCheckpoint st) = b64_EncodeToString (sha256 m)"
    using stage_succeeds(1) [OF st]
    by (auto simp: succeeds_def made_by_def AddTip_def NewAccumulator_def example_signer_def
        NewEd25519Signer_def Ed25519Signer_Sign_def toy_ed25519_def)
  have cp: "cpSchemaVersion (stCheckpoint st) = ''v3''" "cpCheckpointSeq (stCheckpoint st) = 1"
    "cpTimestamp (stCheckpoint st) = ''2026-06-22T00:00:00Z''"
    "cpPrevCheckpointHash (stCheckpoint st) = ZeroPrevCheckpointHash"
    "cpTraceTips (stCheckpoint st) = Some [\<lparr>tipTraceID = ?t, tipHash = example_tip, tipEntryCount = 1\<rparr>]"
    "cpKeyID (stCheckpoint st) = hex_EncodeToString (sha256 example_key)" "cpAlgorithm (stCheckpoint st) = ''ed25519''"
    using stage_succeeds [OF st]
    by (simp_all add: succeeds_def made_by_def AddTip_def NewAccumulator_def example_signer_def
        NewEd25519Signer_def toy_ed25519_def SchemaVersion_def Let_def)
  have "valid_checkpoint (stCheckpoint st)"
    using valid_ZeroPrev by (simp add: valid_checkpoint_def cp sig valid_tip_def plain_valid_utf8 example_tip_def)
  moreover have "short_line (Marshal_Checkpoint (stCheckpoint st))"
    by (simp add: short_line_def maxScanTokenSize_def Marshal_Checkpoint_def Checkpoint_json_def cp sig
        TraceTip_json_def example_tip_def esc_plain plain_hex_Encode plain_b64_Encode fixture_simps ZeroPrev_hex)
  ultimately show ?thesis using st cp(5) by blast
qed

lemma example_run:
  "\<exists>s. acc_step\<^sup>*\<^sup>* (acc_start example_signer 0 ZeroPrevCheckpointHash) s \<and>
     runAdded s = [\<lparr>tipTraceID = ''01010101010101010101010101010101'', tipHash = example_tip, tipEntryCount = 1\<rparr>] \<and>
     length (runCommitted s) = 1 \<and>
     covered_tips (runCommitted s) =
       [\<lparr>tipTraceID = ''01010101010101010101010101010101'', tipHash = example_tip, tipEntryCount = 1\<rparr>] \<and>
     (\<forall>c \<in> set (runCommitted s). valid_checkpoint c \<and> short_line (Marshal_Checkpoint c))"
proof -
  obtain st where st: "Stage ''2026-06-22T00:00:00Z'' example_pending = Inr st"
      "cpTraceTips (stCheckpoint st) = Some [\<lparr>tipTraceID = ''01010101010101010101010101010101'', tipHash = example_tip, tipEntryCount = 1\<rparr>]"
      "valid_checkpoint (stCheckpoint st)" "short_line (Marshal_Checkpoint (stCheckpoint st))"
    using example_stage by blast
  from run_one_checkpoint [OF st(1)] st(2-4) show ?thesis by (auto simp: covered_tips_def)
qed

section \<open>Chains\<close>

text \<open>C20. \<open>verifyChainReturnTip\<close> accepts a nonempty list of entries exactly when the genesis seed of the
  first entry exists, every entry carries that entry's schema version, the algorithm \<open>ed25519\<close>, a
  signature by the given key over its canonical bytes followed by the previous hash, and the hash
  of those bytes; the tip returned is recomputed from the records, never read from the entries.\<close>

theorem VerifyChain_accepts_exactly:
  assumes "entries \<noteq> []"
  shows "verifyChainReturnTip ed entries pub = Inr tip \<longleftrightarrow>
    (\<exists>seed. GenesisSeedForSchema (traceID (leRecord (hd entries))) (schemaVersion (leRecord (hd entries))) = Inr seed \<and>
       list_all2 (accepted ed pub (schemaVersion (leRecord (hd entries)))) entries
         (chain_payloads sha256 sigPayload seed (map leRecord entries)) \<and>
       tip = hex_EncodeToString (chain_end sha256 sigPayload seed (map leRecord entries)))"
  using verifyChain_Inr [OF assms, of ed pub tip] unfolding chain_ok_def by blast

theorem VerifyChain_accepts_exactly_witness:
  "verifyChainReturnTip toy_ed25519 example_log example_key = Inr example_tip"
proof (subst VerifyChain_accepts_exactly)
  show "example_log \<noteq> []" by (simp add: example_log_def example_chain_def ToLogEntries_def)
  show "\<exists>seed. GenesisSeedForSchema (traceID (leRecord (hd example_log))) (schemaVersion (leRecord (hd example_log))) = Inr seed \<and>
       list_all2 (accepted toy_ed25519 example_key (schemaVersion (leRecord (hd example_log)))) example_log
         (chain_payloads sha256 sigPayload seed (map leRecord example_log)) \<and>
       example_tip = hex_EncodeToString (chain_end sha256 sigPayload seed (map leRecord example_log))"
    using example_seed_ok
    by (intro exI [of _ example_seed]) (simp add: example_log_def example_chain_def ToLogEntries_def
        accepted_def signed_by_def toy_ed25519_def example_tip_def fixture_record_def)
qed

text \<open>C12. A chain built by \<open>BuildChain\<close> with an Ed25519 key verifies under the public half of that key,
  and the verifier recomputes the tip that \<open>TipHash\<close> reports; building never fails.\<close>

theorem honest_chain_verifies:
  assumes "ed25519_correct ed" and "records \<noteq> []"
    and "\<forall>r \<in> set records. traceID r = t \<and> schemaVersion r = v" and "GenesisSeedForSchema t v = Inr seed"
  shows "\<exists>entries tip. BuildChain records seed (NewEd25519Signer ed priv) = Inr entries \<and>
    TipHash entries = Some tip \<and>
    verifyChainReturnTip ed (ToLogEntries entries) (ed_public ed priv) = Inr tip"
proof -
  obtain es where es: "BuildChain records seed (NewEd25519Signer ed priv) = Inr es"
    using Ed25519_BuildChain_total by blast
  note ok = ed.build_chain_ok [OF assms(1) es assms(2-4)]
  then have ne: "ToLogEntries es \<noteq> []" using assms(2) by auto
  then show ?thesis
    using es BuildChain_tip [OF es assms(2)] ok verifyChain_Inr [OF ne] by auto
qed

theorem honest_chain_verifies_witness:
  "\<exists>entries tip. BuildChain [fixture_record] example_seed (NewEd25519Signer toy_ed25519 ''k'') = Inr entries \<and>
    TipHash entries = Some tip \<and>
    verifyChainReturnTip toy_ed25519 (ToLogEntries entries) (ed_public toy_ed25519 ''k'') = Inr tip"
  by (rule honest_chain_verifies [OF toy_ed25519_correct _ _ example_seed_ok]) (simp_all add: fixture_record_def)

definition verifier_payloads :: "LogEntry list \<Rightarrow> bytes list" where
  "verifier_payloads entries =
     (case GenesisSeedForSchema (traceID (leRecord (hd entries))) (schemaVersion (leRecord (hd entries))) of
        Inl _ \<Rightarrow> [] | Inr seed \<Rightarrow> payloads seed (map leRecord entries))"

lemma chain_tamper:
  assumes "verifyChainReturnTip ed es pub = Inr tip" and "verifyChainReturnTip ed' es' pub' = Inr tip"
    and "length es = length es'" and "\<forall>e \<in> set (es @ es'). valid_record (leRecord e)"
  shows "map leRecord es = map leRecord es' \<or> collision sha256 (verifier_payloads es) (verifier_payloads es')"
proof (cases "es = []")
  case False
  then have ne: "es' \<noteq> []" using assms(3) by auto
  obtain s where s: "chain_ok ed pub s es" "tip = tip_of s es" using assms(1) verifyChain_Inr [OF False] by auto
  obtain s' where s': "chain_ok ed' pub' s' es'" "tip = tip_of s' es'" using assms(2) verifyChain_Inr [OF ne] by auto
  have vp: "verifier_payloads es = payloads s (map leRecord es)" "verifier_payloads es' = payloads s' (map leRecord es')"
    using s(1) s'(1) by (simp_all add: chain_ok_def verifier_payloads_def)
  have "length s = 32" "length s' = 32"
    using s(1) s'(1) GenesisSeedForSchema_length by (auto simp: chain_ok_def)
  moreover have "chain_end sha256 sigPayload s (map leRecord es) = chain_end sha256 sigPayload s' (map leRecord es')"
    using s(2) s'(2) by simp
  ultimately show ?thesis
    using hc.same_end [of "map leRecord es" "map leRecord es'" s s'] assms(3,4) vp
    by (auto simp: list_all_iff)
qed (use assms(3) in simp)

text \<open>C11. A tip hash with its entry count commits to the whole trace: two lists of entries of the same
  length that are accepted with the same tip, under whatever keys, hold the same records in the
  same order, or else the two lists of payloads exhibit a collision of SHA-256.\<close>

theorem chain_tamper_evident:
  assumes "verifyChainReturnTip ed entries pub = Inr tip" and "verifyChainReturnTip ed' entries' pub' = Inr tip"
    and "length entries = length entries'" and "\<forall>e \<in> set (entries @ entries'). valid_record (leRecord e)"
  shows "map leRecord entries = map leRecord entries' \<or>
    collision sha256 (verifier_payloads entries) (verifier_payloads entries')"
  using assms by (rule chain_tamper)

lemma example_verifies: "verifyChainReturnTip toy_ed25519 example_log example_key = Inr example_tip"
  using honest_trace_verifies(1) [OF toy_ed25519_correct example_honest, of "''01010101010101010101010101010101''"]
  by (simp add: example_traces sort_entries_def)
     (simp add: example_log_def example_chain_def ToLogEntries_def fixture_record_def toy_ed25519_def)

theorem chain_tamper_evident_witness:
  "map leRecord example_log = map leRecord (map (relabel (\<lambda>_. [])) example_log) \<or>
    collision sha256 (verifier_payloads example_log) (verifier_payloads (map (relabel (\<lambda>_. [])) example_log))"
  by (rule chain_tamper_evident [of toy_ed25519 _ example_key example_tip toy_ed25519 _ example_key])
     (use example_valid in \<open>auto simp: example_verifies verifyChain_relabel valid_entry_def\<close>)

text \<open>What the chain alone cannot show: every nonempty prefix of an accepted chain is accepted too,
  with the tip of the prefix. Truncation at the end of a trace is left to the checkpoints.\<close>

theorem chain_prefix_accepted:
  assumes "verifyChainReturnTip ed (entries @ removed) pub = Inr tip" and "entries \<noteq> []"
  shows "\<exists>tip'. verifyChainReturnTip ed entries pub = Inr tip'"
proof -
  have ne: "entries @ removed \<noteq> []" and hd: "hd (entries @ removed) = hd entries" using assms(2) by simp_all
  from assms(1) obtain seed where "chain_ok ed pub seed (entries @ removed)"
    using verifyChain_Inr [OF ne] by blast
  then have "chain_ok ed pub seed entries"
    unfolding chain_ok_def hd map_append chain_payloads_append
    by (auto simp: list_all2_append)
  then show ?thesis using verifyChain_Inr [OF assms(2)] by blast
qed

theorem chain_prefix_accepted_witness:
  "\<exists>tip. verifyChainReturnTip toy_ed25519 example_log example_key = Inr tip"
  by (rule chain_prefix_accepted [where removed = "[]" and tip = example_tip])
     (simp_all add: example_verifies, simp add: example_log_def example_chain_def ToLogEntries_def)

section \<open>Reports\<close>

lemma VerifyLog_Inr:
  "VerifyLog ed lf cf pub = Inr r \<longleftrightarrow>
     (\<exists>data cps. readLogEntries lf = Inr data \<and> readCheckpoints cf = Inr cps \<and> r = verify_data ed pub data cps)"
  by (auto simp: VerifyLog_def split: sum.splits)

text \<open>C4. A report has no fatal finding exactly when every trace of the log passed (no repeated sequence
  number, chain accepted), the checkpoints link from the zero hash with valid signatures, and every
  tip of every checkpoint has as many entries in the log as it says and, if the trace is in the
  log, the tip hash that was recomputed from it.\<close>

theorem no_fatal_finding_iff:
  "(\<exists>r. VerifyLog ed logFile checkpointFile pub = Inr r \<and> FatalCount r = 0) \<longleftrightarrow>
   (\<exists>m dups torn cps. readLogEntries logFile = Inr (m, dups, torn) \<and> readCheckpoints checkpointFile = Inr cps \<and>
      list_all (\<lambda>t. trace_tip ed pub m dups t \<noteq> None) (map fst m) \<and>
      linked ZeroPrevCheckpointHash cps \<and>
      list_all (\<lambda>cp. signed_by ed pub (CheckpointSigningPayload cp) (cpSignature cp) \<and>
         list_all (\<lambda>tip. int (length (al_get m (tipTraceID tip))) = tipEntryCount tip \<and>
             (if List.member (map fst m) (tipTraceID tip)
              then trace_tip ed pub m dups (tipTraceID tip) = Some (tipHash tip) else True))
           (slice_list (cpTraceTips cp))) cps)"
  unfolding VerifyLog_Inr
  by (auto simp: FatalCount_verify_data log_sound_def list_all_iff split: if_splits) blast+

lemma Status_prefix:
  "take 10 (StatusLine r) = (if FatalCount r = 0 then ''Status: OK'' else ''Status: FA'')"
  by (simp add: StatusLine_def Let_def)

text \<open>\<open>StatusLine\<close> says OK exactly when nothing fatal was found, and the bare OK exactly when
  nothing at all was found; its wording never hides an advisory finding.\<close>

theorem StatusLine_decided_by_FatalCount:
  "(take 10 (StatusLine r) = ''Status: OK'') = (FatalCount r = 0) \<and>
   (StatusLine r = ''Status: OK'') = (Errors r = [])"
proof
  show "(take 10 (StatusLine r) = ''Status: OK'') = (FatalCount r = 0)"
    unfolding Status_prefix by simp
  have le: "FatalCount r \<le> length (Errors r)" by (simp add: FatalCount_def)
  have "FatalCount r = 0 \<and> length (Errors r) - FatalCount r = 0 \<longleftrightarrow> Errors r = []"
    using le by (auto simp: FatalCount_def)
  then show "(StatusLine r = ''Status: OK'') = (Errors r = [])"
    by (auto simp: StatusLine_def Let_def)
qed

text \<open>C2. Files written by an honest exporter verify without any finding: a log whose traces, in any
  interleaving, come from \<open>BuildChain\<close>, under the checkpoints of any run of the accumulator (with
  failed writes, drops and trims) over tips of those traces, gives the status OK and counts every
  trace and checkpoint once.\<close>

theorem honest_log_verifies:
  assumes "ed25519_correct ed"
    and "\<forall>t \<in> logged_traces log. honest_trace ed priv t (trace_entries log t) (tip t)"
    and "\<forall>e \<in> set log. valid_entry e \<and> short_line (MarshalLogEntry e)"
    and "acc_step\<^sup>*\<^sup>* (acc_start (NewEd25519Signer ed priv) 0 ZeroPrevCheckpointHash) s"
    and "\<forall>x \<in> set (runAdded s). tipTraceID x \<in> logged_traces log \<and> tipHash x = tip (tipTraceID x) \<and>
      tipEntryCount x = int (length (trace_entries log (tipTraceID x)))"
    and "\<forall>c \<in> set (runCommitted s). valid_checkpoint c \<and> short_line (Marshal_Checkpoint c)"
  shows "\<exists>r. VerifyLog ed (Content (log_file log)) (Content (checkpoint_file (runCommitted s))) (ed_public ed priv) = Inr r \<and>
    Errors r = [] \<and> StatusLine r = ''Status: OK'' \<and>
    TracesProcessed r = card (logged_traces log) \<and> CheckpointsProcessed r = length (runCommitted s)"
proof -
  let ?r = "verify_data ed (ed_public ed priv) (log_data_of log None) (runCommitted s)"
  note hr = honest_report [OF assms(1,2) acc_inv_reachable [OF assms(4)] assms(5)]
  have "VerifyLog ed (Content (log_file log)) (Content (checkpoint_file (runCommitted s))) (ed_public ed priv) = Inr ?r"
    using readLogEntries_written [OF assms(3)] readCheckpoints_written [OF assms(6)] by (simp add: VerifyLog_def)
  moreover have "StatusLine ?r = ''Status: OK''"
    using hr(1) by (simp add: StatusLine_def FatalCount_def)
  ultimately show ?thesis using hr by blast
qed

theorem honest_log_verifies_witness:
  "\<exists>(s :: acc_run) r. VerifyLog toy_ed25519 (Content (log_file example_log)) (Content (checkpoint_file (runCommitted s)))
      (ed_public toy_ed25519 example_key) = Inr r \<and> StatusLine r = ''Status: OK'' \<and> CheckpointsProcessed r = 1"
proof -
  obtain s where s: "acc_step\<^sup>*\<^sup>* (acc_start example_signer 0 ZeroPrevCheckpointHash) s"
     "runAdded s = [\<lparr>tipTraceID = ''01010101010101010101010101010101'', tipHash = example_tip, tipEntryCount = 1\<rparr>]"
     "length (runCommitted s) = 1"
     "\<forall>c \<in> set (runCommitted s). valid_checkpoint c \<and> short_line (Marshal_Checkpoint c)"
    using example_run by blast
  have len: "length (trace_entries example_log ''01010101010101010101010101010101'') = 1"
    by (simp add: example_log_def example_chain_def ToLogEntries_def fixture_record_def)
  have tips: "\<forall>x \<in> set (runAdded s). tipTraceID x \<in> logged_traces example_log \<and> tipHash x = example_tip \<and>
      tipEntryCount x = int (length (trace_entries example_log (tipTraceID x)))"
    using s(2) example_traces len by simp
  have valid: "\<forall>e \<in> set example_log. valid_entry e \<and> short_line (MarshalLogEntry e)"
    using example_valid example_short by blast
  have honest: "\<forall>t \<in> logged_traces example_log.
      honest_trace toy_ed25519 example_key t (trace_entries example_log t) example_tip"
    using example_honest by blast
  obtain r where "VerifyLog toy_ed25519 (Content (log_file example_log)) (Content (checkpoint_file (runCommitted s)))
      (ed_public toy_ed25519 example_key) = Inr r" "StatusLine r = ''Status: OK''" "CheckpointsProcessed r = 1"
    using honest_log_verifies [OF toy_ed25519_correct honest valid s(1) [unfolded example_signer_def] tips s(4)] s(3)
    by auto
  then show ?thesis by (intro exI [of _ s] exI [of _ r]) simp
qed

section \<open>Edited files\<close>

text \<open>Editing the \<open>key_id\<close> of any log entries, which no signature covers, never adds, removes or
  changes a fatal finding, whatever the rest of the log and the checkpoints look like.\<close>

theorem key_id_edits_never_fatal:
  "FatalCount (verify_data ed pub (relabel_data f data) cps) = FatalCount (verify_data ed pub data cps) \<and>
   filter (\<lambda>e. veSeverity e \<noteq> SeverityAdvisory) (Errors (verify_data ed pub (relabel_data f data) cps)) =
     filter (\<lambda>e. veSeverity e \<noteq> SeverityAdvisory) (Errors (verify_data ed pub data cps))"
  using fatal_relabel [of ed pub f data cps] by (simp add: FatalCount_fatal fatal_def)

lemma verify_data_torn:
  "verify_data ed pub (m, dups, Some n) cps = (verify_data ed pub (m, dups, None) cps)\<lparr>Errors :=
     Errors (verify_data ed pub (m, dups, None) cps) @
     [verify_error [] KindTornTrailingLine (TornTailDetail n) SeverityAdvisory]\<rparr>"
  by (simp add: verify_data_def Let_def)

text \<open>A log whose last line was cut short by a crash gives the report of the log without that line,
  plus one advisory finding that names the line; nothing fatal is added and nothing before it is
  lost. The text before the cut may end anywhere in the line.\<close>

theorem torn_last_line_is_advisory:
  assumes "\<forall>e \<in> set log. valid_entry e \<and> short_line (MarshalLogEntry e)"
    and "MarshalLogEntry e = t @ rest" and "t \<noteq> []" and "rest \<noteq> []" and "short_line t"
    and "VerifyLog ed (Content (log_file log)) checkpointFile pub = Inr r"
  shows "VerifyLog ed (Content (log_file log @ t)) checkpointFile pub = Inr (r\<lparr>Errors := Errors r @
      [verify_error [] KindTornTrailingLine (TornTailDetail (length log + 1)) SeverityAdvisory]\<rparr>)"
proof -
  obtain m dups where d: "log_data_of log None = (m, dups, None)"
      "log_data_of log (Some (length log + 1)) = (m, dups, Some (length log + 1))"
    by (auto simp: log_data_of_def Let_def)
  from assms(6) readLogEntries_written [OF assms(1)] obtain cps where
    c: "readCheckpoints checkpointFile = Inr cps" "r = verify_data ed pub (m, dups, None) cps"
    by (auto simp: VerifyLog_Inr d(1))
  have "readLogEntries (Content (log_file log @ t)) = Inr (m, dups, Some (length log + 1))"
    using readLogEntries_torn [OF assms(1,3,2,4,5)] unfolding d(2) .
  then show ?thesis using c by (simp add: VerifyLog_def verify_data_torn)
qed

theorem torn_last_line_is_advisory_witness:
  "\<exists>r. VerifyLog toy_ed25519 (Content (log_file example_log @ butlast (MarshalLogEntry (hd example_log)))) NotExist
      (ed_public toy_ed25519 example_key) = Inr r \<and> FatalCount r = 0 \<and> length (Errors r) = 1"
proof -
  let ?e = "hd example_log"
  have in_log: "?e \<in> set example_log" by (simp add: example_log_def example_chain_def ToLogEntries_def)
  have valid: "\<forall>e \<in> set example_log. valid_entry e \<and> short_line (MarshalLogEntry e)"
    using example_valid example_short by blast
  have split: "MarshalLogEntry ?e = butlast (MarshalLogEntry ?e) @ [last (MarshalLogEntry ?e)]"
    using log_line(5) [of ?e] by simp
  have ne: "butlast (MarshalLogEntry ?e) \<noteq> []"
  proof
    assume "butlast (MarshalLogEntry ?e) = []"
    with split have "MarshalLogEntry ?e = [last (MarshalLogEntry ?e)]" by simp
    then have "hd (MarshalLogEntry ?e) = last (MarshalLogEntry ?e)" by (metis list.sel(1))
    then show False by (simp add: log_line(2,3))
  qed
  have "short_line (butlast (MarshalLogEntry ?e))"
    using example_short [OF in_log] by (simp add: short_line_def)
  moreover have honest: "\<forall>t \<in> logged_traces example_log.
      honest_trace toy_ed25519 example_key t (trace_entries example_log t) example_tip"
    using example_honest by blast
  obtain r where r: "VerifyLog toy_ed25519 (Content (log_file example_log)) NotExist (ed_public toy_ed25519 example_key) = Inr r"
      "Errors r = []"
    using honest_report(1) [OF toy_ed25519_correct honest acc_inv_start [of _ 0]]
      readLogEntries_written [OF valid] by (auto simp: VerifyLog_def readCheckpoints_def acc_start_def)
  ultimately show ?thesis
    using torn_last_line_is_advisory [OF valid split ne _ _ r(1)] r(2)
    by (simp add: FatalCount_def verify_error_def)
qed

text \<open>Anywhere but at the end, a line that does not parse is a hard error that names the line: the
  log is not verified at all, so garbage in the middle is never skipped.\<close>

theorem unparseable_middle_line_is_an_error:
  assumes "\<forall>x \<in> set (before @ e # after). valid_entry x \<and> short_line (MarshalLogEntry x)"
    and "UnmarshalLogEntry bad = None" and "TrimSpace bad = bad" and "bad \<noteq> []" and "scannable maxScanTokenSize bad"
  shows "VerifyLog ed (Content (log_file before @ bad @ LF # log_file (e # after))) checkpointFile pub =
    Inl (UnmarshalLogLine (length before + 1))"
proof -
  let ?ls = "map MarshalLogEntry before @ bad # map MarshalLogEntry (e # after)"
  have eq: "log_file before @ bad @ LF # log_file (e # after) = terminate_lines ?ls @ []" by simp
  have "\<forall>l \<in> set ?ls. scannable maxScanTokenSize l \<and> TrimSpace l = l \<and> l \<noteq> []"
    using assms scannable_log_line log_line(4,5) by auto
  from raw_lines_terminated [OF this, of "[]"]
  have "raw_lines (terminate_lines ?ls @ []) = ?ls" "\<not> snd (scan_lines maxScanTokenSize (terminate_lines ?ls @ []))"
    by (simp_all add: scannable_def maxScanTokenSize_def)
  moreover have "parse_log_lines 0 ?ls [] = Inl (UnmarshalLogLine (length before + 1))"
    using parse_log_lines_ok [of before 0 "bad # map MarshalLogEntry (e # after)" "[]"] assms(1,2) by simp
  ultimately show ?thesis unfolding eq by (simp add: VerifyLog_def readLogEntries_def)
qed

lemma bad_line: "UnmarshalLogEntry ''oops!'' = None" "TrimSpace ''oops!'' = ''oops!''"
  by (simp_all add: UnmarshalLogEntry_def json_Unmarshal_def parse_json_def numeral_eq_Suc scan_num_def
      scan_int_part_def is_digit_def Let_def TrimSpace_id skip_ws_def is_ws_def)

theorem unparseable_middle_line_is_an_error_witness:
  "VerifyLog toy_ed25519 (Content (log_file [] @ ''oops!'' @ LF # log_file example_log)) NotExist example_key =
     Inl (UnmarshalLogLine 1)"
proof -
  obtain e es where e: "example_log = e # es" by (simp add: example_log_def example_chain_def ToLogEntries_def)
  show ?thesis
    unfolding e using unparseable_middle_line_is_an_error [of "[]" e es "''oops!''"] bad_line
      example_valid example_short e by (simp add: scannable_def maxScanTokenSize_def)
qed

text \<open>Deleting, truncating or extending a checkpointed trace is fatal: if some checkpoint tip says a
  number of entries the log does not hold for that trace (none at all, when the trace was removed),
  the report fails.\<close>

theorem entry_count_change_is_fatal:
  assumes "VerifyLog ed logFile checkpointFile pub = Inr r"
    and "readLogEntries logFile = Inr (m, dups, torn)" and "readCheckpoints checkpointFile = Inr cps"
    and "cp \<in> set cps" and "cpTraceTips cp = Some tips" and "tip \<in> set tips"
    and "int (length (al_get m (tipTraceID tip))) \<noteq> tipEntryCount tip"
  shows "FatalCount r > 0 \<and> take 10 (StatusLine r) = ''Status: FA''"
proof -
  have r: "r = verify_data ed pub (m, dups, torn) cps"
    using assms(1-3) by (auto simp: VerifyLog_Inr)
  have "\<not> log_sound ed pub (m, dups, torn) cps"
    using assms(4-7) by (force simp: log_sound_def)
  then have "FatalCount r \<noteq> 0" unfolding r FatalCount_verify_data .
  then show ?thesis by (simp add: Status_prefix)
qed

theorem entry_count_change_is_fatal_witness:
  "\<exists>r. VerifyLog toy_ed25519 NotExist (Content (checkpoint_file [fixture_checkpoint])) ''k'' = Inr r \<and> FatalCount r > 0"
proof -
  have short: "short_line (Marshal_Checkpoint fixture_checkpoint)"
    by (simp add: short_line_def maxScanTokenSize_def Marshal_Checkpoint_def Checkpoint_json_def
        fixture_checkpoint_def TraceTip_json_def fixture_simps ZeroPrev_hex esc_plain plain_hex_Encode)
  then have cps: "readCheckpoints (Content (checkpoint_file [fixture_checkpoint])) = Inr [fixture_checkpoint]"
    using valid_fixture_checkpoint by (intro readCheckpoints_written) simp
  have log: "readLogEntries NotExist = Inr ([], [], None)" by (simp add: readLogEntries_def)
  obtain r where r: "VerifyLog toy_ed25519 NotExist (Content (checkpoint_file [fixture_checkpoint])) ''k'' = Inr r"
    using cps log by (simp add: VerifyLog_def)
  from entry_count_change_is_fatal [OF r log cps, of fixture_checkpoint] r
  show ?thesis by (simp add: fixture_checkpoint_def)
qed

text \<open>C3. A checkpointed trace cannot be rewritten: two logs that both pass against the same checkpoint
  file hold the same records, in the same order, for every trace with entries that a checkpoint
  covers, or else their payloads exhibit a collision of SHA-256.\<close>

theorem covered_trace_is_fixed:
  assumes "VerifyLog ed logFile checkpointFile pub = Inr r" and "FatalCount r = 0"
    and "VerifyLog ed logFile' checkpointFile pub = Inr r'" and "FatalCount r' = 0"
    and "readLogEntries logFile = Inr (m, dups, torn)" and "readLogEntries logFile' = Inr (m', dups', torn')"
    and "readCheckpoints checkpointFile = Inr cps" and "cp \<in> set cps" and "cpTraceTips cp = Some tips"
    and "tip \<in> set tips" and "0 < tipEntryCount tip"
    and "\<forall>e \<in> set (al_get m (tipTraceID tip) @ al_get m' (tipTraceID tip)). valid_record (leRecord e)"
  shows "map leRecord (al_get m (tipTraceID tip)) = map leRecord (al_get m' (tipTraceID tip)) \<or>
    collision sha256 (verifier_payloads (al_get m (tipTraceID tip))) (verifier_payloads (al_get m' (tipTraceID tip)))"
proof -
  have r: "r = verify_data ed pub (m, dups, torn) cps" "r' = verify_data ed pub (m', dups', torn') cps"
    using assms by (auto simp: VerifyLog_Inr)
  have tip: "tip \<in> set (slice_list (cpTraceTips cp))" using assms(9,10) by simp
  have passed: "int (length (al_get n (tipTraceID tip))) = tipEntryCount tip \<and>
      verifyChainReturnTip ed (al_get n (tipTraceID tip)) pub = Inr (tipHash tip)"
    if sound: "log_sound ed pub (n, d, t) cps" for n d t
  proof -
    have cnt: "int (length (al_get n (tipTraceID tip))) = tipEntryCount tip"
      and hash: "tipTraceID tip \<in> fst ` set n \<Longrightarrow> trace_tip ed pub n d (tipTraceID tip) = Some (tipHash tip)"
      using sound assms(8) tip by (auto simp: log_sound_def)
    have "al_get n (tipTraceID tip) \<noteq> []" using cnt assms(11) by auto
    then have "trace_tip ed pub n d (tipTraceID tip) = Some (tipHash tip)" by (intro hash al_get_key)
    then show ?thesis using cnt by (auto simp: trace_tip_def split: if_splits sum.splits)
  qed
  have "log_sound ed pub (m, dups, torn) cps" "log_sound ed pub (m', dups', torn') cps"
    using assms(2,4) unfolding r FatalCount_verify_data .
  note p = passed [OF this(1)] passed [OF this(2)]
  show ?thesis
    by (rule chain_tamper [OF p(1) [THEN conjunct2] p(2) [THEN conjunct2] _ assms(12)]) (use p in simp)
qed

lemma example_data:
  obtains m where "readLogEntries (Content (log_file example_log)) = Inr (m, [], None)"
    and "al_get m ''01010101010101010101010101010101'' = example_log"
proof -
  have valid: "\<forall>e \<in> set example_log. valid_entry e \<and> short_line (MarshalLogEntry e)"
    using example_valid example_short by blast
  have "\<forall>t \<in> logged_traces example_log. \<not> repeats (sort_entries (trace_entries example_log t))"
    using honest_trace_verifies(2) [OF toy_ed25519_correct example_honest] by blast
  then obtain m where m: "log_data_of example_log None = (m, [], None)"
      "\<And>t. al_get m t = sort_entries (trace_entries example_log t)"
    using honest_data by metis
  have "sort_entries (trace_entries example_log ''01010101010101010101010101010101'') = example_log"
    by (simp add: example_log_def example_chain_def ToLogEntries_def fixture_record_def sort_entries_def)
  then show thesis using that [of m] m readLogEntries_written [OF valid] by simp
qed

lemma example_report:
  obtains s r where "VerifyLog toy_ed25519 (Content (log_file example_log)) (Content (checkpoint_file (runCommitted (s :: acc_run))))
      (ed_public toy_ed25519 example_key) = Inr r" "FatalCount r = 0"
    "readCheckpoints (Content (checkpoint_file (runCommitted s))) = Inr (runCommitted s)"
    "covered_tips (runCommitted s) =
       [\<lparr>tipTraceID = ''01010101010101010101010101010101'', tipHash = example_tip, tipEntryCount = 1\<rparr>]"
proof -
  obtain s where s: "acc_step\<^sup>*\<^sup>* (acc_start example_signer 0 ZeroPrevCheckpointHash) s"
     "runAdded s = [\<lparr>tipTraceID = ''01010101010101010101010101010101'', tipHash = example_tip, tipEntryCount = 1\<rparr>]"
     "covered_tips (runCommitted s) =
       [\<lparr>tipTraceID = ''01010101010101010101010101010101'', tipHash = example_tip, tipEntryCount = 1\<rparr>]"
     "\<forall>c \<in> set (runCommitted s). valid_checkpoint c \<and> short_line (Marshal_Checkpoint c)"
    using example_run by blast
  have "length (trace_entries example_log ''01010101010101010101010101010101'') = 1"
    by (simp add: example_log_def example_chain_def ToLogEntries_def fixture_record_def)
  then have tips: "\<forall>x \<in> set (runAdded s). tipTraceID x \<in> logged_traces example_log \<and> tipHash x = example_tip \<and>
      tipEntryCount x = int (length (trace_entries example_log (tipTraceID x)))"
    using s(2) example_traces by simp
  have valid: "\<forall>e \<in> set example_log. valid_entry e \<and> short_line (MarshalLogEntry e)"
    using example_valid example_short by blast
  have honest: "\<forall>t \<in> logged_traces example_log.
      honest_trace toy_ed25519 example_key t (trace_entries example_log t) example_tip"
    using example_honest by blast
  have cps: "readCheckpoints (Content (checkpoint_file (runCommitted s))) = Inr (runCommitted s)"
    by (rule readCheckpoints_written [OF s(4)])
  note inv = acc_inv_reachable [OF s(1) [unfolded example_signer_def]]
  have "Errors (verify_data toy_ed25519 (ed_public toy_ed25519 example_key) (log_data_of example_log None) (runCommitted s)) = []"
    by (rule honest_report(1) [OF toy_ed25519_correct honest inv tips])
  then show thesis
    using that [of s] readLogEntries_written [OF valid] cps s(3) by (simp add: VerifyLog_def FatalCount_def)
qed

theorem covered_trace_is_fixed_witness:
  "\<exists>m. readLogEntries (Content (log_file example_log)) = Inr (m, [], None) \<and>
     (map leRecord (al_get m ''01010101010101010101010101010101'') = [fixture_record] \<or>
      collision sha256 (verifier_payloads example_log) (verifier_payloads example_log))"
proof -
  obtain s r where r: "VerifyLog toy_ed25519 (Content (log_file example_log)) (Content (checkpoint_file (runCommitted (s :: acc_run))))
      (ed_public toy_ed25519 example_key) = Inr r" "FatalCount r = 0"
    "readCheckpoints (Content (checkpoint_file (runCommitted s))) = Inr (runCommitted s)"
    "covered_tips (runCommitted s) =
       [\<lparr>tipTraceID = ''01010101010101010101010101010101'', tipHash = example_tip, tipEntryCount = 1\<rparr>]"
    by (rule example_report)
  obtain m where m: "readLogEntries (Content (log_file example_log)) = Inr (m, [], None)"
      "al_get m ''01010101010101010101010101010101'' = example_log"
    by (rule example_data)
  obtain cp tips where cp: "cp \<in> set (runCommitted s)" "cpTraceTips cp = Some tips"
      "\<lparr>tipTraceID = ''01010101010101010101010101010101'', tipHash = example_tip, tipEntryCount = 1\<rparr> \<in> set tips"
  proof -
    have "\<lparr>tipTraceID = ''01010101010101010101010101010101'', tipHash = example_tip, tipEntryCount = 1\<rparr>
        \<in> set (covered_tips (runCommitted s))" by (simp add: r(4))
    then show thesis using that by (auto simp: covered_tips_def split: option.splits) metis
  qed
  from covered_trace_is_fixed [OF r(1,2,1,2) m(1) m(1) r(3) cp] m example_valid
  show ?thesis
    by (auto simp: valid_entry_def) (simp add: example_log_def example_chain_def ToLogEntries_def)
qed

lemma repeats_iff_distinct:
  "sorted (map (\<lambda>e. seqInTrace (leRecord e)) es) \<Longrightarrow>
     repeats es \<longleftrightarrow> \<not> distinct (map (\<lambda>e. seqInTrace (leRecord e)) es)"
proof (induction es rule: repeats.induct)
  case (1 d e es)
  then have le: "\<forall>x \<in> set (e # es). seqInTrace (leRecord e) \<le> seqInTrace (leRecord x)" by auto
  have "seqInTrace (leRecord d) < seqInTrace (leRecord e) \<Longrightarrow>
      seqInTrace (leRecord d) \<notin> (\<lambda>x. seqInTrace (leRecord x)) ` set (e # es)"
    using le by force
  with 1 show ?case by (auto simp: order_le_less)
qed simp_all

lemma sort_entries_repeats:
  "repeats (sort_entries es) \<longleftrightarrow> \<not> distinct (map (\<lambda>e. seqInTrace (leRecord e)) es)"
proof -
  have "repeats (sort_entries es) \<longleftrightarrow> \<not> distinct (map (\<lambda>e. seqInTrace (leRecord e)) (sort_entries es))"
    by (rule repeats_iff_distinct) (simp add: sort_entries_def)
  also have "mset (map (\<lambda>e. seqInTrace (leRecord e)) (sort_entries es)) =
      mset (map (\<lambda>e. seqInTrace (leRecord e)) es)" by (simp add: sort_entries_def)
  then have "distinct (map (\<lambda>e. seqInTrace (leRecord e)) (sort_entries es)) \<longleftrightarrow>
      distinct (map (\<lambda>e. seqInTrace (leRecord e)) es)" by (rule mset_eq_imp_distinct_iff)
  finally show ?thesis .
qed

lemma mapped_pair:
  "(t, v) \<in> set g \<Longrightarrow> P (f v) \<Longrightarrow>
     t \<in> set (map fst (filter (\<lambda>(i, e). P e) (map (\<lambda>(i, e). (i, f e)) g))) \<and>
     t \<in> fst ` set (map (\<lambda>(i, e). (i, f e)) g)"
  by (induction g) auto

lemma log_data_duplicates:
  assumes "t \<in> logged_traces log" and "repeats (sort_entries (trace_entries log t))"
  shows "\<exists>m dups. log_data_of log torn = (m, dups, torn) \<and> t \<in> set dups \<and> t \<in> fst ` set m"
proof -
  let ?g = "al_group (\<lambda>e. traceID (leRecord e)) log"
  have "t \<in> fst ` set ?g" unfolding keys_al_group using assms(1) by (simp only: logged_traces_def)
  then obtain x where x: "t = fst x" "x \<in> set ?g" by (rule imageE)
  then have es: "(t, snd x) \<in> set ?g" by (simp only: prod.collapse)
  have "repeats (sort_entries (snd x))" using map_of_al_group [OF es] assms(2) by simp
  from mapped_pair [where P = repeats and f = sort_entries, OF es this]
  show ?thesis unfolding log_data_of_def Let_def by blast
qed

text \<open>Copying a log line is fatal: a log that holds two entries with the same trace id and sequence
  number, anywhere in the file, gives a report with a fatal finding for that trace, whatever the
  signatures say.\<close>

theorem repeated_sequence_number_is_fatal:
  assumes "log = p @ d # q @ e # s" and "traceID (leRecord d) = traceID (leRecord e)"
    and "seqInTrace (leRecord d) = seqInTrace (leRecord e)"
    and "\<forall>x \<in> set log. valid_entry x \<and> short_line (MarshalLogEntry x)"
    and "VerifyLog ed (Content (log_file log)) checkpointFile pub = Inr r"
  shows "FatalCount r > 0"
proof -
  let ?t = "traceID (leRecord e)"
  have "?t \<in> logged_traces log" by (simp add: assms(1) logged_traces_def)
  moreover have "repeats (sort_entries (trace_entries log ?t))"
    unfolding sort_entries_repeats using assms(1-3) by simp
  ultimately obtain m dups where d: "log_data_of log None = (m, dups, None)" "?t \<in> set dups" "?t \<in> fst ` set m"
    using log_data_duplicates by blast
  then have "trace_tip ed pub m dups ?t = None" by (simp add: trace_tip_def)
  with d(3) have unsound: "\<not> log_sound ed pub (m, dups, None) cps" for cps
    unfolding log_sound_def prod.case by blast
  obtain cps where "r = verify_data ed pub (m, dups, None) cps"
    using assms(5) readLogEntries_written [OF assms(4)] d(1) by (auto simp: VerifyLog_Inr)
  then have "FatalCount r \<noteq> 0" using unsound by (simp only: FatalCount_verify_data not_False_eq_True)
  then show ?thesis by simp
qed

theorem repeated_sequence_number_is_fatal_witness:
  "\<exists>r. VerifyLog toy_ed25519 (Content (log_file (example_log @ example_log))) NotExist example_key = Inr r \<and>
     FatalCount r > 0"
proof -
  obtain e where e: "example_log = [e]" by (simp add: example_log_def example_chain_def ToLogEntries_def)
  have valid: "\<forall>x \<in> set [e, e]. valid_entry x \<and> short_line (MarshalLogEntry x)"
  proof -
    have "e \<in> set example_log" by (simp add: e)
    then show ?thesis using example_valid example_short by auto
  qed
  obtain r where r: "VerifyLog toy_ed25519 (Content (log_file [e, e])) NotExist example_key = Inr r"
    unfolding VerifyLog_def readLogEntries_written [OF valid] by (simp add: readCheckpoints_def)
  have "FatalCount r > 0"
    by (rule repeated_sequence_number_is_fatal [where p = "[]" and q = "[]" and s = "[]", OF _ refl refl valid r]) simp
  with r show ?thesis unfolding e by (intro exI [of _ r]) simp
qed

lemma split_log_file: "split_lines (log_file es) = map MarshalLogEntry es"
  using split_terminated [of "map MarshalLogEntry es" "[]"] log_line(1) by simp

text \<open>C39. The verifier's 4 MiB line limit is a limit on what can be verified: one entry whose line is
  longer makes \<open>VerifyLog\<close> return an error for the whole log, although the exporter writes entries
  without a limit; nothing about the other traces is reported.\<close>

theorem overlong_entry_blocks_verification:
  assumes "e \<in> set log" and "\<not> short_line (MarshalLogEntry e)"
  shows "VerifyLog ed (Content (log_file log)) checkpointFile pub = Inl ScanLog"
proof -
  have "snd (scan_lines maxScanTokenSize (log_file log))"
    using assms by (auto simp: scan_lines_def Let_def split_log_file short_line_def not_less)
  then show ?thesis by (simp add: VerifyLog_def readLogEntries_def)
qed

lemma long_name: "n \<le> length (MarshalLogEntry (fixture_entry\<lparr>leRecord := fixture_record\<lparr>spanName := replicate n CHR ''a''\<rparr>\<rparr>))"
proof -
  have esc: "esc (replicate n CHR ''a'') = replicate n CHR ''a''"
    by (rule esc_safe) (simp add: list_all_iff safe_char_def)
  show ?thesis
    by (simp add: fixture_entry_def MarshalLogEntry_def LogEntry_json_def AuditRecord_json_def currentRecord_json_def
        legacyV1V2Record_json_def record_json_def esc)
qed

theorem overlong_entry_blocks_verification_witness:
  "VerifyLog toy_ed25519 (Content (log_file
      [fixture_entry, fixture_entry\<lparr>leRecord := fixture_record\<lparr>spanName := replicate maxScanTokenSize CHR ''a''\<rparr>\<rparr>]))
     NotExist ''k'' = Inl ScanLog"
  by (rule overlong_entry_blocks_verification
        [of "fixture_entry\<lparr>leRecord := fixture_record\<lparr>spanName := replicate maxScanTokenSize CHR ''a''\<rparr>\<rparr>"])
     (use long_name [of maxScanTokenSize] in \<open>simp_all add: short_line_def not_less\<close>)

end
