(* ===== verification/Report_Json.thy ===== *)
theory Report_Json
  imports Verify_Log
begin

text \<open>
  The report as JSON, as \<open>encoding/json\<close> writes the exported fields of \<open>Report\<close> and \<open>VerifyError\<close>
  (verify.go) under the settings of \<open>run\<close> (main.go), and what a program reads from it. The texts of a
  report come out of the decoders of the two files, which only yield UTF-8, so nothing is lost.
\<close>

section \<open>Encoding\<close>

definition VerifyError_json :: "(detail \<Rightarrow> bytes) \<Rightarrow> VerifyError \<Rightarrow> json" where
  "VerifyError_json detail_text e =
     JObj [(''TraceID'', json_string (veTraceID e)), (''Kind'', json_string (veKind e)),
       (''Detail'', json_string (detail_text (veDetail e))), (''Severity'', json_string (veSeverity e))]"

text \<open>\<open>Errors\<close> is a nil slice when there is no finding; \<open>OtherClaimedKeyIDs\<close> is left out when empty.\<close>

definition Report_json :: "(detail \<Rightarrow> bytes) \<Rightarrow> Report \<Rightarrow> json" where
  "Report_json detail_text r =
     JObj ([(''TracesProcessed'', JNum (FormatInt (int (TracesProcessed r)))),
        (''CheckpointsProcessed'', JNum (FormatInt (int (CheckpointsProcessed r)))),
        (''Errors'', if Errors r = [] then JNull else JArr (map (VerifyError_json detail_text) (Errors r)))] @
       (if OtherClaimedKeyIDs r = [] then []
        else [(''OtherClaimedKeyIDs'', JArr (map json_string (OtherClaimedKeyIDs r)))]))"

text \<open>\<open>SetIndent("", "  ")\<close> and \<open>Encode\<close>, which ends the document with a line feed.\<close>

definition encode_report :: "(detail \<Rightarrow> bytes) \<Rightarrow> Report \<Rightarrow> bytes" where
  "encode_report detail_text r = layout True 0 (Report_json detail_text r) @ [LF]"

lemma chr_one: "chr 49 = CHR ''1''"
  by (simp add: chr_eq_iff)

lemma empty_report_text:
  "encode_report dt \<lparr>TracesProcessed = 1, CheckpointsProcessed = 1, Errors = [], OtherClaimedKeyIDs = []\<rparr> =
     ''{'' @ [LF] @ ''  '' @ DQ # ''TracesProcessed'' @ DQ # '': 1,'' @ [LF] @
     ''  '' @ DQ # ''CheckpointsProcessed'' @ DQ # '': 1,'' @ [LF] @
     ''  '' @ DQ # ''Errors'' @ DQ # '': null'' @ [LF] @ ''}'' @ [LF]"
  by (simp add: encode_report_def Report_json_def brk_def colon_def FormatInt_def FormatUint.simps numeral_2_eq_2
      digit_char_def chr_one)

lemma parse_report: "parse_json (encode_report dt r) = Some (Report_json dt r)"
  unfolding encode_report_def
proof (rule parse_layout)
  have "wf_json (Suc d) (VerifyError_json dt e)" for d e
    unfolding VerifyError_json_def by (rule wf_object) (auto simp: name_char_def)
  from this [of 9997] have "wf_json 9999 (JArr (map (VerifyError_json dt) es))" for es by auto
  moreover have "wf_json 9999 (JArr (map json_string ids))" for ids by auto
  moreover have "wf_json d (JNum (FormatInt i))" "wf_json d JNull" for d i by auto
  ultimately show "wf_json max_nesting (Report_json dt r)"
    unfolding Report_json_def nesting_3 by (intro wf_object) (simp add: name_char_def del: wf_json.simps)
qed

section \<open>What a program reads from it\<close>

record json_finding =
  jfTraceID :: bytes
  jfKind :: bytes
  jfDetail :: bytes
  jfSeverity :: bytes

definition json_finding_fields :: "json_finding fields" where
  "json_finding_fields =
     [(''TraceID'', string_field jfTraceID_update), (''Kind'', string_field jfKind_update),
      (''Detail'', string_field jfDetail_update), (''Severity'', string_field jfSeverity_update)]"

definition json_finding_zero :: json_finding where
  "json_finding_zero = \<lparr>jfTraceID = [], jfKind = [], jfDetail = [], jfSeverity = []\<rparr>"

record json_findings =
  jfErrors :: "json_finding list option"

definition json_findings_fields :: "json_findings fields" where
  "json_findings_fields = [(''Errors'', slice_field json_finding_fields json_finding_zero jfErrors_update)]"

definition read_findings :: "bytes \<Rightarrow> json_findings option" where
  "read_findings s = json_Unmarshal json_findings_fields \<lparr>jfErrors = None\<rparr> s"

text \<open>The finding a program sees; only the text of its detail can contain bytes that are not UTF-8.\<close>

definition seen :: "(detail \<Rightarrow> bytes) \<Rightarrow> VerifyError \<Rightarrow> json_finding" where
  "seen detail_text e =
     \<lparr>jfTraceID = veTraceID e, jfKind = veKind e, jfDetail = unq (esc (detail_text (veDetail e))), jfSeverity = veSeverity e\<rparr>"

definition text_fields_valid :: "VerifyError \<Rightarrow> bool" where
  "text_fields_valid e \<longleftrightarrow> valid_utf8 (veTraceID e) \<and> valid_utf8 (veKind e) \<and> valid_utf8 (veSeverity e)"

lemma read_report:
  assumes "list_all text_fields_valid (Errors r)"
  shows "read_findings (encode_report dt r) =
    Some \<lparr>jfErrors = (if Errors r = [] then None else Some (map (seen dt) (Errors r)))\<rparr>"
proof -
  have one: "decode_struct json_finding_fields (VerifyError_json dt e) json_finding_zero = Some (seen dt e)"
    if "e \<in> set (Errors r)" for e
    using that assms
    by (simp add: VerifyError_json_def json_finding_fields_def json_finding_zero_def decode_member name_char_def
        string_field_def seen_def unq_esc text_fields_valid_def list_all_iff del: decode_members.simps(2))
  have all: "decode_list (\<lambda>j. decode_struct json_finding_fields j json_finding_zero) (map (VerifyError_json dt) es) = Some (map (seen dt) es)"
    if "set es \<subseteq> set (Errors r)" for es
    using that one by (induction es) auto
  have skip: "find_field json_findings_fields (unq k) = None"
    if "k \<in> {''TracesProcessed'', ''CheckpointsProcessed'', ''OtherClaimedKeyIDs''}" for k
  proof -
    have "unq k = k" using that by (intro unq_name) (auto simp: name_char_def)
    then show ?thesis using that by (auto simp: find_field_def json_findings_fields_def)
  qed
  have errors: "decode_members json_findings_fields ((''Errors'', v) # kvs) x =
      (case slice_field json_finding_fields json_finding_zero jfErrors_update v x of None \<Rightarrow> None
       | Some x' \<Rightarrow> decode_members json_findings_fields kvs x')" for v kvs x
    by (subst decode_member) (simp_all add: name_char_def json_findings_fields_def)
  show ?thesis
    unfolding read_findings_def json_Unmarshal_def parse_report option.case
    using all [of "Errors r"] skip
    by (auto simp: Report_json_def errors slice_field_def simp del: decode_members.simps(2)
        simp: decode_members.simps(2) [of _ "''TracesProcessed''"] decode_members.simps(2) [of _ "''CheckpointsProcessed''"]
          decode_members.simps(2) [of _ "''OtherClaimedKeyIDs''"])
qed

section \<open>The texts of a report\<close>

lemma decoded_trace_id:
  assumes "UnmarshalLogEntry l = Some e"
  shows "valid_utf8 (traceID (leRecord e))"
proof -
  obtain j where "decode_struct LogEntry_fields j LogEntry_zero = Some e"
    using assms by (auto simp: UnmarshalLogEntry_def json_Unmarshal_def split: option.splits)
  then have "valid_record (leRecord e)"
    by (rule decode_struct_inv [where P = "\<lambda>e. valid_record (leRecord e)", rotated 1])
       (auto simp: LogEntry_fields_def struct_field_def LogEntry_zero_def valid_record_zero dest!: decode_AuditRecord_valid)
  then show ?thesis by (simp add: valid_record_def)
qed

text \<open>Where the trace ids come from: the decoded log entries and the decoded tips.\<close>

lemma parsed_trace_ids:
  "parse_log_lines i lines m = Inr (m', torn) \<Longrightarrow> \<forall>id \<in> fst ` set m. valid_utf8 id \<Longrightarrow> \<forall>id \<in> fst ` set m'. valid_utf8 id"
proof (induction i lines m rule: parse_log_lines.induct)
  case (2 i line lines m)
  show ?case
  proof (cases "UnmarshalLogEntry line")
    case None
    then show ?thesis using "2.prems" by (auto split: if_splits)
  next
    case (Some e)
    then show ?thesis using "2.IH" [OF Some] "2.prems" decoded_trace_id [OF Some] by simp
  qed
qed simp

lemma read_trace_ids:
  assumes "readLogEntries f = Inr (m, dups, torn)" and "t \<in> fst ` set m"
  shows "valid_utf8 t"
proof -
  consider "m = []" | s result where "parse_log_lines 0 (raw_lines s) [] = Inr (result, torn)"
      "m = map (\<lambda>(id, entries). (id, sort_entries entries)) result"
    using assms(1) by (auto simp: readLogEntries_def Let_def split: disk_file.splits if_splits sum.splits)
  then show ?thesis
  proof cases
    case 2
    then have "fst ` set m = fst ` set result" by force
    then show ?thesis using parsed_trace_ids [OF 2(1)] assms(2) by auto
  qed (use assms(2) in simp)
qed

lemma decoded_tip: "decode_struct TraceTip_fields j TraceTip_zero = Some t \<Longrightarrow> valid_utf8 (tipTraceID t)"
  by (rule decode_struct_inv [where P = "\<lambda>t. valid_utf8 (tipTraceID t)"])
     (auto simp: TraceTip_fields_def TraceTip_zero_def string_field_def int_field_def valid_unq split: json.splits)

lemma decoded_tip_list:
  "decode_list (\<lambda>j. decode_struct TraceTip_fields j TraceTip_zero) js = Some ts \<Longrightarrow> list_all (\<lambda>t. valid_utf8 (tipTraceID t)) ts"
  by (erule decode_list_all) (rule decoded_tip)

lemma decoded_tips:
  assumes "Unmarshal_Checkpoint l = Some cp" and "t \<in> set (slice_list (cpTraceTips cp))"
  shows "valid_utf8 (tipTraceID t)"
proof -
  let ?P = "\<lambda>cp. list_all (\<lambda>t. valid_utf8 (tipTraceID t)) (slice_list (cpTraceTips cp))"
  obtain j where "decode_struct Checkpoint_fields j Checkpoint_zero = Some cp"
    using assms(1) by (auto simp: Unmarshal_Checkpoint_def json_Unmarshal_def split: option.splits)
  then have "?P cp"
    by (rule decode_struct_inv [where P = ?P, rotated 1])
       (auto simp: Checkpoint_fields_def Checkpoint_zero_def string_field_def uint64_field_def slice_field_def
         split: json.splits option.splits dest!: decoded_tip_list)
  then show ?thesis using assms(2) by (simp add: list_all_iff)
qed

lemma read_tips:
  assumes "readCheckpoints f = Inr cps" and "cp \<in> set cps" and "t \<in> set (slice_list (cpTraceTips cp))"
  shows "valid_utf8 (tipTraceID t)"
proof -
  have "cp \<in> set cps' \<Longrightarrow> \<exists>l. Unmarshal_Checkpoint l = Some cp" if "parse_checkpoint_lines i lines = Inr cps'" for i lines cps'
    using that
  proof (induction i lines arbitrary: cps' rule: parse_checkpoint_lines.induct)
    case (2 i line lines)
    then show ?case by (cases "Unmarshal_Checkpoint line") (auto simp: bind_res_Inr_iff split: if_splits)
  qed simp
  then have "\<exists>l. Unmarshal_Checkpoint l = Some cp"
    using assms(1,2) by (auto simp: readCheckpoints_def split: disk_file.splits if_splits)
  then show ?thesis using decoded_tips assms(3) by blast
qed

lemma ascii_words [simp]: "list_all (\<lambda>c. byte c < 128) s \<Longrightarrow> valid_utf8 s"
  by (rule plain_valid_utf8)

lemma valid_finding:
  "valid_utf8 t \<Longrightarrow>
     kind \<in> {''duplicate_trace_segment'', ''chain'', ''key_id_field_mismatch'', ''entry_count_mismatch'',
       ''tip_hash_unverifiable'', ''tip_hash_mismatch'', ''checkpoint'', KindTornTrailingLine} \<Longrightarrow>
     severity \<in> {SeverityFatal, SeverityAdvisory} \<Longrightarrow> text_fields_valid (verify_error t kind d severity)"
  by (auto simp: text_fields_valid_def verify_error_def KindTornTrailingLine_def SeverityFatal_def SeverityAdvisory_def)

lemma report_texts:
  assumes "VerifyLog ed logFile checkpointFile pub = Inr r"
  shows "list_all text_fields_valid (Errors r)"
proof -
  obtain m dups torn cps where d: "readLogEntries logFile = Inr (m, dups, torn)" "readCheckpoints checkpointFile = Inr cps"
      "r = verify_data ed pub (m, dups, torn) cps"
    using assms by (auto simp: VerifyLog_def split: sum.splits)
  have "list_all text_fields_valid (trace_errors ed pub m dups t)" if "t \<in> fst ` set m" for t
    using read_trace_ids [OF d(1) that]
    by (auto simp: trace_errors_def key_id_mismatches_def list_all_iff intro!: valid_finding split: sum.splits)
  then have traces: "list_all text_fields_valid (concat (map (trace_errors ed pub m dups) (sort (map fst m))))"
    by (auto simp: list_all_iff)
  have tip: "list_all text_fields_valid (check_tip m st t)" if "valid_utf8 (tipTraceID t)" for st t
    using that by (auto simp: check_tip_def Let_def list_all_iff intro!: valid_finding split: option.splits)
  have "list_all text_fields_valid (verify_checkpoints ed pub m st prev cps')" if "set cps' \<subseteq> set cps" for st prev cps'
    using that
  proof (induction cps' arbitrary: prev)
    case (Cons cp cps')
    have "valid_utf8 []" by simp
    moreover have "list_all text_fields_valid (concat (map (check_tip m st) (slice_list (cpTraceTips cp))))"
      using read_tips [OF d(2), of cp] tip Cons.prems by (auto simp: list_all_iff)
    ultimately show ?case using Cons by (auto intro!: valid_finding split: option.splits)
  qed simp
  moreover have "text_fields_valid (verify_error [] KindTornTrailingLine x SeverityAdvisory)" for x
    by (rule valid_finding) simp_all
  ultimately show ?thesis using traces unfolding d(3) verify_data_def Let_def
    by (auto simp: verify_traces(1) split: option.splits)
qed

end
