(* ===== verification/Cli.thy ===== *)
theory Cli
  imports Report_Json Keys
begin

text \<open>
  \<open>cmd/otel-agent-audit-verify/main.go\<close>: the command line, the exit code, and the report as text with
  its quoting of text that comes from the log. Arguments are parsed as Go's \<open>flag\<close> package does. The
  text of a finding's \<open>Detail\<close> is produced by \<open>fmt\<close> from nested errors, some of the JSON library's own;
  the verifier's model keeps it as data, and here its text is an argument.
\<close>

section \<open>Quoting\<close>

text \<open>\<open>utf8.DecodeRune\<close> for a rune of the width that was found.\<close>

definition rune_value :: "bytes \<Rightarrow> nat" where
  "rune_value s =
     (case map byte s of
        [a] \<Rightarrow> a
      | [a, b] \<Rightarrow> (a - 192) * 64 + (b - 128)
      | [a, b, c] \<Rightarrow> (a - 224) * 4096 + (b - 128) * 64 + (c - 128)
      | [a, b, c, d] \<Rightarrow> (a - 240) * 262144 + (b - 128) * 4096 + (c - 128) * 64 + (d - 128)
      | _ \<Rightarrow> 0)"

text \<open>The low \<open>n\<close> hexadecimal digits of a number.\<close>

fun hex_digits :: "nat \<Rightarrow> nat \<Rightarrow> bytes" where
  "hex_digits 0 v = []"
| "hex_digits (Suc n) v = hex_digits n (v div 16) @ [hex_digit (v mod 16)]"

text \<open>\<open>strconv.appendEscapedRune\<close> with \<open>ASCIIonly\<close>, for one rune.\<close>

definition escape_rune :: "nat \<Rightarrow> bytes" where
  "escape_rune r =
     (if r = 34 \<or> r = 92 then [BSL, chr r]
      else if 32 \<le> r \<and> r < 127 then [chr r]
      else if r = 7 then BSL # ''a''
      else if r = 8 then BSL # ''b''
      else if r = 12 then BSL # ''f''
      else if r = 10 then BSL # ''n''
      else if r = 13 then BSL # ''r''
      else if r = 9 then BSL # ''t''
      else if r = 11 then BSL # ''v''
      else if r < 32 \<or> r = 127 then BSL # ''x'' @ hex_digits 2 r
      else if r < 65536 then BSL # ''u'' @ hex_digits 4 r
      else BSL # ''U'' @ hex_digits 8 r)"

function quote_body :: "bytes \<Rightarrow> bytes" where
  "quote_body [] = []"
| "quote_body (c # s) =
     (let w = utf8_width (c # s) in
      if w = 0 then BSL # ''x'' @ hex_digits 2 (byte c) @ quote_body s
      else escape_rune (rune_value (take w (c # s))) @ quote_body (drop (w - 1) s))"
  by pat_completeness auto
termination by (relation "measure length") auto

declare quote_body.simps(2) [simp del]

definition QuoteToASCII :: "bytes \<Rightarrow> bytes" where
  "QuoteToASCII s = DQ # quote_body s @ [DQ]"

definition maxNoteIDs :: nat where "maxNoteIDs = 10"
definition maxNoteIDBytes :: nat where "maxNoteIDBytes = 128"

definition RuneStart :: "char \<Rightarrow> bool" where
  "RuneStart c \<longleftrightarrow> \<not> (128 \<le> byte c \<and> byte c < 192)"

text \<open>\<open>for cut > 0 && !utf8.RuneStart(s[cut])\<close>.\<close>

fun cut_back :: "bytes \<Rightarrow> nat \<Rightarrow> nat" where
  "cut_back s 0 = 0"
| "cut_back s (Suc n) = (if RuneStart (s ! Suc n) then Suc n else cut_back s n)"

definition quoteUntrusted :: "bytes \<Rightarrow> nat \<Rightarrow> bytes" where
  "quoteUntrusted s maxBytes =
     (let cut = cut_back s maxBytes;
          (shown, omitted) = (if maxBytes < length s then (take cut s, length s - cut) else (s, 0));
          q = QuoteToASCII shown
      in if 0 < omitted then q @ '' [truncated: '' @ FormatUint omitted @ '' more byte(s)]'' else q)"

section \<open>The report as text\<close>

definition errorLabel :: "VerifyError \<Rightarrow> bytes" where
  "errorLabel e =
     (if veTraceID e \<noteq> [] then veTraceID e
      else if veKind e = KindTornTrailingLine then ''audit log''
      else ''checkpoint'')"

definition error_line :: "(detail \<Rightarrow> bytes) \<Rightarrow> VerifyError \<Rightarrow> bytes" where
  "error_line detail_text e =
     ''  ['' @ errorLabel e @ ''] '' @ veKind e @ '' ('' @ veSeverity e @ ''): '' @ detail_text (veDetail e) @ [LF]"

text \<open>The trailing note, line by line.\<close>

definition note_lines :: "Report \<Rightarrow> bytes list" where
  "note_lines report =
     (let n = length (OtherClaimedKeyIDs report);
          shown = (if maxNoteIDs < n then take maxNoteIDs (OtherClaimedKeyIDs report) else OtherClaimedKeyIDs report);
          more = n - length shown
      in if n = 0 then []
         else [''Note: the log claims '' @ FormatUint n @ '' key_id(s) other than the supplied key's:'' @ [LF]] @
           map (\<lambda>id. ''  '' @ quoteUntrusted id maxNoteIDBytes @ [LF]) shown @
           (if 0 < more then
              [''  ... and '' @ FormatUint more @ '' more not shown; the ids above are the first '' @
               FormatUint (length shown) @ '' in sort order (-json lists them all)'' @ [LF]] else []) @
           [''  These are unverified claims: an entry's key_id sits outside its signature, and a checkpoint that failed verification against the supplied key is only a claim too.'' @ [LF]] @
           (if 0 < FatalCount report then
              [''  This does not explain or excuse the findings above. Only if you know a key rotation happened, verify again with the other epoch's key (obtained independently of this log) against the same full, unsplit files.'' @ [LF],
               ''  Each such run still reports the other epoch's entries and checkpoints as failures; a single run that reconciles both epochs is not implemented yet.'' @ [LF]]
            else
              [''  All entries and checkpoints that could be read verified against the supplied key; these claims concern key_id metadata only.'' @ [LF]]) @
           [''  Informational only: this never affects Status or the exit code. See '' @ [DQ] @ ''Multi-epoch logs'' @ [DQ] @
            '' in docs/verification.md.'' @ [LF]])"

definition writeReport :: "(detail \<Rightarrow> bytes) \<Rightarrow> Report \<Rightarrow> bytes" where
  "writeReport detail_text report =
     ''Traces processed:      '' @ FormatUint (TracesProcessed report) @ [LF] @
     ''Checkpoints processed: '' @ FormatUint (CheckpointsProcessed report) @ [LF] @
     StatusLine report @ [LF] @
     concat (map (error_line detail_text) (Errors report)) @
     concat (note_lines report)"

section \<open>The command line\<close>

record cli_flags =
  flKey :: bytes
  flKeyFile :: bytes
  flJson :: bool

datatype parse_result = FlagHelp | FlagError | Parsed cli_flags "bytes list"

text \<open>\<open>strconv.ParseBool\<close>.\<close>

definition ParseBool :: "bytes \<Rightarrow> bool option" where
  "ParseBool s =
     (if s \<in> {''1'', ''t'', ''T'', ''true'', ''TRUE'', ''True''} then Some True
      else if s \<in> {''0'', ''f'', ''F'', ''false'', ''FALSE'', ''False''} then Some False
      else None)"

text \<open>The name of a flag and its value after the first \<open>=\<close>, which is looked for from the second character on.\<close>

definition split_flag :: "bytes \<Rightarrow> bytes \<times> bytes option" where
  "split_flag s =
     (let rest = dropWhile (\<lambda>c. c \<noteq> CHR ''='') (tl s) in
      if rest = [] then (s, None) else (take (length s - length rest) s, Some (tl rest)))"

text \<open>\<open>FlagSet.Parse\<close> over the three flags of the tool: it stops at the first argument that is no flag.\<close>

fun parse_flags :: "cli_flags \<Rightarrow> bytes list \<Rightarrow> parse_result" where
  "parse_flags fl [] = Parsed fl []"
| "parse_flags fl (s # rest) =
     (if length s < 2 \<or> hd s \<noteq> CHR ''-'' then Parsed fl (s # rest)
      else if s = ''--'' then Parsed fl rest
      else
        let name = (if s ! 1 = CHR ''-'' then drop 2 s else drop 1 s) in
        if name = [] \<or> hd name = CHR ''-'' \<or> hd name = CHR ''='' then FlagError
        else
          (case split_flag name of (n, v) \<Rightarrow>
             if n = ''json'' then
               (case v of
                  None \<Rightarrow> parse_flags (fl\<lparr>flJson := True\<rparr>) rest
                | Some b \<Rightarrow> (case ParseBool b of None \<Rightarrow> FlagError | Some x \<Rightarrow> parse_flags (fl\<lparr>flJson := x\<rparr>) rest))
             else if n = ''key'' \<or> n = ''key-file'' then
               (case v of
                  Some x \<Rightarrow> parse_flags (if n = ''key'' then fl\<lparr>flKey := x\<rparr> else fl\<lparr>flKeyFile := x\<rparr>) rest
                | None \<Rightarrow>
                    (case rest of
                       [] \<Rightarrow> FlagError
                     | x # rest' \<Rightarrow> parse_flags (if n = ''key'' then fl\<lparr>flKey := x\<rparr> else fl\<lparr>flKeyFile := x\<rparr>) rest'))
             else if n = ''help'' \<or> n = ''h'' then FlagHelp
             else FlagError))"

datatype load_error = KeyHex | KeyLength nat | KeyFile key_error

definition loadPublicKey :: "key_codec \<Rightarrow> (bytes \<Rightarrow> disk_file) \<Rightarrow> bytes \<Rightarrow> bytes \<Rightarrow> load_error + bytes" where
  "loadPublicKey kc files hexKey pemFile =
     (if hexKey \<noteq> [] then
        (case hex_DecodeString hexKey of
           None \<Rightarrow> Inl KeyHex
         | Some raw \<Rightarrow> if length raw \<noteq> 32 then Inl (KeyLength (length raw)) else Inr raw)
      else (case LoadEd25519PublicKeyPEM kc (files pemFile) of Inl e \<Rightarrow> Inl (KeyFile e) | Inr k \<Rightarrow> Inr k))"

text \<open>What the process runs against.\<close>

record cli_env =
  envEd :: ed25519
  envCodec :: key_codec
  envFiles :: "bytes \<Rightarrow> disk_file"
  envDetail :: "detail \<Rightarrow> bytes"
  envStdoutOK :: bool

datatype cli_output = NoOutput | TextReport bytes | JsonReport bytes

text \<open>\<open>run\<close>: the exit code and what was written to standard output.\<close>

definition run_cli :: "cli_env \<Rightarrow> bytes list \<Rightarrow> nat \<times> cli_output" where
  "run_cli env args =
     (case parse_flags \<lparr>flKey = [], flKeyFile = [], flJson = False\<rparr> args of
        FlagHelp \<Rightarrow> (0, NoOutput)
      | FlagError \<Rightarrow> (2, NoOutput)
      | Parsed fl rest \<Rightarrow>
          if length rest \<noteq> 2 then (2, NoOutput)
          else if flKey fl = [] \<and> flKeyFile fl = [] then (2, NoOutput)
          else if flKey fl \<noteq> [] \<and> flKeyFile fl \<noteq> [] then (2, NoOutput)
          else
            (case loadPublicKey (envCodec env) (envFiles env) (flKey fl) (flKeyFile fl) of
               Inl e \<Rightarrow> (2, NoOutput)
             | Inr pubKey \<Rightarrow>
                 (case VerifyLog (envEd env) (envFiles env (rest ! 0)) (envFiles env (rest ! 1)) pubKey of
                    Inl e \<Rightarrow> (2, NoOutput)
                  | Inr report \<Rightarrow>
                      let code = (if 0 < FatalCount report then 1 else 0) in
                      if flJson fl then (if envStdoutOK env then (code, JsonReport (encode_report (envDetail env) report)) else (2, NoOutput))
                      else (code, TextReport (writeReport (envDetail env) report)))))"

section \<open>What is printed\<close>

definition printable :: "bytes \<Rightarrow> bool" where
  "printable s \<longleftrightarrow> list_all (\<lambda>c. 32 \<le> byte c \<and> byte c < 127) s"

lemma printable_simps [simp]:
  "printable []" "printable (c # s) \<longleftrightarrow> 32 \<le> byte c \<and> byte c < 127 \<and> printable s"
  "printable (s @ t) \<longleftrightarrow> printable s \<and> printable t"
  by (simp_all add: printable_def)

text \<open>Every quote in the text follows a backslash that starts an escape.\<close>

fun no_bare_quote :: "bytes \<Rightarrow> bool" where
  "no_bare_quote [] = True"
| "no_bare_quote [c] = (c \<noteq> DQ \<and> c \<noteq> BSL)"
| "no_bare_quote (c # d # s) = (if c = BSL then no_bare_quote s else c \<noteq> DQ \<and> no_bare_quote (d # s))"

lemma hex_digit_plain:
  "v < 16 \<Longrightarrow> 48 \<le> byte (hex_digit v)" "v < 16 \<Longrightarrow> byte (hex_digit v) < 103"
  "v < 16 \<Longrightarrow> hex_digit v \<noteq> DQ" "v < 16 \<Longrightarrow> hex_digit v \<noteq> BSL"
  by (auto simp: hex_digit_def chr_eq_iff)

definition calm :: "bytes \<Rightarrow> bool" where
  "calm s \<longleftrightarrow> list_all (\<lambda>c. 32 \<le> byte c \<and> byte c < 127 \<and> c \<noteq> DQ \<and> c \<noteq> BSL) s"

lemma calm_hex_digits: "calm (hex_digits n v)"
proof (induction n v rule: hex_digits.induct)
  case (2 n v)
  have "v mod 16 < 16" by simp
  note h = hex_digit_plain [OF this]
  have "32 \<le> byte (hex_digit (v mod 16))" "byte (hex_digit (v mod 16)) < 127" using h(1,2) by linarith+
  with 2 h(3,4) show ?case by (simp add: calm_def)
qed (simp add: calm_def)

lemma calm_printable: "calm s \<Longrightarrow> printable s"
  by (auto simp: calm_def printable_def list_all_iff)

lemma no_bare_quote_calm: "calm s \<Longrightarrow> no_bare_quote (s @ t) \<longleftrightarrow> no_bare_quote t"
proof (induction s)
  case (Cons c s)
  then show ?case by (cases "s @ t") (auto simp: calm_def)
qed simp

lemma length_hex_digits [simp]: "length (hex_digits n v) = n"
  by (induction n v rule: hex_digits.induct) simp_all

text \<open>One escaped rune: printable, self-contained, and at most four bytes for each byte of the rune.\<close>

lemma no_bare_quote_plain: "c \<noteq> DQ \<Longrightarrow> c \<noteq> BSL \<Longrightarrow> no_bare_quote (c # t) \<longleftrightarrow> no_bare_quote t"
  by (cases t) auto

lemma escape_rune_safe:
  "printable (escape_rune r)" "no_bare_quote (escape_rune r @ t) \<longleftrightarrow> no_bare_quote t"
  using calm_hex_digits [of 2 r] calm_hex_digits [of 4 r] calm_hex_digits [of 8 r]
  by (auto simp: escape_rune_def calm_printable no_bare_quote_calm no_bare_quote_plain chr_eq_iff)

lemma escape_rune_length: "length (escape_rune r) \<le> (if r < 128 then 4 else if r < 65536 then 6 else 10)"
  by (auto simp: escape_rune_def)

lemma quote_body_printable: "printable (quote_body s)"
  by (induction s rule: quote_body.induct)
     (simp_all add: quote_body.simps(2) Let_def escape_rune_safe calm_printable [OF calm_hex_digits])

lemma quote_body_quotes: "no_bare_quote (quote_body s)"
  by (induction s rule: quote_body.induct)
     (simp_all add: quote_body.simps(2) Let_def escape_rune_safe no_bare_quote_calm [OF calm_hex_digits])

lemma quote_body_plain: "calm s \<Longrightarrow> quote_body s = s"
proof (induction s)
  case (Cons c s)
  have "c \<noteq> DQ \<Longrightarrow> byte c \<noteq> 34" "c \<noteq> BSL \<Longrightarrow> byte c \<noteq> 92"
    using of_char_eq_iff [of c DQ] of_char_eq_iff [of c BSL] by auto
  with Cons show ?case by (auto simp: quote_body.simps(2) rune_value_def escape_rune_def calm_def)
qed simp

lemma width_one: "utf8_width (c # s) = 1 \<Longrightarrow> byte c < 128"
  by (auto simp: utf8_width.simps(2) utf8_shape_def split: option.splits if_splits)

lemma rune_length:
  assumes "utf8_width (c # s) = w" and "w \<noteq> 0"
  shows "length (escape_rune (rune_value (take w (c # s)))) \<le> 4 * w"
proof -
  have le: "w \<le> length (c # s)" using utf8_width_le assms(1) by metis
  consider "w = 1" | "w = 2" | "3 \<le> w" using assms(2) by linarith
  then show ?thesis
  proof cases
    case 1
    then have "rune_value (take w (c # s)) = byte c" "byte c < 128"
      using width_one assms(1) by (simp_all add: rune_value_def)
    then show ?thesis using escape_rune_length [of "rune_value (take w (c # s))"] 1 by simp
  next
    case 2
    then obtain d u where s: "s = d # u" using le by (cases s) auto
    have "byte c < 256" "byte d < 256" by simp_all
    then have "(byte c - 192) * 64 + (byte d - 128) < 65536" by linarith
    then have "rune_value (take w (c # s)) < 65536" using 2 s by (simp add: rune_value_def)
    then show ?thesis using escape_rune_length [of "rune_value (take w (c # s))"] 2 by (simp split: if_splits)
  next
    case 3
    then show ?thesis using escape_rune_length [of "rune_value (take w (c # s))"] by (simp split: if_splits)
  qed
qed

lemma quote_body_length: "length (quote_body s) \<le> 4 * length s"
proof (induction s rule: quote_body.induct)
  case (2 c s)
  show ?case
  proof (cases "utf8_width (c # s) = 0")
    case True
    with 2 show ?thesis by (simp add: quote_body.simps(2))
  next
    case False
    let ?w = "utf8_width (c # s)"
    have "?w - 1 \<le> length s" using utf8_width_le [of "c # s"] by simp
    then have "length (drop (?w - 1) s) + ?w = length (c # s)" using False by simp
    then show ?thesis
      using 2(2) [OF refl False] rune_length [OF refl False] False by (simp add: quote_body.simps(2) Let_def)
  qed
qed simp

lemma cut_back_le: "cut_back s n \<le> n"
  by (induction s n rule: cut_back.induct) auto

lemma printable_FormatUint: "printable (FormatUint n)"
  using FormatUint_digits [where n = n] by (fastforce simp: printable_def list_all_iff is_digit_def)

lemma StatusLine_OK: "take 10 (StatusLine r) = ''Status: OK'' \<longleftrightarrow> FatalCount r = 0"
  by (simp add: StatusLine_def Let_def)

section \<open>Properties\<close>

lemma printed_report:
  assumes "run_cli env args = (code, out)" and "out \<noteq> NoOutput"
  obtains fl log checkpoints key report where
    "parse_flags \<lparr>flKey = [], flKeyFile = [], flJson = False\<rparr> args = Parsed fl [log, checkpoints]"
    "(flKey fl = []) \<noteq> (flKeyFile fl = [])" "flJson fl \<longrightarrow> envStdoutOK env"
    "loadPublicKey (envCodec env) (envFiles env) (flKey fl) (flKeyFile fl) = Inr key"
    "VerifyLog (envEd env) (envFiles env log) (envFiles env checkpoints) key = Inr report"
    "out = (if flJson fl then JsonReport (encode_report (envDetail env) report) else TextReport (writeReport (envDetail env) report))"
    "code = (if take 10 (StatusLine report) = ''Status: OK'' then 0 else 1)"
proof (cases "parse_flags \<lparr>flKey = [], flKeyFile = [], flJson = False\<rparr> args")
  case (Parsed fl rest)
  note run = assms(1) [unfolded run_cli_def Parsed parse_result.case]
  have k: "length rest = 2" "(flKey fl = []) \<noteq> (flKeyFile fl = [])"
    using run assms(2) by (auto split: if_splits)
  note run = run [simplified, unfolded k, simplified]
  obtain key where key: "loadPublicKey (envCodec env) (envFiles env) (flKey fl) (flKeyFile fl) = Inr key"
    using run k assms(2) by (cases "loadPublicKey (envCodec env) (envFiles env) (flKey fl) (flKeyFile fl)") (auto split: if_splits)
  obtain report where report: "VerifyLog (envEd env) (envFiles env (rest ! 0)) (envFiles env (rest ! 1)) key = Inr report"
    using run k key assms(2) by (cases "VerifyLog (envEd env) (envFiles env (rest ! 0)) (envFiles env (rest ! 1)) key") (auto split: if_splits)
  have "flJson fl \<longrightarrow> envStdoutOK env"
      "out = (if flJson fl then JsonReport (encode_report (envDetail env) report) else TextReport (writeReport (envDetail env) report))"
      "code = (if 0 < FatalCount report then 1 else 0)"
    using run k key report assms(2) by (auto simp: Let_def split: if_splits)
  moreover obtain l c where "rest = [l, c]" using k(1) by (auto simp: numeral_2_eq_2 length_Suc_conv)
  ultimately show thesis using that [of fl l c key report] k(2) key report Parsed by (simp add: StatusLine_OK)
qed (use assms in \<open>simp_all add: run_cli_def\<close>)

text \<open>C31. The exit code and what the command prints, on every path. It exits with 2, and prints no report, exactly
  in the error cases: flags that do not parse, not two files, no key or two keys, a key that does not load,
  files that \<open>VerifyLog\<close> cannot read, and a \<open>-json\<close> document that cannot be written. Otherwise, unless help was
  asked for, it prints the report of \<open>VerifyLog\<close> on its two files under the one key that was given, in the
  format of the flag, and exits with 0 exactly when the status line says OK, else with 1.\<close>

theorem exit_code_is_the_status:
  assumes "run_cli env args = (code, out)" and "parse_flags \<lparr>flKey = [], flKeyFile = [], flJson = False\<rparr> args = parsed"
  shows "(code = 2 \<longleftrightarrow> parsed = FlagError \<or>
      (\<exists>fl files. parsed = Parsed fl files \<and>
        (length files \<noteq> 2 \<or> (flKey fl = [] \<longleftrightarrow> flKeyFile fl = []) \<or>
         (\<exists>err. loadPublicKey (envCodec env) (envFiles env) (flKey fl) (flKeyFile fl) = Inl err) \<or>
         (\<exists>key err. loadPublicKey (envCodec env) (envFiles env) (flKey fl) (flKeyFile fl) = Inr key \<and>
            VerifyLog (envEd env) (envFiles env (files ! 0)) (envFiles env (files ! 1)) key = Inl err) \<or>
         flJson fl \<and> \<not> envStdoutOK env))) \<and>
    (out = NoOutput \<longleftrightarrow> code = 2 \<or> parsed = FlagHelp) \<and> (parsed = FlagHelp \<longrightarrow> code = 0) \<and>
    (out \<noteq> NoOutput \<longrightarrow> (\<exists>fl log checkpoints key report.
       parsed = Parsed fl [log, checkpoints] \<and> (flKey fl = []) \<noteq> (flKeyFile fl = []) \<and>
       loadPublicKey (envCodec env) (envFiles env) (flKey fl) (flKeyFile fl) = Inr key \<and>
       VerifyLog (envEd env) (envFiles env log) (envFiles env checkpoints) key = Inr report \<and>
       out = (if flJson fl then JsonReport (encode_report (envDetail env) report) else TextReport (writeReport (envDetail env) report)) \<and>
       code = (if take 10 (StatusLine report) = ''Status: OK'' then 0 else 1)))"
proof (cases "out = NoOutput")
  case True
  show ?thesis
  proof (cases parsed)
    case (Parsed fl files)
    then show ?thesis
      using assms True
      by (cases "loadPublicKey (envCodec env) (envFiles env) (flKey fl) (flKeyFile fl)")
        (auto simp: run_cli_def Let_def split: if_splits sum.splits)
  qed (use assms True in \<open>simp_all add: run_cli_def\<close>)
next
  case False
  show ?thesis
  proof (rule printed_report [OF assms(1) False, unfolded assms(2)])
    fix fl log checkpoints key report
    assume r: "parsed = Parsed fl [log, checkpoints]"
      "(flKey fl = []) \<noteq> (flKeyFile fl = [])" "flJson fl \<longrightarrow> envStdoutOK env"
      "loadPublicKey (envCodec env) (envFiles env) (flKey fl) (flKeyFile fl) = Inr key"
      "VerifyLog (envEd env) (envFiles env log) (envFiles env checkpoints) key = Inr report"
      "out = (if flJson fl then JsonReport (encode_report (envDetail env) report) else TextReport (writeReport (envDetail env) report))"
      "code = (if take 10 (StatusLine report) = ''Status: OK'' then 0 else 1)"
    then have "code \<noteq> 2" "parsed \<noteq> FlagError" "parsed \<noteq> FlagHelp" by (simp_all split: if_splits)
    moreover have "\<not> (length [log, checkpoints] \<noteq> 2 \<or> (flKey fl = [] \<longleftrightarrow> flKeyFile fl = []) \<or>
         (\<exists>err. loadPublicKey (envCodec env) (envFiles env) (flKey fl) (flKeyFile fl) = Inl err) \<or>
         (\<exists>key err. loadPublicKey (envCodec env) (envFiles env) (flKey fl) (flKeyFile fl) = Inr key \<and>
            VerifyLog (envEd env) (envFiles env ([log, checkpoints] ! 0)) (envFiles env ([log, checkpoints] ! 1)) key = Inl err) \<or>
         flJson fl \<and> \<not> envStdoutOK env)" using r(2-5) by simp
    ultimately show ?thesis using r False by blast
  qed
qed

definition toy_env :: "disk_file \<Rightarrow> cli_env" where
  "toy_env log =
     \<lparr>envEd = toy_ed25519, envCodec = toy_codec, envFiles = (\<lambda>p. if p = ''audit.log'' then log else NotExist),
      envDetail = (\<lambda>_. ''...''), envStdoutOK = True\<rparr>"

theorem exit_code_is_the_status_witness:
  "\<exists>key r. length key = 32 \<and>
     run_cli (toy_env (Content [])) [''-json'', ''-key'', hex_EncodeToString key, ''audit.log'', ''checkpoints''] = (0, JsonReport (encode_report (\<lambda>_. ''...'') r)) \<and>
     VerifyLog toy_ed25519 (Content []) NotExist key = Inr r \<and> take 10 (StatusLine r) = ''Status: OK''"
proof -
  obtain key :: bytes where key: "length key = 32" using Ex_list_of_length by blast
  let ?args = "[''-json'', ''-key'', hex_EncodeToString key, ''audit.log'', ''checkpoints'']"
  let ?fl = "\<lparr>flKey = hex_EncodeToString key, flKeyFile = [], flJson = True\<rparr>"
  have ne: "hex_EncodeToString key \<noteq> []" using key by (cases key) auto
  have p: "parse_flags \<lparr>flKey = [], flKeyFile = [], flJson = False\<rparr> ?args = Parsed ?fl [''audit.log'', ''checkpoints'']"
    by (simp add: split_flag_def)
  obtain r where r: "VerifyLog toy_ed25519 (Content []) NotExist key = Inr r" "Errors r = []"
    by (simp add: VerifyLog_def readLogEntries_def raw_lines_def scan_lines_def readCheckpoints_def verify_data_def
        trace_start_def Let_def)
  have run: "run_cli (toy_env (Content [])) ?args = (0, JsonReport (encode_report (\<lambda>_. ''...'') r))"
    unfolding run_cli_def p using ne r key by (simp add: loadPublicKey_def toy_env_def FatalCount_def)
  from exit_code_is_the_status [OF run p] obtain key' r' where
    k: "loadPublicKey toy_codec (envFiles (toy_env (Content []))) (hex_EncodeToString key) [] = Inr key'"
    "VerifyLog toy_ed25519 (Content []) NotExist key' = Inr r'" "take 10 (StatusLine r') = ''Status: OK''"
    by (auto simp: toy_env_def split: if_splits)
  have "key' = key" using k(1) ne key by (simp add: loadPublicKey_def)
  then show ?thesis using key run r(1) k(2,3) by auto
qed

text \<open>C35. Text quoted from the log stays inside its quotes: the output of \<open>quoteUntrusted\<close> is printable ASCII
  on one line, between two quotes with every quote inside escaped, at most four times the limit long,
  and followed by a note exactly when something was left out, with the number of bytes left out;
  a hexadecimal key id, or any plain text, within the limit comes out unchanged.\<close>

theorem quoteUntrusted_contains:
  "(\<exists>k body note. quoteUntrusted s n = DQ # body @ [DQ] @ note \<and> body = quote_body (take k s) \<and>
     k = (if n < length s then cut_back s n else length s) \<and> no_bare_quote body \<and> length body \<le> 4 * n \<and>
     note = (if n < length s then '' [truncated: '' @ FormatUint (length s - k) @ '' more byte(s)]'' else [])) \<and>
   printable (quoteUntrusted s n) \<and>
   (calm s \<and> length s \<le> n \<longrightarrow> quoteUntrusted s n = DQ # s @ [DQ])"
proof -
  let ?k = "if n < length s then cut_back s n else length s"
  have k: "?k \<le> n \<or> length s \<le> n" "n < length s \<Longrightarrow> 0 < length s - ?k" using cut_back_le [of s n] by auto
  have eq: "quoteUntrusted s n = DQ # quote_body (take ?k s) @ [DQ] @
      (if n < length s then '' [truncated: '' @ FormatUint (length s - ?k) @ '' more byte(s)]'' else [])"
    using k(2) by (simp add: quoteUntrusted_def QuoteToASCII_def Let_def)
  have "length (take ?k s) \<le> n" using k(1) by auto
  then have len: "length (quote_body (take ?k s)) \<le> 4 * n"
    using quote_body_length [of "take ?k s"] by linarith
  have "printable (quoteUntrusted s n)"
    unfolding eq using quote_body_printable printable_FormatUint by simp
  moreover have "calm s \<and> length s \<le> n \<longrightarrow> quoteUntrusted s n = DQ # s @ [DQ]"
    using quote_body_plain unfolding eq by auto
  ultimately show ?thesis using eq len quote_body_quotes by blast
qed

theorem quoteUntrusted_contains_witness: "quoteUntrusted ''ab12'' 4 = DQ # ''ab12'' @ [DQ]"
  by (rule quoteUntrusted_contains [THEN conjunct2, THEN conjunct2, rule_format]) (simp add: calm_def)

lemma hex_no_LF: "hex_DecodeString s = Some d \<Longrightarrow> LF \<notin> set s"
proof (induction s arbitrary: d rule: hex_DecodeString.induct)
  case (3 a b s)
  have "hex_val LF = None" by (simp add: hex_val_def)
  with 3 show ?case by (auto split: option.splits)
qed simp_all

lemma unseedable_report:
  assumes "valid_entry e" and "short_line (MarshalLogEntry e)" and "LF \<in> set (traceID (leRecord e))"
    and "schemaVersion (leRecord e) \<noteq> []"
  shows "\<exists>r. VerifyLog ed (Content (log_file [e])) NotExist pub = Inr r \<and> FatalCount r = 1 \<and>
    map veTraceID (Errors r) = [traceID (leRecord e)]"
proof -
  have "hex_DecodeString (traceID (leRecord e)) = None" using hex_no_LF assms(3) by (metis option.exhaust)
  then have seed: "GenesisSeedForSchema (traceID (leRecord e)) (schemaVersion (leRecord e)) = Inl (DecodingTraceID (traceID (leRecord e)))"
    using assms(4) by (simp add: GenesisSeedForSchema_def)
  have read: "readLogEntries (Content (log_file [e])) = Inr (log_data_of [e] None)"
    by (rule readLogEntries_written) (use assms(1,2) in simp)
  have chain: "verifyChainReturnTip ed [e] pub = Inl (SeedError (DecodingTraceID (traceID (leRecord e))))"
    by (simp add: verifyChainReturnTip_def seed)
  show ?thesis
    unfolding VerifyLog_def read sum.case
    by (simp add: readCheckpoints_def verify_data_def log_data_of_def al_group_def Let_def
        sort_entries_def verify_trace_def al_get_def chain trace_start_def FatalCount_def
        SeverityFatal_def SeverityAdvisory_def verify_error_def)
qed

lemma writeReport_label:
  assumes "x \<in> set (Errors r)"
  shows "\<exists>u v. writeReport dt r = u @ errorLabel x @ v"
proof -
  obtain xs ys where e: "Errors r = xs @ x # ys" using assms by (meson split_list)
  have "writeReport dt r =
    (''Traces processed:      '' @ FormatUint (TracesProcessed r) @ [LF] @
     ''Checkpoints processed: '' @ FormatUint (CheckpointsProcessed r) @ [LF] @
     StatusLine r @ [LF] @ concat (map (error_line dt) xs) @ ''  ['') @ errorLabel x @
    (''] '' @ veKind x @ '' ('' @ veSeverity x @ ''): '' @ dt (veDetail x) @ [LF] @ concat (map (error_line dt) ys) @ concat (note_lines r))"
    unfolding writeReport_def e error_line_def by simp
  then show ?thesis by blast
qed

text \<open>C36. The trace id of a finding is printed raw, unlike the key ids of the note: whoever can write one
  entry of the log can make the human-readable report of a failed verification contain any line of
  UTF-8 text, such as one that reads \<open>Status: OK\<close>. Only the exit code and \<open>-json\<close> can be trusted.\<close>

theorem trace_id_forges_report_line:
  assumes "traceID (leRecord e) = a @ [LF] @ b @ [LF] @ c" and "valid_entry e" and "short_line (MarshalLogEntry e)"
    and "schemaVersion (leRecord e) \<noteq> []" and "length key = 32"
    and "envFiles env ''audit.log'' = Content (log_file [e])" and "envFiles env ''checkpoints'' = NotExist"
  shows "\<exists>u v. run_cli env [''-key'', hex_EncodeToString key, ''audit.log'', ''checkpoints''] =
     (1, TextReport (u @ [LF] @ b @ [LF] @ v))"
proof -
  have ne: "hex_EncodeToString key \<noteq> []" using assms(5) by (cases key) auto
  have p: "parse_flags \<lparr>flKey = [], flKeyFile = [], flJson = False\<rparr> [''-key'', hex_EncodeToString key, ''audit.log'', ''checkpoints''] =
      Parsed \<lparr>flKey = hex_EncodeToString key, flKeyFile = [], flJson = False\<rparr> [''audit.log'', ''checkpoints'']"
    by (simp add: split_flag_def)
  obtain r where r: "VerifyLog (envEd env) (Content (log_file [e])) NotExist key = Inr r" "FatalCount r = 1"
      "map veTraceID (Errors r) = [traceID (leRecord e)]"
    using unseedable_report [OF assms(2,3) _ assms(4)] assms(1) by fastforce
  then obtain x where x: "Errors r = [x]" "veTraceID x = traceID (leRecord e)" by auto
  have "errorLabel x = a @ [LF] @ b @ [LF] @ c" using x(2) assms(1) by (simp add: errorLabel_def)
  then obtain u v where "writeReport (envDetail env) r = u @ (a @ [LF] @ b @ [LF] @ c) @ v"
    using writeReport_label [of x r "envDetail env"] x(1) by auto
  then have "writeReport (envDetail env) r = (u @ a) @ [LF] @ b @ [LF] @ (c @ v)" by simp
  moreover have "run_cli env [''-key'', hex_EncodeToString key, ''audit.log'', ''checkpoints''] =
      (1, TextReport (writeReport (envDetail env) r))"
    unfolding run_cli_def p using ne r(1,2) assms(5-7) by (simp add: loadPublicKey_def)
  ultimately show ?thesis by metis
qed

definition forged_entry :: LogEntry where
  "forged_entry = fixture_entry\<lparr>leRecord := fixture_record\<lparr>traceID := ''x'' @ [LF] @ ''Status: OK'' @ [LF]\<rparr>\<rparr>"

lemma forged_entry_fits: "valid_entry forged_entry" "short_line (MarshalLogEntry forged_entry)"
proof -
  have "valid_utf8 (''x'' @ [LF] @ ''Status: OK'' @ [LF])" by (rule valid_utf8_ascii) simp
  then show "valid_entry forged_entry"
    using valid_fixture_entry
    by (simp add: forged_entry_def fixture_entry_def valid_entry_def valid_record_def)
  have "length (esc (''x'' @ [LF] @ ''Status: OK'' @ [LF])) < 100" by (simp add: esc.simps(2) esc_ascii_def)
  then show "short_line (MarshalLogEntry forged_entry)"
    by (simp add: forged_entry_def fixture_entry_def short_line_def maxScanTokenSize_def MarshalLogEntry_def
        LogEntry_json_def SignedEntry_json_def fixture_simps)
qed

theorem trace_id_forges_report_line_witness:
  "\<exists>u v. run_cli (toy_env (Content (log_file [forged_entry])))
      [''-key'', hex_EncodeToString (replicate 32 CHR ''k''), ''audit.log'', ''checkpoints''] =
     (1, TextReport (u @ [LF] @ ''Status: OK'' @ [LF] @ v))"
  by (rule trace_id_forges_report_line [OF _ forged_entry_fits, of "''x''" "''Status: OK''" "[]"])
     (simp_all add: forged_entry_def fixture_entry_def fixture_record_def toy_env_def)

text \<open>C26. The \<open>-json\<close> output is the report: whatever the files contain, a program that decodes it and reads
  the member \<open>Errors\<close>, as the documentation tells it to, gets the findings of \<open>VerifyLog\<close> with their trace ids,
  kinds and severities exactly as they are, and finds one that is not advisory exactly when the exit code is 1.\<close>

theorem json_output_is_the_report:
  assumes "run_cli env args = (code, JsonReport s)"
  shows "\<exists>fl log checkpoints key report findings.
     parse_flags \<lparr>flKey = [], flKeyFile = [], flJson = False\<rparr> args = Parsed fl [log, checkpoints] \<and> flJson fl \<and>
     VerifyLog (envEd env) (envFiles env log) (envFiles env checkpoints) key = Inr report \<and>
     read_findings s = Some findings \<and>
     map (\<lambda>f. (jfTraceID f, jfKind f, jfSeverity f)) (slice_list (jfErrors findings)) =
       map (\<lambda>e. (veTraceID e, veKind e, veSeverity e)) (Errors report) \<and>
     code = (if \<exists>f \<in> set (slice_list (jfErrors findings)). jfSeverity f \<noteq> SeverityAdvisory then 1 else 0)"
proof -
  have "JsonReport s \<noteq> NoOutput" by simp
  from assms this obtain fl log checkpoints key report where p:
      "parse_flags \<lparr>flKey = [], flKeyFile = [], flJson = False\<rparr> args = Parsed fl [log, checkpoints]"
      "JsonReport s = (if flJson fl then JsonReport (encode_report (envDetail env) report) else TextReport (writeReport (envDetail env) report))"
    and r: "VerifyLog (envEd env) (envFiles env log) (envFiles env checkpoints) key = Inr report"
      "code = (if take 10 (StatusLine report) = ''Status: OK'' then 0 else 1)"
    by (rule printed_report)
  have json: "flJson fl" "s = encode_report (envDetail env) report" using p(2) by (simp_all split: if_splits)
  let ?errors = "if Errors report = [] then None else Some (map (seen (envDetail env)) (Errors report))"
  have read: "read_findings s = Some \<lparr>jfErrors = ?errors\<rparr>" using read_report [OF report_texts [OF r(1)]] json(2) by simp
  have list: "slice_list ?errors = map (seen (envDetail env)) (Errors report)" by simp
  have "code = (if 0 < FatalCount report then 1 else 0)" using r(2) by (simp add: StatusLine_OK)
  then have "code = (if \<exists>f \<in> set (slice_list ?errors). jfSeverity f \<noteq> SeverityAdvisory then 1 else 0)"
    unfolding list by (auto simp: FatalCount_def filter_empty_conv seen_def)
  then show ?thesis using p(1) json(1) r(1) read
    by (intro exI [of _ fl] exI [of _ log] exI [of _ checkpoints] exI [of _ key] exI [of _ report]
        exI [of _ "\<lparr>jfErrors = ?errors\<rparr>"]) (simp add: list seen_def)
qed

theorem json_output_is_the_report_witness:
  "\<exists>s findings. run_cli (toy_env (Content (log_file [forged_entry])))
      [''-json'', ''-key'', hex_EncodeToString (replicate 32 CHR ''k''), ''audit.log'', ''checkpoints''] = (1, JsonReport s) \<and>
     read_findings s = Some findings \<and>
     map jfTraceID (slice_list (jfErrors findings)) = [''x'' @ [LF] @ ''Status: OK'' @ [LF]]"
proof -
  define key where "key = replicate 32 CHR ''k''"
  then have k: "length key = 32" by simp
  let ?env = "toy_env (Content (log_file [forged_entry]))"
  let ?args = "[''-json'', ''-key'', hex_EncodeToString key, ''audit.log'', ''checkpoints'']"
  have id: "traceID (leRecord forged_entry) = ''x'' @ [LF] @ ''Status: OK'' @ [LF]" "schemaVersion (leRecord forged_entry) \<noteq> []"
    by (simp_all add: forged_entry_def fixture_entry_def fixture_record_def)
  have ne: "hex_EncodeToString key \<noteq> []" using k by (cases key) auto
  have p: "parse_flags \<lparr>flKey = [], flKeyFile = [], flJson = False\<rparr> ?args =
      Parsed \<lparr>flKey = hex_EncodeToString key, flKeyFile = [], flJson = True\<rparr> [''audit.log'', ''checkpoints'']"
    by (simp add: split_flag_def)
  obtain r where r: "VerifyLog toy_ed25519 (Content (log_file [forged_entry])) NotExist key = Inr r" "FatalCount r = 1"
      "map veTraceID (Errors r) = [traceID (leRecord forged_entry)]"
    using unseedable_report [OF forged_entry_fits _ id(2), of toy_ed25519 key] id(1) by auto
  have load: "loadPublicKey toy_codec (envFiles ?env) (hex_EncodeToString key) [] = Inr key"
    using ne k by (simp add: loadPublicKey_def)
  have run: "run_cli ?env ?args = (1, JsonReport (encode_report (\<lambda>_. ''...'') r))"
    unfolding run_cli_def p using ne r load by (simp add: toy_env_def)
  from json_output_is_the_report [OF run] p obtain key' report findings where f:
      "VerifyLog toy_ed25519 (Content (log_file [forged_entry])) NotExist key' = Inr report"
      "read_findings (encode_report (\<lambda>_. ''...'') r) = Some findings"
      "map (\<lambda>f. (jfTraceID f, jfKind f, jfSeverity f)) (slice_list (jfErrors findings)) =
       map (\<lambda>e. (veTraceID e, veKind e, veSeverity e)) (Errors report)"
    by (auto simp: toy_env_def)
  obtain r' where "VerifyLog toy_ed25519 (Content (log_file [forged_entry])) NotExist key' = Inr r'"
      "map veTraceID (Errors r') = [traceID (leRecord forged_entry)]"
    using unseedable_report [OF forged_entry_fits _ id(2), of toy_ed25519 key'] id(1) by auto
  then have ids: "map veTraceID (Errors report) = [traceID (leRecord forged_entry)]" using f(1) by simp
  have "map jfTraceID (slice_list (jfErrors findings)) = map veTraceID (Errors report)"
    using arg_cong [OF f(3), of "map fst"] by (simp add: comp_def)
  then show ?thesis unfolding key_def [symmetric] using run f(2) ids id(1) by auto
qed

end
