(* ===== verification/Repair.thy ===== *)
theory Repair
  imports Verify_Log
begin

text \<open>
  \<open>repairTrailingPartialLine\<close> of \<open>exporter.go\<close>: what \<open>Start\<close> does to a file whose last line has no line
  feed, and what a failed rollback falls back on. The file is its contents, \<open>None\<close> if there is none;
  the step of the repair that the system fails, if any, is an argument. The lemmas decompose a
  file into its complete lines and the rest after the last line feed: the repair touches only the
  rest, never drops it if it is a JSON document, and restores the complete lines after a torn write.
\<close>

definition exporter_maxScanTokenSize :: nat where "exporter_maxScanTokenSize = 4 * 1024 * 1024"
definition maxTornTailPrefix :: nat where "maxTornTailPrefix = 256"

record tornTailRepair =
  repDropped :: nat
  repTerminated :: nat
  repPrefix :: bytes

definition no_repair :: tornTailRepair where
  "no_repair = \<lparr>repDropped = 0, repTerminated = 0, repPrefix = []\<rparr>"

datatype repair_fault =
    RepairOK | FailRepairOpen | FailRepairStat | FailReadLast | FailReadTail | ShrankTo nat
  | FailWriteNewline | FailSyncTerminated | FailTruncateTail | FailSyncRepair

datatype repair_error =
    RepairUnavailable | RepairStat | RepairReadLast | RepairReadTail | RepairShrank nat nat
  | NoLineTerminator | RepairTerminate | RepairSyncTerminated | RepairTruncate | RepairSync

text \<open>The offset after the last line feed of a buffer, if there is one (\<open>bytes.LastIndexByte\<close>).\<close>

definition after_last_LF :: "bytes \<Rightarrow> nat option" where
  "after_last_LF b =
     (if LF \<in> set b then Some (length b - length (takeWhile (\<lambda>c. c \<noteq> LF) (rev b))) else None)"

definition repairTrailingPartialLine :: "repair_fault \<Rightarrow> bytes option \<Rightarrow> (repair_error + tornTailRepair) \<times> bytes option" where
  "repairTrailingPartialLine fault content =
     (case content of
        None \<Rightarrow> (Inr no_repair, None)
      | Some s \<Rightarrow>
          if fault = FailRepairOpen then (Inl RepairUnavailable, Some s)
          else if fault = FailRepairStat then (Inl RepairStat, Some s)
          else if s = [] then (Inr no_repair, Some s)
          else if fault = FailReadLast then (Inl RepairReadLast, Some s)
          else if last s = LF then (Inr no_repair, Some s)
          else
            let start = length s - exporter_maxScanTokenSize;
                buf = drop start s
            in
            case fault of
              FailReadTail \<Rightarrow> (Inl RepairReadTail, Some s)
            | ShrankTo n \<Rightarrow> (Inl (RepairShrank n (length buf)), Some s)
            | _ \<Rightarrow>
              if after_last_LF buf = None \<and> 0 < start then (Inl NoLineTerminator, Some s)
              else
                let cut = (case after_last_LF buf of Some idx \<Rightarrow> start + idx | None \<Rightarrow> 0);
                    fragment = drop (cut - start) buf;
                    prefix = take maxTornTailPrefix fragment
                in
                if json_Valid (TrimSpace fragment) then
                  (if fault = FailWriteNewline then (Inl RepairTerminate, Some s)
                   else if fault = FailSyncTerminated then (Inl RepairSyncTerminated, Some (s @ [LF]))
                   else (Inr \<lparr>repDropped = 0, repTerminated = length fragment, repPrefix = prefix\<rparr>, Some (s @ [LF])))
                else if fault = FailTruncateTail then (Inl RepairTruncate, Some s)
                else if fault = FailSyncRepair then (Inl RepairSync, Some (take cut s))
                else (Inr \<lparr>repDropped = length s - cut, repTerminated = 0, repPrefix = prefix\<rparr>, Some (take cut s)))"

section \<open>Complete lines and the rest\<close>

definition whole_lines :: "bytes \<Rightarrow> bool" where
  "whole_lines s \<longleftrightarrow> s = [] \<or> last s = LF"

lemma whole_lines_file [simp]: "whole_lines (terminate_lines ls)"
proof -
  have "ls \<noteq> [] \<Longrightarrow> last (terminate_lines ls) = LF"
    by (induction ls) (auto simp: terminate_lines_def)
  then show ?thesis by (cases "ls = []") (auto simp: whole_lines_def)
qed

lemma split_rest: "\<exists>pre frag. s = pre @ frag \<and> whole_lines pre \<and> LF \<notin> set frag"
proof (cases "LF \<in> set s")
  case True
  then obtain a b where "s = a @ LF # b" "LF \<notin> set b" by (meson split_list_last)
  then have "s = (a @ [LF]) @ b \<and> whole_lines (a @ [LF]) \<and> LF \<notin> set b" by (simp add: whole_lines_def)
  then show ?thesis by blast
next
  case False
  then show ?thesis by (intro exI [of _ "[]"] exI [of _ s]) (simp add: whole_lines_def)
qed

lemma after_last_LF_split:
  assumes "LF \<notin> set frag"
  shows "after_last_LF (a @ LF # frag) = Some (Suc (length a))" and "after_last_LF frag = None"
proof -
  have "takeWhile (\<lambda>c. c \<noteq> LF) (rev frag @ LF # rev a) = rev frag"
    using assms by (auto simp: takeWhile_append)
  then show "after_last_LF (a @ LF # frag) = Some (Suc (length a))" by (simp add: after_last_LF_def)
  show "after_last_LF frag = None" using assms by (simp add: after_last_LF_def)
qed

text \<open>The scan backwards finds the rest, unless the rest alone fills the buffer of a longer file.\<close>

definition rest_in_reach :: "bytes \<Rightarrow> bytes \<Rightarrow> bool" where
  "rest_in_reach pre frag \<longleftrightarrow>
     length frag < exporter_maxScanTokenSize \<or> pre = [] \<and> length frag = exporter_maxScanTokenSize"

lemma scan_back:
  assumes "whole_lines pre" and "LF \<notin> set frag" and "frag \<noteq> []"
  defines "start \<equiv> length (pre @ frag) - exporter_maxScanTokenSize"
  defines "buf \<equiv> drop start (pre @ frag)"
  shows "rest_in_reach pre frag \<Longrightarrow>
      \<not> (after_last_LF buf = None \<and> 0 < start) \<and>
      (case after_last_LF buf of Some idx \<Rightarrow> start + idx | None \<Rightarrow> 0) = length pre \<and>
      drop (length pre - start) buf = frag"
    and "\<not> rest_in_reach pre frag \<Longrightarrow> after_last_LF buf = None \<and> 0 < start"
proof -
  { assume r: "rest_in_reach pre frag"
    show "\<not> (after_last_LF buf = None \<and> 0 < start) \<and>
      (case after_last_LF buf of Some idx \<Rightarrow> start + idx | None \<Rightarrow> 0) = length pre \<and>
      drop (length pre - start) buf = frag"
    proof (cases "pre = []")
      case True
      then have "start = 0" using r by (auto simp: start_def rest_in_reach_def)
      then show ?thesis using True after_last_LF_split(2) [OF assms(2)] by (simp add: buf_def)
    next
      case False
      then have "0 < length pre" "length frag < exporter_maxScanTokenSize" using r by (auto simp: rest_in_reach_def)
      then have lt: "start < length pre" unfolding start_def length_append by linarith
      have "pre = butlast pre @ [LF]" using assms(1) False by (metis append_butlast_last_id whole_lines_def)
      then have b: "buf = drop start (butlast pre) @ LF # frag"
        using lt by (metis append_Cons append_Nil append_assoc buf_def drop_append diff_is_0_eq'
            drop0 length_butlast less_Suc_eq_le Suc_diff_1 length_greater_0_conv False)
      have "length (drop start (butlast pre)) = length pre - 1 - start" by simp
      then show ?thesis
        using after_last_LF_split(1) [OF assms(2), of "drop start (butlast pre)"] lt by (simp add: b)
    qed }
  { assume "\<not> rest_in_reach pre frag"
    then have "exporter_maxScanTokenSize \<le> length frag" "length pre = 0 \<longrightarrow> length frag \<noteq> exporter_maxScanTokenSize"
      by (auto simp: rest_in_reach_def)
    then have "length pre \<le> start" "exporter_maxScanTokenSize < length pre + length frag"
      unfolding start_def length_append by (linarith, cases "length pre = 0", linarith+)
    then have "length pre \<le> start" "0 < start" by (simp_all add: start_def)
    then have "LF \<notin> set buf" using assms(2) in_set_dropD by (fastforce simp: buf_def)
    then show "after_last_LF buf = None \<and> 0 < start" using \<open>0 < start\<close> by (simp add: after_last_LF_def) }
qed

text \<open>The repair as a function of the two parts of the file.\<close>

lemma repair_parts:
  assumes "whole_lines pre" and "LF \<notin> set frag"
  shows "repairTrailingPartialLine fault (Some (pre @ frag)) =
    (if fault = FailRepairOpen then (Inl RepairUnavailable, Some (pre @ frag))
     else if fault = FailRepairStat then (Inl RepairStat, Some (pre @ frag))
     else if pre @ frag = [] then (Inr no_repair, Some (pre @ frag))
     else if fault = FailReadLast then (Inl RepairReadLast, Some (pre @ frag))
     else if frag = [] then (Inr no_repair, Some pre)
     else
       case fault of
         FailReadTail \<Rightarrow> (Inl RepairReadTail, Some (pre @ frag))
       | ShrankTo n \<Rightarrow> (Inl (RepairShrank n (length (pre @ frag) - (length (pre @ frag) - exporter_maxScanTokenSize))), Some (pre @ frag))
       | _ \<Rightarrow>
         if \<not> rest_in_reach pre frag then (Inl NoLineTerminator, Some (pre @ frag))
         else if json_Valid (TrimSpace frag) then
           (if fault = FailWriteNewline then (Inl RepairTerminate, Some (pre @ frag))
            else if fault = FailSyncTerminated then (Inl RepairSyncTerminated, Some (pre @ frag @ [LF]))
            else (Inr \<lparr>repDropped = 0, repTerminated = length frag, repPrefix = take maxTornTailPrefix frag\<rparr>, Some (pre @ frag @ [LF])))
         else if fault = FailTruncateTail then (Inl RepairTruncate, Some (pre @ frag))
         else if fault = FailSyncRepair then (Inl RepairSync, Some pre)
         else (Inr \<lparr>repDropped = length frag, repTerminated = 0, repPrefix = take maxTornTailPrefix frag\<rparr>, Some pre))"
proof (cases "frag = []")
  case True
  then show ?thesis using assms(1) by (auto simp: repairTrailingPartialLine_def whole_lines_def)
next
  case False
  then have "last frag \<noteq> LF" using assms(2) by (metis last_in_set)
  then have ne: "pre @ frag \<noteq> []" "last (pre @ frag) \<noteq> LF" using False by simp_all
  define s start buf where defs: "s = pre @ frag" "start = length s - exporter_maxScanTokenSize" "buf = drop start s"
  note sc = scan_back [OF assms False, folded defs(1), folded defs(2), folded defs(3)]
  have take_pre: "take (length pre) s = pre" "length s - length pre = length frag" "length s - start = length buf"
    "s @ [LF] = pre @ frag @ [LF]"
    by (simp_all add: defs)
  show ?thesis
    using sc ne False take_pre
    unfolding repairTrailingPartialLine_def option.case Let_def defs(1) [symmetric] defs(2) [symmetric] defs(3) [symmetric]
    by (cases fault; cases "rest_in_reach pre frag") simp_all
qed

section \<open>Properties\<close>

text \<open>C25. The repair of any file, under any fault: its complete lines are never touched; what follows the
  last line feed is kept, terminated with a line feed, or removed, and it is removed only if it is
  no JSON document; on success the file ends at a line boundary, and the report gives the number
  and the first 256 of the bytes affected. Without a fault the repair succeeds unless the rest is
  too long to have been one line.\<close>

theorem repair_keeps_complete_lines:
  assumes "whole_lines pre" and "LF \<notin> set frag"
    and "repairTrailingPartialLine fault (Some (pre @ frag)) = (res, content)"
  shows "content \<in> {Some (pre @ frag), Some (pre @ frag @ [LF]), Some pre} \<and>
    (frag \<noteq> [] \<and> content = Some pre \<longrightarrow> \<not> json_Valid (TrimSpace frag)) \<and>
    (\<forall>rep. res = Inr rep \<longrightarrow> (\<exists>s. content = Some s \<and> whole_lines s) \<and>
       rep = (if frag = [] then no_repair
              else if json_Valid (TrimSpace frag)
              then \<lparr>repDropped = 0, repTerminated = length frag, repPrefix = take maxTornTailPrefix frag\<rparr>
              else \<lparr>repDropped = length frag, repTerminated = 0, repPrefix = take maxTornTailPrefix frag\<rparr>)) \<and>
    (fault = RepairOK \<longrightarrow> ((\<exists>rep. res = Inr rep) \<longleftrightarrow> frag = [] \<or> rest_in_reach pre frag))"
proof (cases "frag = []")
  case True
  then show ?thesis
    using assms(1,3) unfolding repair_parts [OF assms(1,2)]
    by (cases fault; cases "pre = []") (auto simp: whole_lines_def)
next
  case False
  then show ?thesis
    using assms(1,3) unfolding repair_parts [OF assms(1,2)]
    by (cases fault; cases "rest_in_reach pre frag"; cases "json_Valid (TrimSpace frag)") (auto simp: whole_lines_def)
qed

theorem repair_keeps_complete_lines_witness:
  "snd (repairTrailingPartialLine FailTruncateTail (Some ((''ab'' @ [LF]) @ ''12''))) \<in>
     {Some ((''ab'' @ [LF]) @ ''12''), Some ((''ab'' @ [LF]) @ ''12'' @ [LF]), Some (''ab'' @ [LF])}"
  using repair_keeps_complete_lines [of "''ab'' @ [LF]" "''12''" FailTruncateTail, OF _ _ surjective_pairing]
  by (simp add: whole_lines_def)

text \<open>A line that was cut short: it starts like an object and lacks at least its closing brace.\<close>

lemma torn_not_valid:
  assumes "json_Valid (t @ q)" and "hd (t @ q) = CHR ''{''" and "last (t @ q) = CHR ''}''" and "t \<noteq> []" and "q \<noteq> []"
  shows "\<not> json_Valid (TrimSpace t)"
proof -
  have hd: "hd t = CHR ''{''" using assms(2,4) by simp
  then obtain u where u: "t = TrimSpace t @ u" "TrimSpace t \<noteq> []"
    using TrimSpace_prefix [of t] assms(4) by auto
  have "json_Valid (TrimSpace t @ u @ q)" using assms(1) u(1) by (metis append_assoc)
  moreover have "hd (TrimSpace t) = CHR ''{''" using u hd by (metis hd_append2)
  moreover have "last (u @ q) = CHR ''}''" using assms(3,5) by simp
  ultimately show ?thesis using no_valid_prefix [of "TrimSpace t" "u @ q"] u(2) assms(5) by simp
qed

lemma json_Valid_render: "wf_json max_nesting j \<Longrightarrow> json_Valid (render j)"
  by (simp add: json_Valid_def parse_render)

lemma torn_log_not_valid: "MarshalLogEntry e = t @ q \<Longrightarrow> t \<noteq> [] \<Longrightarrow> q \<noteq> [] \<Longrightarrow> \<not> json_Valid (TrimSpace t)"
  using torn_not_valid [of t q] log_line(2,3) [of e] json_Valid_render [OF wf_LogEntry_json [of e]]
  by (simp add: MarshalLogEntry_def)

lemma torn_checkpoint_not_valid:
  "Marshal_Checkpoint c = t @ q \<Longrightarrow> t \<noteq> [] \<Longrightarrow> q \<noteq> [] \<Longrightarrow> \<not> json_Valid (TrimSpace t)"
  using torn_not_valid [of t q] checkpoint_line(2,3) [of c] json_Valid_render [OF wf_Checkpoint_json(1) [of c]]
  by (simp add: Marshal_Checkpoint_def)

text \<open>A line written up to \<open>n\<close> bytes after complete lines: what the repair makes of it.\<close>

lemma repair_cut_line:
  assumes "whole_lines pre" and "LF \<notin> set l" and "length l < exporter_maxScanTokenSize"
    and "json_Valid (TrimSpace l)" and "\<And>t q. l = t @ q \<Longrightarrow> t \<noteq> [] \<Longrightarrow> q \<noteq> [] \<Longrightarrow> \<not> json_Valid (TrimSpace t)"
    and "l \<noteq> []"
  shows "\<exists>rep. repairTrailingPartialLine RepairOK (Some (pre @ take n (l @ [LF]))) =
     (Inr rep, Some (if length l \<le> n then pre @ l @ [LF] else pre))"
proof -
  consider "length l < n" | "n = length l" | "n < length l" by linarith
  then show ?thesis
  proof cases
    case 1
    then have "take n (l @ [LF]) = l @ [LF]" by simp
    moreover have "whole_lines (pre @ l @ [LF])" by (simp add: whole_lines_def)
    ultimately show ?thesis using repair_parts [of "pre @ l @ [LF]" "[]" RepairOK] 1 by simp
  next
    case 2
    then show ?thesis
      using repair_parts [OF assms(1,2), of RepairOK] assms(3,4,6) by (simp add: rest_in_reach_def)
  next
    case 3
    have t: "take n (l @ [LF]) = take n l" "LF \<notin> set (take n l)" "length (take n l) < exporter_maxScanTokenSize"
      using 3 assms(2,3) in_set_takeD by fastforce+
    have "n \<noteq> 0 \<Longrightarrow> \<not> json_Valid (TrimSpace (take n l))"
      using assms(5) [of "take n l" "drop n l"] 3 assms(6) by simp
    then show ?thesis
      using repair_parts [OF assms(1) t(2), of RepairOK] t(1,3) 3 assms(6)
      by (cases "n = 0") (auto simp: rest_in_reach_def)
  qed
qed

text \<open>Recovery of a torn file: if a crash cuts the write of one more log entry, or of one more checkpoint,
  after any number of bytes, the repair that \<open>Start\<close> runs leaves exactly the complete lines, with the new
  one among them if and only if all of it but its line feed had been written, so that the next append
  starts a fresh line and no durable record is lost.\<close>

theorem torn_write_is_repaired:
  assumes "short_line (MarshalLogEntry e)" and "short_line (Marshal_Checkpoint c)"
  shows "(\<exists>rep. repairTrailingPartialLine RepairOK (Some (log_file es @ take n (MarshalLogEntry e @ [LF]))) =
       (Inr rep, Some (log_file (if length (MarshalLogEntry e) \<le> n then es @ [e] else es)))) \<and>
    (\<exists>rep. repairTrailingPartialLine RepairOK (Some (checkpoint_file cs @ take n (Marshal_Checkpoint c @ [LF]))) =
       (Inr rep, Some (checkpoint_file (if length (Marshal_Checkpoint c) \<le> n then cs @ [c] else cs))))"
proof -
  have v: "json_Valid (TrimSpace (MarshalLogEntry e))" "json_Valid (TrimSpace (Marshal_Checkpoint c))"
    using json_Valid_render [OF wf_LogEntry_json [of e]] json_Valid_render [OF wf_Checkpoint_json(1) [of c]]
      log_line(4) checkpoint_line(4) by (simp_all add: MarshalLogEntry_def Marshal_Checkpoint_def)
  have sh: "length (MarshalLogEntry e) < exporter_maxScanTokenSize" "length (Marshal_Checkpoint c) < exporter_maxScanTokenSize"
    using assms by (simp_all add: short_line_def maxScanTokenSize_def exporter_maxScanTokenSize_def)
  have "\<exists>rep. repairTrailingPartialLine RepairOK (Some (log_file es @ take n (MarshalLogEntry e @ [LF]))) =
      (Inr rep, Some (if length (MarshalLogEntry e) \<le> n then log_file es @ MarshalLogEntry e @ [LF] else log_file es))"
    by (rule repair_cut_line [OF whole_lines_file log_line(1) sh(1) v(1) _ log_line(5)]) (rule torn_log_not_valid)
  moreover have "\<exists>rep. repairTrailingPartialLine RepairOK (Some (checkpoint_file cs @ take n (Marshal_Checkpoint c @ [LF]))) =
      (Inr rep, Some (if length (Marshal_Checkpoint c) \<le> n then checkpoint_file cs @ Marshal_Checkpoint c @ [LF] else checkpoint_file cs))"
    by (rule repair_cut_line [OF whole_lines_file checkpoint_line(1) sh(2) v(2) _ checkpoint_line(5)]) (rule torn_checkpoint_not_valid)
  ultimately show ?thesis by (simp only: if_distrib [of "\<lambda>x. terminate_lines (map _ x)"] list.map map_append terminate_lines_simps append_assoc append_Cons append_Nil if_cancel)
qed

lemma fixture_lines_short: "short_line (MarshalLogEntry fixture_entry)" "short_line (Marshal_Checkpoint fixture_checkpoint)"
  by (simp_all add: short_line_def maxScanTokenSize_def MarshalLogEntry_def LogEntry_json_def SignedEntry_json_def
      fixture_entry_def fixture_checkpoint_def Marshal_Checkpoint_def Checkpoint_json_def TraceTip_json_def
      ZeroPrev_hex esc_plain plain_hex_Encode fixture_simps)

theorem torn_write_is_repaired_witness:
  "\<exists>rep. repairTrailingPartialLine RepairOK (Some (log_file [fixture_entry] @ take 9 (MarshalLogEntry fixture_entry @ [LF]))) =
     (Inr rep, Some (log_file (if length (MarshalLogEntry fixture_entry) \<le> 9 then [fixture_entry] @ [fixture_entry] else [fixture_entry])))"
  using torn_write_is_repaired [OF fixture_lines_short, of "[fixture_entry]" 9] by blast

end
