(* ===== verification/Wal.thy ===== *)
theory Wal
  imports Checkpoint
begin

text \<open>
  \<open>internal/wal/wal.go\<close>: the write-ahead log of buffered spans. Its state is the contents of the file
  at its path and whether the append descriptor still writes to that file. What the operating
  system answers is an argument: a write that stops after some bytes, a failing sync, and for
  \<open>Compact\<close> the first step that fails. \<open>Replay\<close> and \<open>Compact\<close> read the same lines with the same
  loop, modelled as two folds over the decoded entries.
  The lemmas show that a line written is read back, that every entry that was read can be written
  again, and what \<open>Replay\<close> gives before and after a compaction. \<open>Wal_Store\<close> states the contract the
  exporter relies on over them.
\<close>

definition entryTypeSpan :: bytes where "entryTypeSpan = ''span''"
definition entryTypeSealed :: bytes where "entryTypeSealed = ''sealed''"

definition wal_maxScanTokenSize :: nat where "wal_maxScanTokenSize = 4 * 1024 * 1024"

record walEntry =
  weType :: bytes
  weTraceID :: bytes
  weRecord :: "AuditRecord option"
  weTipHash :: bytes
  weEntryCount :: int

record SealedTip =
  stTraceID :: bytes
  stTipHash :: bytes
  stEntryCount :: int

text \<open>The encoding, with the members that \<open>omitempty\<close> leaves out.\<close>

definition walEntry_json :: "walEntry \<Rightarrow> json" where
  "walEntry_json e = JObj
     ([(''type'', json_string (weType e)), (''trace_id'', json_string (weTraceID e))] @
      (case weRecord e of None \<Rightarrow> [] | Some r \<Rightarrow> [(''record'', AuditRecord_json r)]) @
      (if weTipHash e = [] then [] else [(''tip_hash'', json_string (weTipHash e))]) @
      (if weEntryCount e = 0 then [] else [(''entry_count'', JNum (FormatInt (weEntryCount e)))]))"

definition Marshal_walEntry :: "walEntry \<Rightarrow> bytes" where
  "Marshal_walEntry e = render (walEntry_json e)"

text \<open>A pointer member: \<open>null\<close> is nil, an object is decoded into a fresh value or the one there is.\<close>

definition pointer_field :: "'a fields \<Rightarrow> 'a \<Rightarrow> ('r \<Rightarrow> 'a option) \<Rightarrow> (('a option \<Rightarrow> 'a option) \<Rightarrow> 'r \<Rightarrow> 'r) \<Rightarrow> 'r setter" where
  "pointer_field fs zero get upd j r =
     (case j of
        JNull \<Rightarrow> Some (upd (\<lambda>_. None) r)
      | _ \<Rightarrow> map_option (\<lambda>a. upd (\<lambda>_. Some a) r)
               (decode_struct fs j (case get r of None \<Rightarrow> zero | Some a \<Rightarrow> a)))"

definition walEntry_fields :: "walEntry fields" where
  "walEntry_fields =
     [(''type'', string_field weType_update), (''trace_id'', string_field weTraceID_update),
      (''record'', pointer_field AuditRecord_fields AuditRecord_zero weRecord weRecord_update),
      (''tip_hash'', string_field weTipHash_update), (''entry_count'', int_field weEntryCount_update)]"

definition walEntry_zero :: walEntry where
  "walEntry_zero = \<lparr>weType = [], weTraceID = [], weRecord = None, weTipHash = [], weEntryCount = 0\<rparr>"

definition Unmarshal_walEntry :: "bytes \<Rightarrow> walEntry option" where
  "Unmarshal_walEntry line = json_Unmarshal walEntry_fields walEntry_zero line"

section \<open>The log\<close>

text \<open>The append descriptor: open, closed by a \<open>Compact\<close> that could not reopen it, or nil after \<open>Close\<close>.\<close>

datatype descriptor = FdOpen | FdClosed | FdNil

record WAL =
  walContent :: "bytes option"
  walFd :: descriptor

datatype wal_error =
    WalOpen | WalWrite | WalSync | WalReplayOpen | WalReplayScan
  | CompactOpen | CompactScan | CompactCreateTemp | CompactEncodeMarker | CompactEncode
  | CompactSync | CompactRename | CompactReopen | WalClose

text \<open>\<open>Open\<close>: the file is created if it is absent.\<close>

definition Open :: "bool \<Rightarrow> bytes option \<Rightarrow> wal_error + WAL" where
  "Open os_ok content =
     (if os_ok then Inr \<lparr>walContent = Some (case content of None \<Rightarrow> [] | Some s \<Rightarrow> s), walFd = FdOpen\<rparr>
      else Inl WalOpen)"

text \<open>A write reaches the file whole, or the system reports an error after some of its bytes.\<close>

datatype write_outcome = WriteOK | WriteFails nat

definition appendEntry :: "write_outcome \<Rightarrow> walEntry \<Rightarrow> WAL \<Rightarrow> wal_error option \<times> WAL" where
  "appendEntry out entry w =
     (let line = Marshal_walEntry entry @ [LF] in
      if walFd w \<noteq> FdOpen then (Some WalWrite, w)
      else
        (case out of
           WriteOK \<Rightarrow> (None, w\<lparr>walContent := map_option (\<lambda>s. s @ line) (walContent w)\<rparr>)
         | WriteFails n \<Rightarrow> (Some WalWrite, w\<lparr>walContent := map_option (\<lambda>s. s @ take n line) (walContent w)\<rparr>)))"

definition AppendSpan :: "write_outcome \<Rightarrow> bytes \<Rightarrow> AuditRecord \<Rightarrow> WAL \<Rightarrow> wal_error option \<times> WAL" where
  "AppendSpan out trace rec w =
     appendEntry out \<lparr>weType = entryTypeSpan, weTraceID = trace, weRecord = Some rec, weTipHash = [], weEntryCount = 0\<rparr> w"

definition MarkSealed :: "write_outcome \<Rightarrow> bool \<Rightarrow> bytes \<Rightarrow> bytes \<Rightarrow> int \<Rightarrow> WAL \<Rightarrow> wal_error option \<times> WAL" where
  "MarkSealed out sync_ok trace hash entries w =
     (case appendEntry out \<lparr>weType = entryTypeSealed, weTraceID = trace, weRecord = None,
             weTipHash = hash, weEntryCount = entries\<rparr> w of
        (Some err, w') \<Rightarrow> (Some err, w')
      | (None, w') \<Rightarrow> (if sync_ok then None else Some WalSync, w'))"

text \<open>
  The scanner's lines that decode; the empty ones and those that do not decode are skipped,
  wherever they are.
\<close>

definition wal_entries :: "bytes \<Rightarrow> walEntry list" where
  "wal_entries s =
     List.map_filter Unmarshal_walEntry (filter (\<lambda>l. l \<noteq> []) (fst (scan_lines wal_maxScanTokenSize s)))"

definition al_delete :: "'k \<Rightarrow> ('k \<times> 'v) list \<Rightarrow> ('k \<times> 'v) list" where
  "al_delete k m = filter (\<lambda>p. fst p \<noteq> k) m"

record replay_state =
  rpSealed :: "bytes list"
  rpBuffers :: "(bytes \<times> AuditRecord list) list"
  rpSealedPending :: "SealedTip list"

definition replay_entry :: "walEntry \<Rightarrow> replay_state \<Rightarrow> replay_state" where
  "replay_entry entry st =
     (if weType entry = entryTypeSpan then
        (let st = (if List.member (rpSealed st) (weTraceID entry)
                   then st\<lparr>rpSealed := removeAll (weTraceID entry) (rpSealed st)\<rparr> else st)
         in case weRecord entry of
              None \<Rightarrow> st
            | Some r \<Rightarrow> st\<lparr>rpBuffers := al_append (weTraceID entry) r (rpBuffers st)\<rparr>)
      else if weType entry = entryTypeSealed then
        (let st = st\<lparr>rpSealed := weTraceID entry # rpSealed st, rpBuffers := al_delete (weTraceID entry) (rpBuffers st)\<rparr>
         in if weTipHash entry \<noteq> []
            then st\<lparr>rpSealedPending := rpSealedPending st @
                   [\<lparr>stTraceID = weTraceID entry, stTipHash = weTipHash entry, stEntryCount = weEntryCount entry\<rparr>]\<rparr>
            else st)
      else st)"

definition replay_start :: replay_state where
  "replay_start = \<lparr>rpSealed = [], rpBuffers = [], rpSealedPending = []\<rparr>"

definition Replay :: "disk_file \<Rightarrow> wal_error + (bytes \<times> AuditRecord list) list \<times> SealedTip list" where
  "Replay f =
     (case f of
        NotExist \<Rightarrow> Inr ([], [])
      | OpenFails \<Rightarrow> Inl WalReplayOpen
      | ReadFails \<Rightarrow> Inl WalReplayScan
      | Content s \<Rightarrow>
          if snd (scan_lines wal_maxScanTokenSize s) then Inl WalReplayScan
          else let st = fold replay_entry (wal_entries s) replay_start
               in Inr (rpBuffers st, rpSealedPending st))"

record compact_state =
  coSealed :: "bytes list"
  coSpans :: "(bytes \<times> AuditRecord) list"
  coKeepSealed :: "walEntry list"

definition compact_entry :: "(bytes \<times> bytes list) list \<Rightarrow> walEntry \<Rightarrow> compact_state \<Rightarrow> compact_state" where
  "compact_entry pending entry st =
     (if weType entry = entryTypeSpan then
        (let st = (if List.member (coSealed st) (weTraceID entry)
                   then st\<lparr>coSealed := removeAll (weTraceID entry) (coSealed st)\<rparr> else st)
         in case weRecord entry of
              None \<Rightarrow> st
            | Some r \<Rightarrow> st\<lparr>coSpans := coSpans st @ [(weTraceID entry, r)]\<rparr>)
      else if weType entry = entryTypeSealed then
        (let st = st\<lparr>coSealed := weTraceID entry # coSealed st,
                     coSpans := filter (\<lambda>s. fst s \<noteq> weTraceID entry) (coSpans st)\<rparr>
         in if List.member (al_get pending (weTraceID entry)) (weTipHash entry)
            then st\<lparr>coKeepSealed := coKeepSealed st @ [entry]\<rparr> else st)
      else st)"

definition compact_start :: compact_state where
  "compact_start = \<lparr>coSealed = [], coSpans = [], coKeepSealed = []\<rparr>"

definition span_entry :: "bytes \<times> AuditRecord \<Rightarrow> walEntry" where
  "span_entry s = \<lparr>weType = entryTypeSpan, weTraceID = fst s, weRecord = Some (snd s), weTipHash = [], weEntryCount = 0\<rparr>"

text \<open>What \<open>Compact\<close> writes: the retained markers, then the spans of the traces still open.\<close>

definition retained :: "(bytes \<times> bytes list) list \<Rightarrow> bytes \<Rightarrow> walEntry list" where
  "retained pending s = coKeepSealed (fold (compact_entry pending) (wal_entries s) compact_start)"

definition open_spans :: "(bytes \<times> bytes list) list \<Rightarrow> bytes \<Rightarrow> (bytes \<times> AuditRecord) list" where
  "open_spans pending s = coSpans (fold (compact_entry pending) (wal_entries s) compact_start)"

definition compacted :: "(bytes \<times> bytes list) list \<Rightarrow> bytes \<Rightarrow> walEntry list" where
  "compacted pending s = retained pending s @ map span_entry (open_spans pending s)"

abbreviation wal_file :: "walEntry list \<Rightarrow> bytes" where
  "wal_file es \<equiv> terminate_lines (map Marshal_walEntry es)"

text \<open>The first step of \<open>Compact\<close> that the system fails, if any; a failed directory sync is only warned of.\<close>

datatype compact_fault =
  NoFault | FailOpen | FailRead | FailCreateTemp | FailEncodeMarker | FailEncode | FailSync | FailRename
  | FailReopen | FailDirSync

text \<open>The result: the error, whether the warn callback is called, and the log.\<close>

definition Compact :: "compact_fault \<Rightarrow> (bytes \<times> bytes list) list \<Rightarrow> WAL \<Rightarrow> wal_error option \<times> bool \<times> WAL" where
  "Compact fault pending w =
     (case walContent w of
        None \<Rightarrow> (None, False, w)
      | Some s \<Rightarrow>
          if fault = FailOpen then (Some CompactOpen, False, w)
          else if fault = FailRead \<or> snd (scan_lines wal_maxScanTokenSize s) then (Some CompactScan, False, w)
          else if fault = FailCreateTemp then (Some CompactCreateTemp, False, w)
          else if fault = FailEncodeMarker \<and> retained pending s \<noteq> [] then (Some CompactEncodeMarker, False, w)
          else if fault = FailEncode \<and> open_spans pending s \<noteq> [] then (Some CompactEncode, False, w)
          else if fault = FailSync then (Some CompactSync, False, w)
          else if fault = FailRename then (Some CompactRename, False, w)
          else
            let w' = w\<lparr>walContent := Some (wal_file (compacted pending s))\<rparr> in
            if fault = FailReopen then (Some CompactReopen, False, w'\<lparr>walFd := FdClosed\<rparr>)
            else (None, fault = FailDirSync, w'\<lparr>walFd := FdOpen\<rparr>))"

definition Close :: "bool \<Rightarrow> WAL \<Rightarrow> wal_error option \<times> WAL" where
  "Close os_ok w =
     (case walFd w of
        FdNil \<Rightarrow> (None, w)
      | FdClosed \<Rightarrow> (Some WalClose, w\<lparr>walFd := FdNil\<rparr>)
      | FdOpen \<Rightarrow> (if os_ok then None else Some WalClose, w\<lparr>walFd := FdNil\<rparr>))"

text \<open>What a restart finds at the path.\<close>

definition wal_disk :: "WAL \<Rightarrow> disk_file" where
  "wal_disk w = (case walContent w of None \<Rightarrow> NotExist | Some s \<Rightarrow> Content s)"

section \<open>Lines\<close>

definition valid_wal_entry :: "walEntry \<Rightarrow> bool" where
  "valid_wal_entry e \<longleftrightarrow>
     list_all valid_utf8 [weType e, weTraceID e, weTipHash e] \<and>
     (case weRecord e of None \<Rightarrow> True | Some r \<Rightarrow> valid_record r) \<and>
     - (2 ^ 63) \<le> weEntryCount e \<and> weEntryCount e < 2 ^ 63"

lemma wf_walEntry_depth: "wf_json (Suc (Suc (Suc (Suc d)))) (walEntry_json e)"
  unfolding walEntry_json_def
  by (rule wf_object) (auto simp: name_char_def wf_AuditRecord_json split: option.splits)

lemma wf_walEntry_json: "wf_json max_nesting (walEntry_json e)"
  unfolding nesting_4 by (rule wf_walEntry_depth)

lemma pointer_record:
  "valid_record r \<Longrightarrow> weRecord e = None \<Longrightarrow>
     pointer_field AuditRecord_fields AuditRecord_zero weRecord weRecord_update (AuditRecord_json r) e =
       Some (e\<lparr>weRecord := Some r\<rparr>)"
  using decode_AuditRecord_json [of r]
  by (simp add: pointer_field_def AuditRecord_json_def currentRecord_json_def legacyV1V2Record_json_def record_json_def
      split: if_splits)

lemma Unmarshal_Marshal_walEntry: "valid_wal_entry e \<Longrightarrow> Unmarshal_walEntry (Marshal_walEntry e) = Some e"
  unfolding Unmarshal_walEntry_def Marshal_walEntry_def json_Unmarshal_render [OF wf_walEntry_json]
  by (cases "weRecord e"; cases "weTipHash e = []"; cases "weEntryCount e = 0")
     (simp_all add: walEntry_json_def walEntry_fields_def decode_member name_char_def string_field_def int_field_def
       pointer_record ParseInt_FormatInt valid_wal_entry_def unq_esc walEntry_zero_def del: decode_members.simps(2))

lemma wal_line:
  "LF \<notin> set (Marshal_walEntry e)" "hd (Marshal_walEntry e) = CHR ''{''" "last (Marshal_walEntry e) = CHR ''}''"
  "Marshal_walEntry e \<noteq> []"
  using object_line [OF wf_walEntry_json [of e, unfolded walEntry_json_def]]
  by (simp_all add: Marshal_walEntry_def walEntry_json_def)

text \<open>What decodes is valid, so that any line that was read can be written again.\<close>

lemma valid_wal_zero: "valid_wal_entry walEntry_zero"
  by (simp add: valid_wal_entry_def walEntry_zero_def)

lemma pointer_valid:
  assumes "pointer_field AuditRecord_fields AuditRecord_zero weRecord weRecord_update j e = Some e'"
    and "valid_wal_entry e"
  shows "valid_wal_entry e'"
proof (cases "j = JNull")
  case True
  with assms show ?thesis by (auto simp: pointer_field_def valid_wal_entry_def)
next
  case False
  with assms(1) obtain a where a: "e' = e\<lparr>weRecord := Some a\<rparr>"
      "decode_struct AuditRecord_fields j (case weRecord e of None \<Rightarrow> AuditRecord_zero | Some a \<Rightarrow> a) = Some a"
    by (auto simp: pointer_field_def split: json.splits)
  have "valid_record (case weRecord e of None \<Rightarrow> AuditRecord_zero | Some a \<Rightarrow> a)"
    using assms(2) valid_record_zero by (auto simp: valid_wal_entry_def split: option.splits)
  from decode_AuditRecord_valid [OF a(2) this] show ?thesis using assms(2) a(1) by (simp add: valid_wal_entry_def)
qed

lemma wal_setter_valid:
  assumes "(k, f) \<in> set walEntry_fields" and "valid_wal_entry e" and "f j e = Some e'"
  shows "valid_wal_entry e'"
proof -
  from assms(1) consider "f = string_field weType_update" | "f = string_field weTraceID_update"
    | "f = pointer_field AuditRecord_fields AuditRecord_zero weRecord weRecord_update"
    | "f = string_field weTipHash_update" | "f = int_field weEntryCount_update"
    by (auto simp: walEntry_fields_def)
  then show ?thesis
  proof cases
    case 3
    then show ?thesis using assms(2,3) pointer_valid by blast
  qed (use assms(2,3) in \<open>auto simp: string_field_def int_field_def valid_wal_entry_def valid_unq
        split: json.splits dest!: ParseInt_range\<close>)
qed

lemma Unmarshal_walEntry_valid: "Unmarshal_walEntry l = Some e \<Longrightarrow> valid_wal_entry e"
  unfolding Unmarshal_walEntry_def json_Unmarshal_def
  by (auto split: option.splits intro: decode_struct_inv [where P = valid_wal_entry, OF wal_setter_valid _ valid_wal_zero])

lemma wal_entries_valid: "e \<in> set (wal_entries s) \<Longrightarrow> valid_wal_entry e"
  by (auto simp: wal_entries_def List.map_filter_def intro: Unmarshal_walEntry_valid)

definition short_entry :: "walEntry \<Rightarrow> bool" where
  "short_entry e \<longleftrightarrow> length (Marshal_walEntry e) < wal_maxScanTokenSize"

lemma torn_wal_line:
  assumes "Marshal_walEntry e = t @ q" and "q \<noteq> []" and "t \<noteq> []"
  shows "Unmarshal_walEntry t = None"
proof -
  have "parse_json (Marshal_walEntry e) \<noteq> None"
    by (simp add: Marshal_walEntry_def parse_render wf_walEntry_json)
  then have "json_Valid (t @ q)" using assms(1) by (simp add: json_Valid_def)
  moreover have "hd t = CHR ''{''" "last q = CHR ''}''"
    using wal_line(2,3) [of e] assms by simp_all
  ultimately have "\<not> json_Valid t" using no_valid_prefix assms(2,3) by blast
  then show ?thesis by (simp add: json_Valid_def Unmarshal_walEntry_def json_Unmarshal_def)
qed

lemma scannable_wal_line: "short_entry e \<Longrightarrow> scannable wal_maxScanTokenSize (Marshal_walEntry e)"
  using wal_line(1,3) [of e] by (auto simp: scannable_def short_entry_def)

text \<open>A log written entry by entry, with or without a torn last line.\<close>

lemma read_wal_file:
  assumes "\<forall>e \<in> set es. valid_wal_entry e \<and> short_entry e"
    and "t = [] \<or> (\<exists>e q. Marshal_walEntry e = t @ q \<and> q \<noteq> [] \<and> short_entry e)"
  shows "wal_entries (wal_file es @ t) = es" "\<not> snd (scan_lines wal_maxScanTokenSize (wal_file es @ t))"
proof -
  have t: "scannable wal_maxScanTokenSize t"
  proof (cases "t = []")
    case False
    then obtain e q where e: "Marshal_walEntry e = t @ q" "q \<noteq> []" "short_entry e" using assms(2) by blast
    have "last t \<in> set (Marshal_walEntry e)" using False e(1) by simp
    then have "32 \<le> byte (last t)"
      using render_visible [OF wf_walEntry_json [of e]] by (simp add: Marshal_walEntry_def)
    then have "last t \<noteq> CR" by auto
    moreover have "LF \<notin> set t" using wal_line(1) [of e] e(1) by auto
    moreover have "length t < wal_maxScanTokenSize" using e(1,3) by (simp add: short_entry_def)
    ultimately show ?thesis by (simp add: scannable_def)
  qed (simp add: scannable_def wal_maxScanTokenSize_def)
  have torn: "t \<noteq> [] \<Longrightarrow> Unmarshal_walEntry t = None" using assms(2) torn_wal_line by blast
  have sc: "scan_lines wal_maxScanTokenSize (wal_file es @ t) =
      (if t = [] then map Marshal_walEntry es else map Marshal_walEntry es @ [t], False)"
    using assms(1) scannable_wal_line t by (intro scan_terminated) auto
  have "List.map_filter Unmarshal_walEntry (map Marshal_walEntry es) = es"
    using assms(1) by (induction es) (simp_all add: Unmarshal_Marshal_walEntry map_filter_simps)
  moreover have "filter (\<lambda>l. l \<noteq> []) (map Marshal_walEntry es) = map Marshal_walEntry es"
    using wal_line(4) by (auto simp: filter_id_conv)
  moreover have "List.map_filter f (xs @ ys) = List.map_filter f xs @ List.map_filter f ys" for f :: "bytes \<Rightarrow> walEntry option" and xs ys
    by (simp add: List.map_filter_def)
  ultimately show "wal_entries (wal_file es @ t) = es"
    using torn by (simp add: wal_entries_def sc map_filter_simps)
  show "\<not> snd (scan_lines wal_maxScanTokenSize (wal_file es @ t))" by (simp add: sc)
qed

text \<open>A last line that only lost its line feed still counts.\<close>

lemma full_wal_line:
  assumes "\<forall>e \<in> set es. valid_wal_entry e \<and> short_entry e" and "valid_wal_entry e" and "short_entry e"
  shows "wal_entries (wal_file es @ Marshal_walEntry e) = es @ [e]"
    "\<not> snd (scan_lines wal_maxScanTokenSize (wal_file es @ Marshal_walEntry e))"
proof -
  have "scan_lines wal_maxScanTokenSize (wal_file es @ Marshal_walEntry e) = (map Marshal_walEntry (es @ [e]), False)"
    using scan_terminated [of "map Marshal_walEntry es" wal_maxScanTokenSize "Marshal_walEntry e"]
      assms scannable_wal_line wal_line(4) [of e] by auto
  moreover have "scan_lines wal_maxScanTokenSize (wal_file (es @ [e])) = (map Marshal_walEntry (es @ [e]), False)"
    using scan_terminated [of "map Marshal_walEntry (es @ [e])" wal_maxScanTokenSize "[]"]
      assms scannable_wal_line by (auto simp: scannable_def wal_maxScanTokenSize_def)
  ultimately show "wal_entries (wal_file es @ Marshal_walEntry e) = es @ [e]"
    "\<not> snd (scan_lines wal_maxScanTokenSize (wal_file es @ Marshal_walEntry e))"
    using read_wal_file(1) [of "es @ [e]" "[]"] assms by (auto simp: wal_entries_def)
qed

section \<open>What Replay and Compact keep\<close>

definition is_span :: "walEntry \<Rightarrow> bool" where "is_span e \<longleftrightarrow> weType e = entryTypeSpan"
definition is_marker :: "walEntry \<Rightarrow> bool" where "is_marker e \<longleftrightarrow> weType e = entryTypeSealed"

definition tip_of_marker :: "walEntry \<Rightarrow> SealedTip" where
  "tip_of_marker e = \<lparr>stTraceID = weTraceID e, stTipHash = weTipHash e, stEntryCount = weEntryCount e\<rparr>"

lemma span_not_marker [simp]: "is_span e \<Longrightarrow> \<not> is_marker e"
  by (simp add: is_span_def is_marker_def entryTypeSpan_def entryTypeSealed_def)

text \<open>The spans of a list of entries that no later marker of their trace covers.\<close>

fun live_spans :: "walEntry list \<Rightarrow> (bytes \<times> AuditRecord) list \<Rightarrow> (bytes \<times> AuditRecord) list" where
  "live_spans [] acc = acc"
| "live_spans (e # es) acc =
     live_spans es
       (if is_span e then acc @ (case weRecord e of None \<Rightarrow> [] | Some r \<Rightarrow> [(weTraceID e, r)])
        else if is_marker e then filter (\<lambda>s. fst s \<noteq> weTraceID e) acc else acc)"

definition spans_of :: "bytes \<Rightarrow> (bytes \<times> AuditRecord) list \<Rightarrow> AuditRecord list" where
  "spans_of t ss = map snd (filter (\<lambda>s. fst s = t) ss)"

lemma spans_of_simps [simp]:
  "spans_of t [] = []" "spans_of t (ss @ ss') = spans_of t ss @ spans_of t ss'"
  "spans_of t [(t', r)] = (if t' = t then [r] else [])"
  "spans_of t (filter (\<lambda>s. fst s \<noteq> t') ss) = (if t' = t then [] else spans_of t ss)"
  by (simp_all add: spans_of_def) (induction ss; auto)

lemma live_spans_append: "live_spans (es @ fs) acc = live_spans fs (live_spans es acc)"
  by (induction es acc rule: live_spans.induct) auto

lemma compact_fold:
  "coSpans (fold (compact_entry p) es st) = live_spans es (coSpans st)"
  "coKeepSealed (fold (compact_entry p) es st) = coKeepSealed st @
     filter (\<lambda>e. is_marker e \<and> weTipHash e \<in> set (al_get p (weTraceID e))) es"
  by (induction es arbitrary: st)
     (auto simp: compact_entry_def is_span_def is_marker_def entryTypeSpan_def entryTypeSealed_def Let_def
       split: option.splits)

lemma al_get_delete [simp]: "al_get (al_delete k m) k' = (if k' = k then [] else al_get m k')"
  by (induction m) (auto simp: al_delete_def al_get_def)

lemma keys_delete [simp]: "fst ` set (al_delete k m) = fst ` set m - {k}"
  by (auto simp: al_delete_def)

text \<open>The map and the list of spans describe the same buffers; a key is present exactly when its buffer is not empty.\<close>

definition same_buffers :: "(bytes \<times> AuditRecord list) list \<Rightarrow> (bytes \<times> AuditRecord) list \<Rightarrow> bool" where
  "same_buffers m ss \<longleftrightarrow> (\<forall>t. al_get m t = spans_of t ss) \<and> fst ` set m = fst ` set ss"

lemma same_buffers_replay:
  assumes "same_buffers (rpBuffers st) ss"
  shows "same_buffers (rpBuffers (replay_entry e st)) (live_spans [e] ss)"
  using assms
  by (auto simp: same_buffers_def replay_entry_def is_span_def is_marker_def Let_def entryTypeSpan_def
      entryTypeSealed_def split: option.splits)

lemma replay_fold:
  "same_buffers (rpBuffers st) ss \<Longrightarrow> same_buffers (rpBuffers (fold replay_entry es st)) (live_spans es ss)"
proof (induction es arbitrary: st ss)
  case (Cons e es)
  from Cons.IH [OF same_buffers_replay [OF Cons.prems]] show ?case by simp
qed simp

lemma replay_tips:
  "rpSealedPending (fold replay_entry es st) = rpSealedPending st @
     map tip_of_marker (filter (\<lambda>e. is_marker e \<and> weTipHash e \<noteq> []) es)"
  by (induction es arbitrary: st)
     (auto simp: replay_entry_def is_span_def is_marker_def entryTypeSpan_def entryTypeSealed_def Let_def
       tip_of_marker_def split: option.splits)

text \<open>What \<open>Replay\<close> returns, as a function of the entries it decoded.\<close>

definition replays :: "walEntry list \<Rightarrow> (bytes \<times> AuditRecord list) list \<times> SealedTip list \<Rightarrow> bool" where
  "replays es r \<longleftrightarrow> same_buffers (fst r) (live_spans es []) \<and>
     snd r = map tip_of_marker (filter (\<lambda>e. is_marker e \<and> weTipHash e \<noteq> []) es)"

lemma Replay_Content:
  assumes "\<not> snd (scan_lines wal_maxScanTokenSize s)"
  shows "\<exists>r. Replay (Content s) = Inr r \<and> replays (wal_entries s) r"
  using assms replay_fold [of replay_start "[]" "wal_entries s"] replay_tips [of "wal_entries s" replay_start]
  by (simp add: Replay_def Let_def replays_def replay_start_def same_buffers_def)

lemma live_spans_of_spans: "live_spans (map span_entry ss) acc = acc @ ss"
  by (induction ss arbitrary: acc) (auto simp: span_entry_def is_span_def)

lemma live_spans_of_markers: "\<forall>e \<in> set es. is_marker e \<Longrightarrow> live_spans es [] = []"
  by (induction es) (auto simp: is_span_def is_marker_def entryTypeSpan_def entryTypeSealed_def)

lemma compacted_eq:
  "compacted p s = filter (\<lambda>e. is_marker e \<and> weTipHash e \<in> set (al_get p (weTraceID e))) (wal_entries s) @
     map span_entry (live_spans (wal_entries s) [])"
  by (simp add: compacted_def retained_def open_spans_def compact_fold compact_start_def)

lemma replays_compacted:
  assumes "replays (wal_entries s) r" and "replays (compacted p s) r'"
  shows "(\<forall>t. al_get (fst r') t = al_get (fst r) t) \<and> fst ` set (fst r') = fst ` set (fst r) \<and>
    snd r' = filter (\<lambda>x. stTipHash x \<in> set (al_get p (stTraceID x))) (snd r)"
proof -
  have live: "live_spans (compacted p s) [] = live_spans (wal_entries s) []"
    by (simp add: compacted_eq live_spans_append live_spans_of_markers live_spans_of_spans)
  have no_marker: "\<not> is_marker (span_entry x)" for x
    by (simp add: span_entry_def is_marker_def entryTypeSpan_def entryTypeSealed_def)
  have "snd r' = map tip_of_marker (filter (\<lambda>e. is_marker e \<and> weTipHash e \<noteq> []) (compacted p s))"
    using assms(2) by (simp add: replays_def)
  also have "\<dots> = filter (\<lambda>x. stTipHash x \<in> set (al_get p (stTraceID x))) (snd r)"
    using assms(1)
    by (simp add: replays_def compacted_eq no_marker filter_map comp_def tip_of_marker_def conj_commute conj_left_commute)
  finally show ?thesis using assms live by (simp add: replays_def same_buffers_def)
qed

lemma live_spans_sub:
  "(t, r) \<in> set (live_spans es acc) \<Longrightarrow> (t, r) \<in> set acc \<or> (\<exists>e \<in> set es. is_span e \<and> weTraceID e = t \<and> weRecord e = Some r)"
  by (induction es acc rule: live_spans.induct) (auto split: if_splits option.splits)

lemma compacted_valid:
  assumes "e \<in> set (compacted p s)"
  shows "valid_wal_entry e"
proof -
  from assms consider "e \<in> set (wal_entries s)" | t r where "e = span_entry (t, r)" "(t, r) \<in> set (live_spans (wal_entries s) [])"
    by (auto simp: compacted_eq)
  then show ?thesis
  proof cases
    case 2
    then obtain d where "d \<in> set (wal_entries s)" "weTraceID d = t" "weRecord d = Some r"
      using live_spans_sub by fastforce
    with wal_entries_valid [of d s] 2(1) show ?thesis
      by (simp add: valid_wal_entry_def span_entry_def entryTypeSpan_def plain_valid_utf8)
  qed (rule wal_entries_valid)
qed

lemma Replay_compacted:
  assumes "\<not> snd (scan_lines wal_maxScanTokenSize s)" and "\<forall>e \<in> set (compacted p s). short_entry e"
  shows "\<exists>r r'. Replay (Content s) = Inr r \<and> Replay (Content (wal_file (compacted p s))) = Inr r' \<and>
    (\<forall>t. al_get (fst r') t = al_get (fst r) t) \<and> fst ` set (fst r') = fst ` set (fst r) \<and>
    snd r' = filter (\<lambda>x. stTipHash x \<in> set (al_get p (stTraceID x))) (snd r)"
proof -
  have "\<forall>e \<in> set (compacted p s). valid_wal_entry e \<and> short_entry e"
    using assms(2) compacted_valid by blast
  note rd = read_wal_file [OF this, of "[]", simplified]
  obtain r where r: "Replay (Content s) = Inr r" "replays (wal_entries s) r"
    using Replay_Content [OF assms(1)] by blast
  obtain r' where r': "Replay (Content (wal_file (compacted p s))) = Inr r'" "replays (compacted p s) r'"
    using Replay_Content rd by metis
  show ?thesis using r r' replays_compacted [OF r(2) r'(2)] by blast
qed

end
