(* ===== verification/Wal_Store.thy ===== *)
theory Wal_Store
  imports Wal
begin

text \<open>
  The contract between the exporter and its write-ahead log. The abstract log is the list of open
  spans and the list of tips owed to a checkpoint; the locale \<open>span_store\<close> states what \<open>AppendSpan\<close>,
  \<open>MarkSealed\<close> and \<open>Compact\<close> do to it, and its lemmas follow a log through any sequence of
  operations. The interpretation \<open>wal\<close> discharges the laws on the model of \<open>wal.go\<close>. The properties
  are about what a restart reads back: after any sequence of operations, after an operation cut short
  anywhere, and when one line is too long to be read.
\<close>

section \<open>The contract\<close>

record span_log =
  slSpans :: "(bytes \<times> AuditRecord) list"
  slTips :: "SealedTip list"

datatype wal_op =
    OpAppend bytes AuditRecord
  | OpMark bytes bytes int
  | OpCompact "(bytes \<times> bytes list) list"

definition still_pending :: "(bytes \<times> bytes list) list \<Rightarrow> SealedTip \<Rightarrow> bool" where
  "still_pending p x \<longleftrightarrow> stTipHash x \<in> set (al_get p (stTraceID x))"

fun log_op :: "wal_op \<Rightarrow> span_log \<Rightarrow> span_log" where
  "log_op (OpAppend t r) a = a\<lparr>slSpans := slSpans a @ [(t, r)]\<rparr>"
| "log_op (OpMark t h n) a =
     a\<lparr>slSpans := filter (\<lambda>s. fst s \<noteq> t) (slSpans a),
       slTips := slTips a @ (if h = [] then [] else [\<lparr>stTraceID = t, stTipHash = h, stEntryCount = n\<rparr>])\<rparr>"
| "log_op (OpCompact p) a = a\<lparr>slTips := filter (still_pending p) (slTips a)\<rparr>"

locale span_store =
  fixes run :: "wal_op \<Rightarrow> 'w \<Rightarrow> 'w"
    and view :: "'w \<Rightarrow> span_log"
    and ok :: "'w \<Rightarrow> bool"
    and fits :: "wal_op \<Rightarrow> bool"
  assumes ok_run: "ok w \<Longrightarrow> fits x \<Longrightarrow> ok (run x w)"
    and view_run: "ok w \<Longrightarrow> fits x \<Longrightarrow> view (run x w) = log_op x (view w)"
begin

lemma runs: "ok w \<Longrightarrow> list_all fits xs \<Longrightarrow> ok (fold run xs w) \<and> view (fold run xs w) = fold log_op xs (view w)"
  by (induction xs arbitrary: w) (simp_all add: ok_run view_run)

text \<open>A tip stays until a compaction is told that it is not pending.\<close>

lemma tip_stays:
  assumes "ok w" and "list_all fits xs" and "x \<in> set (slTips (view w))"
    and "\<forall>p. OpCompact p \<in> set xs \<longrightarrow> still_pending p x"
  shows "x \<in> set (slTips (view (fold run xs w)))"
proof -
  have "x \<in> set (slTips a) \<Longrightarrow> \<forall>p. OpCompact p \<in> set xs \<longrightarrow> still_pending p x \<Longrightarrow>
      x \<in> set (slTips (fold log_op xs a))" for a
  proof (induction xs arbitrary: a)
    case (Cons y ys)
    then show ?case by (cases y) auto
  qed simp
  then show ?thesis using assms runs [OF assms(1,2)] by simp
qed

text \<open>A span stays until its trace is marked.\<close>

lemma span_stays:
  assumes "ok w" and "list_all fits xs" and "s \<in> set (slSpans (view w))"
    and "\<forall>h n. OpMark (fst s) h n \<notin> set xs"
  shows "s \<in> set (slSpans (view (fold run xs w)))"
proof -
  have "s \<in> set (slSpans a) \<Longrightarrow> \<forall>h n. OpMark (fst s) h n \<notin> set xs \<Longrightarrow> s \<in> set (slSpans (fold log_op xs a))" for a
  proof (induction xs arbitrary: a)
    case (Cons y ys)
    have "s \<in> set (slSpans (log_op y a))" using Cons.prems by (cases y) auto
    with Cons.IH [of "log_op y a"] Cons.prems show ?case by simp
  qed simp
  then show ?thesis using assms runs [OF assms(1,2)] by simp
qed

end

section \<open>The write-ahead log keeps it\<close>

text \<open>One operation of the model, under what the system answers to it; its error, if any, is dropped.\<close>

fun wal_exec :: "write_outcome \<Rightarrow> bool \<Rightarrow> compact_fault \<Rightarrow> wal_op \<Rightarrow> WAL \<Rightarrow> WAL" where
  "wal_exec out sync_ok fault (OpAppend t r) w = snd (AppendSpan out t r w)"
| "wal_exec out sync_ok fault (OpMark t h n) w = snd (MarkSealed out sync_ok t h n w)"
| "wal_exec out sync_ok fault (OpCompact p) w = snd (snd (Compact fault p w))"

abbreviation wal_run :: "wal_op \<Rightarrow> WAL \<Rightarrow> WAL" where
  "wal_run \<equiv> wal_exec WriteOK True NoFault"

fun op_entry :: "wal_op \<Rightarrow> walEntry option" where
  "op_entry (OpAppend t r) = Some (span_entry (t, r))"
| "op_entry (OpMark t h n) =
     Some \<lparr>weType = entryTypeSealed, weTraceID = t, weRecord = None, weTipHash = h, weEntryCount = n\<rparr>"
| "op_entry (OpCompact p) = None"

definition good_entry :: "walEntry \<Rightarrow> bool" where
  "good_entry e \<longleftrightarrow> valid_wal_entry e \<and> short_entry e"

text \<open>The entries an operation writes are UTF-8, in the range of \<open>int\<close>, and shorter than the line limit.\<close>

definition op_fits :: "wal_op \<Rightarrow> bool" where
  "op_fits x \<longleftrightarrow> (case op_entry x of None \<Rightarrow> True | Some e \<Rightarrow> good_entry e)"

definition wal_ok :: "WAL \<Rightarrow> bool" where
  "wal_ok w \<longleftrightarrow> walFd w = FdOpen \<and> (\<exists>es. walContent w = Some (wal_file es) \<and> list_all good_entry es)"

definition entries_view :: "walEntry list \<Rightarrow> span_log" where
  "entries_view es =
     \<lparr>slSpans = live_spans es [],
      slTips = map tip_of_marker (filter (\<lambda>e. is_marker e \<and> weTipHash e \<noteq> []) es)\<rparr>"

definition wal_view :: "WAL \<Rightarrow> span_log" where
  "wal_view w = entries_view (case walContent w of None \<Rightarrow> [] | Some s \<Rightarrow> wal_entries s)"

text \<open>What \<open>Replay\<close> hands to \<open>Start\<close> is this log: the same buffer for every trace, the same tips.\<close>

definition reads_as :: "disk_file \<Rightarrow> span_log \<Rightarrow> bool" where
  "reads_as f a \<longleftrightarrow> (\<exists>r. Replay f = Inr r \<and> same_buffers (fst r) (slSpans a) \<and> snd r = slTips a)"

lemma wal_okE:
  assumes "wal_ok w"
  obtains es where "walFd w = FdOpen" "walContent w = Some (wal_file es)" "list_all good_entry es"
    "wal_entries (wal_file es) = es" "\<not> snd (scan_lines wal_maxScanTokenSize (wal_file es))"
    "wal_view w = entries_view es"
proof -
  from assms obtain es where es: "walFd w = FdOpen" "walContent w = Some (wal_file es)" "list_all good_entry es"
    by (auto simp: wal_ok_def)
  then have "\<forall>e \<in> set es. valid_wal_entry e \<and> short_entry e" by (simp add: list_all_iff good_entry_def)
  note rd = read_wal_file [OF this, of "[]", simplified]
  then show ?thesis using es that by (simp add: wal_view_def)
qed

lemma wal_okI: "list_all good_entry es \<Longrightarrow> wal_ok \<lparr>walContent = Some (wal_file es), walFd = FdOpen\<rparr>"
  by (auto simp: wal_ok_def)

lemma view_wal_file:
  "list_all good_entry es \<Longrightarrow> wal_view \<lparr>walContent = Some (wal_file es), walFd = FdOpen\<rparr> = entries_view es"
  using wal_okE [OF wal_okI [of es]] read_wal_file(1) [of es "[]"]
  by (simp add: wal_view_def list_all_iff good_entry_def)

lemma entries_view_append: "entries_view (es @ [e]) =
     (if is_span e then (entries_view es)\<lparr>slSpans := live_spans [e] (live_spans es [])\<rparr>
      else if is_marker e then
        \<lparr>slSpans = live_spans [e] (live_spans es []),
         slTips = slTips (entries_view es) @ (if weTipHash e = [] then [] else [tip_of_marker e])\<rparr>
      else entries_view es)"
  by (auto simp: entries_view_def live_spans_append)

lemma entries_view_op:
  "op_entry x = Some e \<Longrightarrow> entries_view (es @ [e]) = log_op x (entries_view es)"
  by (cases x)
     (auto simp: entries_view_append is_span_def is_marker_def span_entry_def entryTypeSpan_def entryTypeSealed_def
       entries_view_def tip_of_marker_def live_spans_append)

lemma entries_view_compacted:
  "entries_view (compacted p s) = log_op (OpCompact p) (entries_view (wal_entries s))"
proof -
  have no_marker: "\<not> is_marker (span_entry x)" for x
    by (simp add: span_entry_def is_marker_def entryTypeSpan_def entryTypeSealed_def)
  show ?thesis
    by (simp add: entries_view_def compacted_eq live_spans_append live_spans_of_markers live_spans_of_spans no_marker
        filter_map comp_def tip_of_marker_def conj_commute conj_left_commute still_pending_def)
qed

lemma span_entry_shorter:
  "is_span e \<Longrightarrow> weTraceID e = t \<Longrightarrow> weRecord e = Some r \<Longrightarrow>
     length (Marshal_walEntry (span_entry (t, r))) \<le> length (Marshal_walEntry e)"
  by (auto simp: Marshal_walEntry_def walEntry_json_def span_entry_def is_span_def)

lemma compacted_good:
  assumes "list_all good_entry (wal_entries s)"
  shows "list_all good_entry (compacted p s)"
proof -
  have "short_entry x" if x: "x \<in> set (compacted p s)" for x
  proof -
    from x consider "x \<in> set (wal_entries s)" | t r where "x = span_entry (t, r)" "(t, r) \<in> set (live_spans (wal_entries s) [])"
      by (auto simp: compacted_eq)
    then show ?thesis
    proof cases
      case 2
      then obtain e where e: "e \<in> set (wal_entries s)" "is_span e" "weTraceID e = t" "weRecord e = Some r"
        using live_spans_sub by fastforce
      then have "short_entry e" using assms by (simp add: list_all_iff good_entry_def)
      with span_entry_shorter [OF e(2-4)] 2(1) show ?thesis by (simp add: short_entry_def)
    qed (use assms in \<open>simp add: list_all_iff good_entry_def\<close>)
  qed
  then show ?thesis using compacted_valid by (auto simp: list_all_iff good_entry_def)
qed

lemma exec_append:
  assumes "op_entry x = Some e" and "walFd w = FdOpen" and "walContent w = Some s"
  shows "wal_exec out sync_ok fault x w =
    w\<lparr>walContent := Some (s @ (case out of WriteOK \<Rightarrow> Marshal_walEntry e @ [LF] | WriteFails n \<Rightarrow> take n (Marshal_walEntry e @ [LF])))\<rparr>"
  using assms
  by (cases x) (auto simp: AppendSpan_def MarkSealed_def appendEntry_def span_entry_def Let_def split: write_outcome.splits)

lemma run_append:
  assumes "op_entry x = Some e" and "good_entry e" and "wal_ok w"
  shows "wal_ok (wal_run x w) \<and> wal_view (wal_run x w) = log_op x (wal_view w)"
proof -
  from assms(3) obtain es where es: "walFd w = FdOpen" "walContent w = Some (wal_file es)" "list_all good_entry es"
      "wal_view w = entries_view es"
    by (rule wal_okE)
  have "wal_run x w = \<lparr>walContent = Some (wal_file (es @ [e])), walFd = FdOpen\<rparr>"
    using exec_append [OF assms(1) es(1,2)] es(1) by simp
  moreover have "list_all good_entry (es @ [e])" using es(3) assms(2) by simp
  ultimately show ?thesis
    using wal_okI [of "es @ [e]"] view_wal_file [of "es @ [e]"] entries_view_op [OF assms(1)] es(4) by simp
qed

lemma run_compact:
  assumes "wal_ok w"
  shows "wal_ok (wal_run (OpCompact p) w) \<and> wal_view (wal_run (OpCompact p) w) = log_op (OpCompact p) (wal_view w)"
proof -
  from assms obtain es where es: "walFd w = FdOpen" "walContent w = Some (wal_file es)" "list_all good_entry es"
      "wal_entries (wal_file es) = es" "\<not> snd (scan_lines wal_maxScanTokenSize (wal_file es))"
      "wal_view w = entries_view es"
    by (rule wal_okE)
  let ?c = "compacted p (wal_file es)"
  have "wal_run (OpCompact p) w = \<lparr>walContent = Some (wal_file ?c), walFd = FdOpen\<rparr>"
    using es(1,2,5) by (simp add: Compact_def Let_def)
  moreover have "list_all good_entry ?c" using es(3,4) by (simp add: compacted_good)
  ultimately show ?thesis
    using wal_okI [of ?c] view_wal_file [of ?c] entries_view_compacted [of p "wal_file es"] es(4,6)
    by (simp del: log_op.simps)
qed

interpretation wal: span_store wal_run wal_view wal_ok op_fits
proof
  fix w x assume "wal_ok w" and "op_fits x"
  then have "wal_ok (wal_run x w) \<and> wal_view (wal_run x w) = log_op x (wal_view w)"
  proof (cases "op_entry x")
    case None
    then obtain p where "x = OpCompact p" by (cases x) auto
    then show ?thesis using run_compact [OF \<open>wal_ok w\<close>, of p] by (simp only:)
  next
    case (Some e)
    then show ?thesis using run_append [OF Some _ \<open>wal_ok w\<close>] \<open>op_fits x\<close> by (simp add: op_fits_def)
  qed
  then show "wal_ok (wal_run x w)" "wal_view (wal_run x w) = log_op x (wal_view w)" by simp_all
qed

section \<open>What a restart reads\<close>

lemma Open_ok: "\<exists>w. Open True None = Inr w \<and> wal_ok w \<and> wal_view w = \<lparr>slSpans = [], slTips = []\<rparr>"
  using wal_okI [of "[]"] view_wal_file [of "[]"] by (simp add: Open_def entries_view_def)

lemma reads_entries:
  assumes "\<not> snd (scan_lines wal_maxScanTokenSize s)"
  shows "reads_as (Content s) (entries_view (wal_entries s))"
  using Replay_Content [OF assms] by (auto simp: reads_as_def replays_def entries_view_def)

lemma reads_ok:
  assumes "wal_ok w"
  shows "reads_as (wal_disk w) (wal_view w)"
proof -
  from assms obtain es where "walContent w = Some (wal_file es)" "wal_entries (wal_file es) = es"
      "\<not> snd (scan_lines wal_maxScanTokenSize (wal_file es))" "wal_view w = entries_view es"
    by (rule wal_okE)
  then show ?thesis using reads_entries [of "wal_file es"] by (simp add: wal_disk_def)
qed

text \<open>One operation cut short: the disk reads as before it or as after it.\<close>

lemma reads_cut_append:
  assumes "op_entry x = Some e" and "good_entry e" and "wal_ok w"
  shows "reads_as (wal_disk (wal_exec out sync_ok fault x w)) (wal_view w) \<or>
    reads_as (wal_disk (wal_exec out sync_ok fault x w)) (log_op x (wal_view w))"
proof -
  from assms(3) obtain es where es: "walFd w = FdOpen" "walContent w = Some (wal_file es)" "list_all good_entry es"
      "wal_view w = entries_view es"
    by (rule wal_okE)
  let ?l = "Marshal_walEntry e"
  obtain t where t: "wal_disk (wal_exec out sync_ok fault x w) = Content (wal_file es @ t)"
      "t = ?l @ [LF] \<or> (\<exists>n. t = take n (?l @ [LF]))"
    using exec_append [OF assms(1) es(1,2)] by (cases out) (auto simp: wal_disk_def)
  then obtain q where q: "?l @ [LF] = t @ q" by (metis append_Nil2 append_take_drop_id)
  have after: "reads_as (Content (wal_file (es @ [e]))) (log_op x (wal_view w))"
    using reads_ok [OF wal_okI [of "es @ [e]"]] view_wal_file [of "es @ [e]"] entries_view_op [OF assms(1)] es assms(2)
    by (simp add: wal_disk_def)
  consider "q = []" | "q = [LF]" "t = ?l" | q' where "q' \<noteq> []" "?l = t @ q'"
    using q by (cases q rule: rev_cases) auto
  then show ?thesis
  proof cases
    case 1
    then show ?thesis using after t(1) q by simp
  next
    case 2
    have "\<forall>e' \<in> set es. valid_wal_entry e' \<and> short_entry e'" using es(3) by (simp add: list_all_iff good_entry_def)
    note rd = full_wal_line [OF this, of e]
    show ?thesis
      using reads_entries [of "wal_file es @ ?l"] rd t(1) 2(2) entries_view_op [OF assms(1)] es(4) assms(2)
      by (simp add: good_entry_def)
  next
    case 3
    have "\<forall>e' \<in> set es. valid_wal_entry e' \<and> short_entry e'" using es(3) by (simp add: list_all_iff good_entry_def)
    moreover have "t = [] \<or> (\<exists>e q. Marshal_walEntry e = t @ q \<and> q \<noteq> [] \<and> short_entry e)"
      using 3 assms(2) by (auto simp: good_entry_def)
    ultimately have "wal_entries (wal_file es @ t) = es" "\<not> snd (scan_lines wal_maxScanTokenSize (wal_file es @ t))"
      by (rule read_wal_file)+
    then show ?thesis using reads_entries [of "wal_file es @ t"] t(1) es(4) by simp
  qed
qed

lemma compact_content:
  assumes "walContent w = Some s" and "\<not> snd (scan_lines wal_maxScanTokenSize s)"
  shows "walContent (snd (snd (Compact fault p w))) \<in> {Some s, Some (wal_file (compacted p s))}"
    and "fst (Compact fault p w) = None \<Longrightarrow> walContent (snd (snd (Compact fault p w))) = Some (wal_file (compacted p s))"
    and "fst (Compact fault p w) = None \<Longrightarrow> walFd (snd (snd (Compact fault p w))) = FdOpen"
  using assms by (auto simp: Compact_def Let_def)

lemma reads_cut_compact:
  assumes "wal_ok w"
  shows "reads_as (wal_disk (wal_exec out sync_ok fault (OpCompact p) w)) (wal_view w) \<or>
    reads_as (wal_disk (wal_exec out sync_ok fault (OpCompact p) w)) (log_op (OpCompact p) (wal_view w))"
proof -
  from assms obtain es where es: "walContent w = Some (wal_file es)"
      "\<not> snd (scan_lines wal_maxScanTokenSize (wal_file es))"
    by (rule wal_okE)
  have whole: "walContent (wal_run (OpCompact p) w) = Some (wal_file (compacted p (wal_file es)))"
    using es by (simp add: Compact_def Let_def)
  have "reads_as (wal_disk (wal_run (OpCompact p) w)) (log_op (OpCompact p) (wal_view w))"
    using run_compact [OF assms, of p] reads_ok by metis
  then show ?thesis
    using reads_ok [OF assms] whole es(1) compact_content(1) [OF es, of fault p]
    by (auto simp: wal_disk_def)
qed

text \<open>C6. Crash consistency of the write-ahead log. From a fresh log, after any sequence of \<open>AppendSpan\<close>,
  \<open>MarkSealed\<close> and \<open>Compact\<close> whose entries fit a line, \<open>Replay\<close> returns exactly the abstract log: for
  every trace the spans appended since its last mark in order, and the tips marked and not dropped by a
  compaction. If one more operation is cut short anywhere (a write stopped after any number of
  bytes, a failed sync, \<open>Compact\<close> failing at any step), \<open>Replay\<close> returns the log before or after it.\<close>

theorem wal_crash_consistent:
  assumes "list_all op_fits xs" and "op_fits x"
  shows "\<exists>w. Open True None = Inr w \<and>
    reads_as (wal_disk (fold wal_run xs w)) (fold log_op xs \<lparr>slSpans = [], slTips = []\<rparr>) \<and>
    (\<forall>out sync_ok fault. let f = wal_disk (wal_exec out sync_ok fault x (fold wal_run xs w)) in
       reads_as f (fold log_op xs \<lparr>slSpans = [], slTips = []\<rparr>) \<or>
       reads_as f (fold log_op (xs @ [x]) \<lparr>slSpans = [], slTips = []\<rparr>))"
proof -
  obtain w where w: "Open True None = Inr w" "wal_ok w" "wal_view w = \<lparr>slSpans = [], slTips = []\<rparr>"
    using Open_ok by blast
  note run = wal.runs [OF w(2) assms(1)]
  have "reads_as (wal_disk (wal_exec out sync_ok fault x (fold wal_run xs w))) (wal_view (fold wal_run xs w)) \<or>
    reads_as (wal_disk (wal_exec out sync_ok fault x (fold wal_run xs w))) (log_op x (wal_view (fold wal_run xs w)))"
    for out sync_ok fault
  proof (cases "op_entry x")
    case None
    then obtain p where "x = OpCompact p" by (cases x) auto
    then show ?thesis
      using reads_cut_compact [of "fold wal_run xs w" out sync_ok fault p] run by (simp only: simp_thms)
  next
    case (Some e)
    then show ?thesis using reads_cut_append [OF Some, of "fold wal_run xs w" out sync_ok fault] run assms(2) by (simp add: op_fits_def)
  qed
  then show ?thesis using w run reads_ok [of "fold wal_run xs w"] by (auto simp: Let_def)
qed

abbreviation fixture_span :: walEntry where "fixture_span \<equiv> span_entry (''t'', fixture_record)"

lemma fixture_span_good: "good_entry fixture_span"
proof -
  have "length (Marshal_walEntry fixture_span) < 1000"
    by (simp add: Marshal_walEntry_def walEntry_json_def span_entry_def entryTypeSpan_def fixture_simps)
  then show ?thesis
    by (simp add: good_entry_def valid_wal_entry_def span_entry_def entryTypeSpan_def plain_valid_utf8
        valid_fixture_record short_entry_def wal_maxScanTokenSize_def)
qed

lemma fixture_mark_good: "op_fits (OpMark ''t'' ''ab'' 1)"
proof -
  have "length (Marshal_walEntry \<lparr>weType = entryTypeSealed, weTraceID = ''t'', weRecord = None, weTipHash = ''ab'', weEntryCount = 1\<rparr>) < 1000"
    by (simp add: Marshal_walEntry_def walEntry_json_def entryTypeSealed_def fixture_simps)
  then show ?thesis
    by (simp add: op_fits_def good_entry_def valid_wal_entry_def entryTypeSealed_def plain_valid_utf8
        short_entry_def wal_maxScanTokenSize_def)
qed

lemma fixture_ops_fit: "op_fits (OpAppend ''t'' fixture_record)" "op_fits (OpCompact p)"
  using fixture_span_good by (simp_all add: op_fits_def)

theorem wal_crash_consistent_witness:
  "\<exists>w. Open True None = Inr w \<and>
    reads_as (wal_disk (fold wal_run [OpAppend ''t'' fixture_record, OpMark ''t'' ''ab'' 1, OpAppend ''t'' fixture_record] w))
      \<lparr>slSpans = [(''t'', fixture_record)], slTips = [\<lparr>stTraceID = ''t'', stTipHash = ''ab'', stEntryCount = 1\<rparr>]\<rparr>"
  using wal_crash_consistent [of "[OpAppend ''t'' fixture_record, OpMark ''t'' ''ab'' 1, OpAppend ''t'' fixture_record]" "OpCompact []"]
    fixture_mark_good fixture_ops_fit by auto

lemma long_entry_unreadable:
  assumes "e \<in> set es" and "\<not> short_entry e"
  shows "Replay (Content (wal_file es)) = Inl WalReplayScan"
proof -
  obtain xs ys where "es = xs @ e # ys" using assms(1) by (meson split_list)
  then have "wal_file es = wal_file xs @ Marshal_walEntry e @ [LF] @ wal_file ys" by simp
  then have "snd (scan_lines wal_maxScanTokenSize (wal_file es))"
    using scan_too_long [OF wal_line(1,4)] assms(2) by (simp only: short_entry_def not_less)
  then show ?thesis by (simp add: Replay_def)
qed

text \<open>C27. \<open>Compact\<close> on any file contents, damaged lines included, and under any fault. Either it reports an
  error and the file is untouched, or the file is rewritten; it is never anything else, it is rewritten
  only if it can be read, and a run without a fault on a readable file does report success. On the rewritten
  file \<open>Replay\<close> gives every trace the buffer it had, and of the tips it had exactly those still pending,
  provided that every entry kept is below the line limit in the encoding it is written in; if one is not,
  for instance because its text was not escaped before, \<open>Replay\<close> fails on the rewritten file, which
  \<open>Compact\<close> does not notice.\<close>

theorem Compact_keeps_replay:
  assumes "walContent w = Some s" and "Compact fault p w = (err, warned, w')"
  shows "(err \<noteq> None \<and> walContent w' = Some s \<or>
      \<not> snd (scan_lines wal_maxScanTokenSize s) \<and> walContent w' = Some (wal_file (compacted p s)) \<and>
      (if list_all short_entry (compacted p s)
       then \<exists>m tips m'. Replay (wal_disk w) = Inr (m, tips) \<and>
         Replay (wal_disk w') = Inr (m', filter (still_pending p) tips) \<and>
         (\<forall>t. al_get m' t = al_get m t) \<and> fst ` set m' = fst ` set m
       else Replay (wal_disk w') = Inl WalReplayScan)) \<and>
    (err = None \<longrightarrow> walFd w' = FdOpen) \<and>
    (fault = NoFault \<and> \<not> snd (scan_lines wal_maxScanTokenSize s) \<longrightarrow> err = None)"
proof (cases "snd (scan_lines wal_maxScanTokenSize s)")
  case True
  then show ?thesis using assms by (auto simp: Compact_def split: if_splits)
next
  case False
  have sp: "still_pending p = (\<lambda>x. stTipHash x \<in> set (al_get p (stTraceID x)))" by (simp add: fun_eq_iff still_pending_def)
  have fd: "err = None \<Longrightarrow> walFd w' = FdOpen" "fault = NoFault \<Longrightarrow> err = None"
    using compact_content(3) [OF assms(1) False, of fault p] assms False by (auto simp: Compact_def Let_def)
  show ?thesis
  proof (cases "walContent w' = Some (wal_file (compacted p s))")
    case whole: True
    have "if list_all short_entry (compacted p s)
       then \<exists>m tips m'. Replay (wal_disk w) = Inr (m, tips) \<and>
         Replay (wal_disk w') = Inr (m', filter (still_pending p) tips) \<and>
         (\<forall>t. al_get m' t = al_get m t) \<and> fst ` set m' = fst ` set m
       else Replay (wal_disk w') = Inl WalReplayScan"
    proof (cases "list_all short_entry (compacted p s)")
      case True
      then have "\<forall>e \<in> set (compacted p s). short_entry e" by (simp add: list_all_iff)
      from Replay_compacted [OF False this] obtain r r' where r: "Replay (Content s) = Inr r" "Replay (Content (wal_file (compacted p s))) = Inr r'"
          "\<forall>t. al_get (fst r') t = al_get (fst r) t" "fst ` set (fst r') = fst ` set (fst r)"
          "snd r' = filter (still_pending p) (snd r)"
        unfolding sp by blast
      then show ?thesis using True assms(1) whole by (cases r; cases r') (simp add: wal_disk_def)
    next
      case long: False
      then show ?thesis using long_entry_unreadable whole by (auto simp: list_all_iff wal_disk_def)
    qed
    then show ?thesis using False whole fd by blast
  next
    case other: False
    then have "walContent w' = Some s" "err \<noteq> None"
      using compact_content(1,2) [OF assms(1) False, of fault p] assms(2) by auto
    then show ?thesis using fd by blast
  qed
qed

theorem Compact_keeps_replay_witness:
  "\<exists>w' m tips. Compact NoFault [] \<lparr>walContent = Some (wal_file [fixture_span] @ take 7 (Marshal_walEntry fixture_span)), walFd = FdOpen\<rparr> =
     (None, False, w') \<and> Replay (wal_disk w') = Inr (m, tips)"
proof -
  let ?s = "wal_file [fixture_span] @ take 7 (Marshal_walEntry fixture_span)"
  let ?w = "\<lparr>walContent = Some ?s, walFd = FdOpen\<rparr>"
  have one: "\<forall>e \<in> set [fixture_span]. valid_wal_entry e \<and> short_entry e"
    using fixture_span_good by (simp add: good_entry_def)
  have torn: "\<exists>e q. Marshal_walEntry e = take 7 (Marshal_walEntry fixture_span) @ q \<and> q \<noteq> [] \<and> short_entry e"
    by (rule exI [of _ fixture_span], rule exI [of _ "drop 7 (Marshal_walEntry fixture_span)"])
       (use fixture_span_good in \<open>simp add: good_entry_def, simp add: Marshal_walEntry_def walEntry_json_def span_entry_def\<close>)
  note rd = read_wal_file [OF one disjI2 [OF torn]]
  have "list_all good_entry (compacted [] ?s)"
    by (rule compacted_good) (use rd(1) fixture_span_good in simp)
  then have short: "list_all short_entry (compacted [] ?s)" by (simp add: list_all_iff good_entry_def)
  have run: "Compact NoFault [] ?w =
      (None, False, \<lparr>walContent = Some (wal_file (compacted [] ?s)), walFd = FdOpen\<rparr>)"
    using rd(2) by (simp add: Compact_def Let_def)
  from Compact_keeps_replay [OF _ run] run short show ?thesis by auto
qed

text \<open>A log with an overlong line stays unreadable: appending does not cure it, and \<open>Compact\<close> cannot read it.\<close>

definition overlong_inside :: "bytes \<Rightarrow> WAL \<Rightarrow> bool" where
  "overlong_inside l w \<longleftrightarrow> (\<exists>a b. walContent w = Some (a @ l @ b))"

lemma overlong_exec:
  assumes "overlong_inside l w" and "LF \<notin> set l" and "l \<noteq> []" and "wal_maxScanTokenSize \<le> length l"
  shows "overlong_inside l (wal_exec out sync_ok fault x w)"
proof -
  obtain a b where ab: "walContent w = Some (a @ l @ b)" using assms(1) by (auto simp: overlong_inside_def)
  note long = scan_too_long [OF assms(2-4), of a b]
  have app: "\<exists>c. walContent (snd (appendEntry out e w)) = Some (a @ l @ b @ c)" for e
    using ab by (auto simp: appendEntry_def Let_def split: write_outcome.splits)
  show ?thesis
  proof (cases x)
    case (OpAppend t r)
    then show ?thesis using app by (simp add: AppendSpan_def overlong_inside_def) blast
  next
    case (OpMark t h n)
    then show ?thesis using app
      by (simp add: MarkSealed_def overlong_inside_def split: prod.split option.split) (metis snd_conv)
  next
    case (OpCompact p)
    then show ?thesis using ab long by (auto simp: Compact_def overlong_inside_def)
  qed
qed

lemma overlong_reads:
  assumes "overlong_inside l w" and "LF \<notin> set l" and "l \<noteq> []" and "wal_maxScanTokenSize \<le> length l"
  shows "Replay (wal_disk w) = Inl WalReplayScan" "fst (Compact fault p w) \<in> {Some CompactOpen, Some CompactScan}"
proof -
  obtain a b where ab: "walContent w = Some (a @ l @ b)" using assms(1) by (auto simp: overlong_inside_def)
  note long = scan_too_long [OF assms(2-4), of a b]
  show "Replay (wal_disk w) = Inl WalReplayScan" using ab long by (simp add: wal_disk_def Replay_def)
  show "fst (Compact fault p w) \<in> {Some CompactOpen, Some CompactScan}" using ab long by (simp add: Compact_def)
qed

text \<open>C32. One span whose log line has 4 MiB or more is appended without an error, and from then on, whatever
  is appended, marked or compacted with whatever outcome, \<open>Replay\<close> fails on the scan, so that the exporter
  can never start again on this file, and every \<open>Compact\<close> fails, so that the file only grows.\<close>

theorem oversized_span_blocks_restart:
  assumes "walContent w = Some s" and "walFd w = FdOpen"
    and "wal_maxScanTokenSize \<le> length (Marshal_walEntry (span_entry (t, r)))"
  shows "\<exists>w1. AppendSpan WriteOK t r w = (None, w1) \<and>
    (let w' = fold (\<lambda>(out, sync_ok, fault, x). wal_exec out sync_ok fault x) later w1 in
     Replay (wal_disk w') = Inl WalReplayScan \<and>
     (\<forall>fault p. fst (Compact fault p w') \<in> {Some CompactOpen, Some CompactScan}))"
proof -
  let ?l = "Marshal_walEntry (span_entry (t, r))"
  let ?w1 = "w\<lparr>walContent := Some (s @ ?l @ [LF])\<rparr>"
  have w1: "AppendSpan WriteOK t r w = (None, ?w1)"
    using assms(1,2) by (simp add: AppendSpan_def appendEntry_def span_entry_def)
  have "overlong_inside ?l w1 \<Longrightarrow>
      overlong_inside ?l (fold (\<lambda>(out, sync_ok, fault, x). wal_exec out sync_ok fault x) later w1)" for w1
    by (induction later arbitrary: w1) (simp_all add: split_beta overlong_exec [OF _ wal_line(1,4) assms(3)])
  moreover have "overlong_inside ?l ?w1" by (auto simp: overlong_inside_def)
  ultimately have "overlong_inside ?l (fold (\<lambda>(out, sync_ok, fault, x). wal_exec out sync_ok fault x) later ?w1)"
    by blast
  note overlong_reads [OF this wal_line(1,4) assms(3)]
  then show ?thesis using w1 by (simp only: Let_def) blast
qed

lemma long_span_line:
  "n \<le> length (Marshal_walEntry (span_entry (''t'', fixture_record\<lparr>spanName := replicate n CHR ''a''\<rparr>)))"
proof -
  have esc: "esc (replicate n CHR ''a'') = replicate n CHR ''a''"
    by (rule esc_safe) (simp add: list_all_iff safe_char_def)
  show ?thesis
    by (simp add: span_entry_def Marshal_walEntry_def walEntry_json_def AuditRecord_json_def currentRecord_json_def
        legacyV1V2Record_json_def record_json_def esc)
qed

theorem oversized_span_blocks_restart_witness:
  "\<exists>w1. AppendSpan WriteOK ''t'' (fixture_record\<lparr>spanName := replicate wal_maxScanTokenSize CHR ''a''\<rparr>)
       \<lparr>walContent = Some [], walFd = FdOpen\<rparr> = (None, w1) \<and> Replay (wal_disk w1) = Inl WalReplayScan"
  using oversized_span_blocks_restart
    [of "\<lparr>walContent = Some [], walFd = FdOpen\<rparr>" "[]" "''t''" "fixture_record\<lparr>spanName := replicate wal_maxScanTokenSize CHR ''a''\<rparr>" "[]",
     OF _ _ long_span_line] by auto

end
