(* ===== verification/Exporter.thy ===== *)
theory Exporter
  imports Repair Wal_Store Config "HOL-Library.AList"
begin

text \<open>
  The exporter of \<open>exporter.go\<close>: its state and the operations that run under its mutex. The state is
  one record: the contents of the audit log, the checkpoint file and the quarantine sidecar, the
  write-ahead log, the accumulator, the open trace buffers, the guards against sealing a trace
  twice, the counters, and the compaction goroutines in flight. Every operation is a function of
  that state and of what the system answers (which write stops where, which \<open>Sync\<close>, \<open>Seek\<close> or
  \<open>Truncate\<close> fails, the time), so that every error path of the code is a branch. A file's contents
  are what a reader of it sees; which of it a power loss would keep is not modelled. Log messages
  are left out. A Go map is an association list with distinct keys; where the code ranges over a
  map the order is an argument, or immaterial because the code sorts afterwards.
\<close>

section \<open>State\<close>

record traceBuffer =
  tbRecords :: "(bytes \<times> AuditRecord) list"
  tbLastSeen :: int
  tbHasRoot :: bool

text \<open>
  A goroutine started by \<open>scheduleWALCompact\<close>: not yet run, holding the pending tips it read, or
  done with \<open>Compact\<close> and about to clear \<open>sealedTraces\<close>.
\<close>

datatype compaction = Scheduled | Snapshot "(bytes \<times> bytes list) list" | Compacted

record exporter =
  exCfg :: Config
  exSigner :: Signer
  exLog :: bytes
  exCheck :: bytes
  exFilesOpen :: bool
  exWal :: "WAL option"
  exQuarantine :: bytes
  exAcc :: Accumulator
  exBuffers :: "(bytes \<times> traceBuffer) list"
  exSealed :: "bytes list"
  exStartupSealed :: "bytes list"
  exCheckpointPoisoned :: bool
  exCheckpointRetryAt :: int
  exCheckpointFailures :: nat
  exUncoveredAfterPoison :: nat
  exLogPoisoned :: bool
  exQuarantinedAfterLogPoison :: nat
  exPendingCapDropped :: nat
  exPendingCapWarned :: bool
  exLastCheckpointAttempt :: "int option"
  exCompactions :: "compaction list"

text \<open>A write to an open file: what reached it, and whether it was reported as complete.\<close>

fun written :: "write_outcome \<Rightarrow> bytes \<Rightarrow> bytes" where
  "written WriteOK line = line"
| "written (WriteFails n) line = take n line"

definition next_outcome :: "write_outcome list \<Rightarrow> write_outcome" where
  "next_outcome outs = (case outs of [] \<Rightarrow> WriteOK | x # _ \<Rightarrow> x)"

section \<open>Poisoning and rolling back the log\<close>

definition logPoisonTornMarker :: bytes where
  "logPoisonTornMarker =
     CHR 0x00 # '' agentaudit: log poisoned, see errLogPoisoned '' @ [CHR 0x00]"

definition poisonLog :: "write_outcome \<Rightarrow> exporter \<Rightarrow> exporter" where
  "poisonLog marker e =
     (if exLogPoisoned e then e
      else e\<lparr>exLogPoisoned := True, exLog := exLog e @ written marker logPoisonTornMarker\<rparr>)"

definition repairOrPoisonLog :: "repair_fault \<Rightarrow> write_outcome \<Rightarrow> exporter \<Rightarrow> exporter" where
  "repairOrPoisonLog fault marker e =
     (case repairTrailingPartialLine fault (Some (exLog e)) of
        (res, content) \<Rightarrow>
          let e' = e\<lparr>exLog := (case content of Some s \<Rightarrow> s | None \<Rightarrow> [])\<rparr> in
          (case res of Inl _ \<Rightarrow> poisonLog marker e' | Inr _ \<Rightarrow> e'))"

text \<open>\<open>writeLogEntry\<close>, and the loop over the entries, which stops at the first write that fails.\<close>

definition writeLogEntry :: "write_outcome \<Rightarrow> LogEntry \<Rightarrow> bytes \<Rightarrow> bool \<times> bytes" where
  "writeLogEntry out le log = (out = WriteOK, log @ written out (MarshalLogEntry le @ [LF]))"

fun write_entries :: "write_outcome list \<Rightarrow> LogEntry list \<Rightarrow> bytes \<Rightarrow> bool \<times> bytes" where
  "write_entries outs [] log = (True, log)"
| "write_entries outs (le # les) log =
     (case writeLogEntry (next_outcome outs) le log of
        (True, log') \<Rightarrow> write_entries (tl outs) les log'
      | (False, log') \<Rightarrow> (False, log'))"

section \<open>Writing a checkpoint\<close>

text \<open>What the system answers during \<open>writeCheckpoint\<close>.\<close>

record check_io =
  ciNow :: int
  ciTimestamp :: bytes
  ciSeek :: bool
  ciWrite :: write_outcome
  ciSync :: bool
  ciTruncate :: bool
  ciTruncateSync :: bool

datatype check_error =
    CheckFileNil | CheckpointPoisoned | StageCheckpoint bytes | CheckpointOffset
  | WriteCheckpoint | SyncCheckpoint | CommitCheckpoint commit_error

definition maxCheckpointRetryGap :: int where "maxCheckpointRetryGap = 1024"

definition nextCheckpointRetryAt :: "exporter \<Rightarrow> int \<Rightarrow> int" where
  "nextCheckpointRetryAt e pending =
     (let next = (if 1 < exCheckpointFailures e
                  then (if maxCheckpointRetryGap < pending then pending + maxCheckpointRetryGap else pending * 2)
                  else pending + 1);
          maxPending = effectiveMaxPendingTips (exCfg e) (effectiveCheckpointInterval (exCfg e))
      in if 0 < maxPending \<and> maxPending < next then maxPending else next)"

text \<open>\<open>time.Since\<close> of the zero time exceeds every interval: a checkpoint never attempted never blocks.\<close>

definition shouldCheckpoint :: "int \<Rightarrow> int \<Rightarrow> exporter \<Rightarrow> bool" where
  "shouldCheckpoint now checkpointInterval e =
     (let pending = int (PendingCount (exAcc e)) in
      if pending < checkpointInterval \<or> pending < exCheckpointRetryAt e then False
      else if exPendingCapWarned e \<and>
        (case exLastCheckpointAttempt e of
           None \<Rightarrow> False | Some t \<Rightarrow> now - t < effectiveMinCheckpointRetryInterval (exCfg e)) then False
      else True)"

definition poisonCheckpoint :: "exporter \<Rightarrow> exporter" where
  "poisonCheckpoint e =
     (if exCheckpointPoisoned e then e
      else (case DropPending (exAcc e) of
              (dropped, a) \<Rightarrow> e\<lparr>exCheckpointPoisoned := True, exAcc := a,
                exUncoveredAfterPoison := exUncoveredAfterPoison e + dropped\<rparr>))"

definition rollbackCheckpoint :: "check_io \<Rightarrow> nat \<Rightarrow> exporter \<Rightarrow> exporter" where
  "rollbackCheckpoint io preWritePos e =
     (if \<not> ciTruncate io then poisonCheckpoint e
      else
        let e' = e\<lparr>exCheck := take preWritePos (exCheck e)\<rparr>
        in if ciTruncateSync io then e' else poisonCheckpoint e')"

text \<open>The body of \<open>writeCheckpoint\<close>, then its deferred bookkeeping.\<close>

definition write_checkpoint_body :: "check_io \<Rightarrow> exporter \<Rightarrow> check_error option \<times> exporter" where
  "write_checkpoint_body io e =
     (if \<not> exFilesOpen e then (Some CheckFileNil, e)
      else if exCheckpointPoisoned e then (Some CheckpointPoisoned, e)
      else
        (case Stage (ciTimestamp io) (exAcc e) of
           Inl err \<Rightarrow> (Some (StageCheckpoint err), e)
         | Inr staged \<Rightarrow>
             if \<not> ciSeek io then (Some CheckpointOffset, e)
             else
               let line = Marshal_Checkpoint (stCheckpoint staged) @ [LF];
                   preWritePos = length (exCheck e);
                   e' = e\<lparr>exCheck := exCheck e @ written (ciWrite io) line\<rparr>
               in
               if ciWrite io \<noteq> WriteOK then
                 (Some WriteCheckpoint,
                  if written (ciWrite io) line \<noteq> [] then rollbackCheckpoint io preWritePos e' else e')
               else if \<not> ciSync io then (Some SyncCheckpoint, rollbackCheckpoint io preWritePos e')
               else
                 (case Commit staged (exAcc e') of
                    Inl cerr \<Rightarrow> (Some (CommitCheckpoint cerr), poisonCheckpoint e')
                  | Inr a \<Rightarrow> (None, e'\<lparr>exAcc := a\<rparr>))))"

definition writeCheckpoint :: "check_io \<Rightarrow> exporter \<Rightarrow> check_error option \<times> exporter" where
  "writeCheckpoint io e =
     (case write_checkpoint_body io (e\<lparr>exLastCheckpointAttempt := Some (ciNow io)\<rparr>) of
        (Some err, e') \<Rightarrow>
          let e'' = e'\<lparr>exCheckpointFailures := exCheckpointFailures e' + 1\<rparr>
          in (Some err, e''\<lparr>exCheckpointRetryAt := nextCheckpointRetryAt e'' (int (PendingCount (exAcc e'')))\<rparr>)
      | (None, e') \<Rightarrow>
          (None, e'\<lparr>exCheckpointFailures := 0, exCheckpointRetryAt := 0, exPendingCapWarned := False\<rparr>))"

section \<open>Quarantine and the write-ahead log\<close>

record quarantineEntry =
  qeTraceID :: bytes
  qeQuarantinedAt :: bytes
  qeReason :: bytes
  qeSchemaVersions :: "bytes list"
  qeCurrentSchema :: bytes
  qeRecord :: AuditRecord

definition quarantineEntry_json :: "quarantineEntry \<Rightarrow> json" where
  "quarantineEntry_json q = JObj
     [(''trace_id'', json_string (qeTraceID q)), (''quarantined_at'', json_string (qeQuarantinedAt q)),
      (''reason'', json_string (qeReason q)), (''schema_versions'', json_slice json_string (Some (qeSchemaVersions q))),
      (''current_schema_version'', json_string (qeCurrentSchema q)), (''record'', AuditRecord_json (qeRecord q))]"

record quarantine_io =
  qiOpen :: bool
  qiTime :: bytes
  qiWrites :: "write_outcome list"

text \<open>The records by span id, the last one with an id winning, in the order of the ids.\<close>

definition by_span_id :: "AuditRecord list \<Rightarrow> (bytes \<times> AuditRecord) list" where
  "by_span_id recs = fold (\<lambda>r m. AList.update (spanID r) r m) recs []"

fun quarantine_lines :: "write_outcome list \<Rightarrow> bytes list \<Rightarrow> nat \<Rightarrow> bytes \<Rightarrow> nat \<times> bytes" where
  "quarantine_lines outs [] n f = (n, f)"
| "quarantine_lines outs (line # lines) n f =
     quarantine_lines (tl outs) lines (if next_outcome outs = WriteOK then n + 1 else n)
       (f @ written (next_outcome outs) (line @ [LF]))"

definition quarantineRecords ::
  "quarantine_io \<Rightarrow> bytes \<Rightarrow> AuditRecord list \<Rightarrow> bytes list option \<Rightarrow> bytes \<Rightarrow> exporter \<Rightarrow> nat \<times> exporter" where
  "quarantineRecords io trace recs versions reason e =
     (let m = by_span_id recs;
          spanIDs = sort (map fst m);
          vs = (case versions of Some vs \<Rightarrow> vs | None \<Rightarrow> sort (remdups (map schemaVersion recs)));
          lines = map (\<lambda>id. render (quarantineEntry_json
             \<lparr>qeTraceID = trace, qeQuarantinedAt = qiTime io, qeReason = reason, qeSchemaVersions = vs,
              qeCurrentSchema = SchemaVersion, qeRecord = the (map_of m id)\<rparr>)) spanIDs
      in if \<not> qiOpen io then (0, e)
         else (case quarantine_lines (qiWrites io) lines 0 (exQuarantine e) of
                 (n, f) \<Rightarrow> (n, e\<lparr>exQuarantine := f\<rparr>)))"

definition markWALSealed :: "write_outcome \<Rightarrow> bool \<Rightarrow> bytes \<Rightarrow> exporter \<Rightarrow> exporter" where
  "markWALSealed out sync_ok trace e =
     (case exWal e of
        None \<Rightarrow> e
      | Some w \<Rightarrow> e\<lparr>exWal := Some (snd (MarkSealed out sync_ok trace [] 0 w))\<rparr>)"

definition sealedMarkerTip :: "Accumulator \<Rightarrow> bytes \<Rightarrow> bytes \<Rightarrow> int \<Rightarrow> bytes \<times> int" where
  "sealedMarkerTip acc trace hash entries =
     (if hash \<notin> set (al_get (PendingTips acc) trace) then ([], 0) else (hash, entries))"

definition scheduleWALCompact :: "exporter \<Rightarrow> exporter" where
  "scheduleWALCompact e =
     (if exWal e = None then e else e\<lparr>exCompactions := exCompactions e @ [Scheduled]\<rparr>)"

end
