(* ===== verification/Exporter_Seal.thy ===== *)
theory Exporter_Seal
  imports Exporter
begin

text \<open>
  Sealing and buffering in \<open>exporter.go\<close>: \<open>sealTrace\<close> with its rollback, \<open>bufferSpan\<close>, \<open>ConsumeTraces\<close>,
  the sweep of the background worker, the compaction goroutine and \<open>Shutdown\<close>.
\<close>

section \<open>sealTrace\<close>

record seal_io =
  siNow :: int
  siSeek :: bool
  siWrites :: "write_outcome list"
  siSync :: bool
  siTruncate :: bool
  siRepair :: repair_fault
  siMarker :: write_outcome
  siCheck :: check_io
  siMark :: write_outcome
  siMarkSync :: bool
  siQuarantine :: quarantine_io

text \<open>The closure \<open>rollbackLog\<close>; a failing \<open>Sync\<close> after the truncation is only logged.\<close>

definition rollbackLog :: "seal_io \<Rightarrow> nat \<Rightarrow> bool \<Rightarrow> exporter \<Rightarrow> exporter" where
  "rollbackLog io preWritePos safeToRepairTail e =
     (if \<not> siTruncate io then
        (if \<not> safeToRepairTail then poisonLog (siMarker io) e
         else repairOrPoisonLog (siRepair io) (siMarker io) e)
      else e\<lparr>exLog := take preWritePos (exLog e)\<rparr>)"

text \<open>Setting aside a trace that cannot be sealed: marked in the write-ahead log if every record was written.\<close>

definition quarantine_trace :: "seal_io \<Rightarrow> bytes \<Rightarrow> AuditRecord list \<Rightarrow> bytes \<Rightarrow> exporter \<Rightarrow> nat \<times> exporter" where
  "quarantine_trace io trace recs reason e =
     (case quarantineRecords (siQuarantine io) trace recs None reason e of
        (n, e') \<Rightarrow> (n, if n = length recs then markWALSealed (siMark io) (siMarkSync io) trace e' else e'))"

text \<open>Steps 1 to 3: the sorted and numbered records, and their chain or the reason there is none.\<close>

definition number_records :: "AuditRecord list \<Rightarrow> AuditRecord list" where
  "number_records recs = map (\<lambda>(i, r). r\<lparr>seqInTrace := int i\<rparr>) (enumerate 0 (SortRecords recs))"

definition build_trace :: "Signer \<Rightarrow> bytes \<Rightarrow> AuditRecord list \<Rightarrow> bytes + ChainEntry list" where
  "build_trace signer trace recs =
     (case GenesisSeedForSchema trace (schemaVersion (hd recs)) of
        Inl _ \<Rightarrow> Inl ''schema_version cannot seed a chain''
      | Inr genesisSeed \<Rightarrow>
          (case BuildChain recs genesisSeed signer of
             Inl _ \<Rightarrow> Inl ''chain could not be built''
           | Inr entries \<Rightarrow> Inr entries))"

text \<open>Step 5: the accumulator takes the tip, and is trimmed to the cap; nothing if checkpointing is disabled.\<close>

definition add_tip_step :: "int \<Rightarrow> bytes \<Rightarrow> bytes \<Rightarrow> int \<Rightarrow> exporter \<Rightarrow> exporter" where
  "add_tip_step checkpointInterval trace hash entries e =
     (if exCheckpointPoisoned e then e\<lparr>exUncoveredAfterPoison := exUncoveredAfterPoison e + 1\<rparr>
      else
        let maxPending = effectiveMaxPendingTips (exCfg e) checkpointInterval in
        (case TrimPending maxPending (AddTip trace hash entries (exAcc e)) of
           (dropped, a) \<Rightarrow>
             if 0 < dropped
             then e\<lparr>exAcc := a, exPendingCapDropped := exPendingCapDropped e + dropped, exPendingCapWarned := True\<rparr>
             else e\<lparr>exAcc := a\<rparr>))"

text \<open>Steps 5 to 8, once the entries are in the log.\<close>

definition cover_trace :: "seal_io \<Rightarrow> bytes \<Rightarrow> ChainEntry list \<Rightarrow> int \<Rightarrow> exporter \<Rightarrow> exporter" where
  "cover_trace io trace entries checkpointInterval e =
     (let hash = the (TipHash entries);
          n = int (length entries);
          e1 = add_tip_step checkpointInterval trace hash n e;
          e2 = (if shouldCheckpoint (siNow io) checkpointInterval e1 then snd (writeCheckpoint (siCheck io) e1) else e1);
          e3 = (case exWal e2 of
                  None \<Rightarrow> e2
                | Some w \<Rightarrow>
                    (case sealedMarkerTip (exAcc e2) trace hash n of
                       (h, m) \<Rightarrow> e2\<lparr>exWal := Some (snd (MarkSealed (siMark io) (siMarkSync io) trace h m w))\<rparr>))
      in scheduleWALCompact e3)"

text \<open>Step 4: the entries are written and synced, or rolled back.\<close>

definition log_trace :: "seal_io \<Rightarrow> bytes \<Rightarrow> ChainEntry list \<Rightarrow> int \<Rightarrow> exporter \<Rightarrow> exporter" where
  "log_trace io trace entries checkpointInterval e =
     (if \<not> siSeek io then e
      else
        let preWritePos = length (exLog e);
            logEntries = ToLogEntries entries
        in
        (case write_entries (siWrites io) logEntries (exLog e) of
           (False, log') \<Rightarrow> rollbackLog io preWritePos (length logEntries = 1) (e\<lparr>exLog := log'\<rparr>)
         | (True, log') \<Rightarrow>
             let e' = e\<lparr>exLog := log'\<rparr> in
             if fsyncLog (exCfg e) \<and> \<not> siSync io then rollbackLog io preWritePos True e'
             else cover_trace io trace entries checkpointInterval e'))"

definition sealTrace :: "seal_io \<Rightarrow> bytes \<Rightarrow> traceBuffer \<Rightarrow> int \<Rightarrow> exporter \<Rightarrow> exporter" where
  "sealTrace io trace buf checkpointInterval e0 =
     (let recs = map snd (tbRecords buf);
          e = e0\<lparr>exBuffers := AList.delete trace (exBuffers e0), exSealed := trace # exSealed e0\<rparr>
      in
      if recs = [] then e
      else if exLogPoisoned e then
        (case quarantine_trace io trace recs ''audit log poisoned; cannot append'' e of
           (n, e') \<Rightarrow> scheduleWALCompact (e'\<lparr>exQuarantinedAfterLogPoison := exQuarantinedAfterLogPoison e' + n\<rparr>))
      else
        (case build_trace (exSigner e) trace (number_records recs) of
           Inl reason \<Rightarrow> scheduleWALCompact (snd (quarantine_trace io trace (number_records recs) reason e))
         | Inr entries \<Rightarrow> log_trace io trace entries checkpointInterval e))"

section \<open>Buffering spans\<close>

record span_io =
  spAppend :: write_outcome
  spSeal :: seal_io

definition new_buffer :: "int \<Rightarrow> traceBuffer" where
  "new_buffer now = \<lparr>tbRecords = [], tbLastSeen = now, tbHasRoot = False\<rparr>"

definition buffer_record :: "AuditRecord \<Rightarrow> int \<Rightarrow> traceBuffer \<Rightarrow> traceBuffer" where
  "buffer_record rec now buf =
     buf\<lparr>tbRecords := AList.update (spanID rec) rec (tbRecords buf), tbLastSeen := now,
         tbHasRoot := tbHasRoot buf \<or> parentSpanID rec = []\<rparr>"

definition bufferSpan :: "span_io \<Rightarrow> AuditRecord \<Rightarrow> int \<Rightarrow> int \<Rightarrow> exporter \<Rightarrow> exporter" where
  "bufferSpan io rec now checkpointInterval e =
     (let trace = traceID rec in
      if trace = [] then e
      else if List.member (exStartupSealed e) trace then e
      else if List.member (exSealed e) trace then e
      else
        let buf = buffer_record rec now (case map_of (exBuffers e) trace of Some b \<Rightarrow> b | None \<Rightarrow> new_buffer now);
            e1 = e\<lparr>exBuffers := AList.update trace buf (exBuffers e),
                   exWal := map_option (\<lambda>w. snd (AppendSpan (spAppend io) trace rec w)) (exWal e)\<rparr>
        in if tbHasRoot buf then sealTrace (spSeal io) trace buf checkpointInterval e1 else e1)"

text \<open>\<open>ConsumeTraces\<close>: the spans of all resources and scopes in order, each under its own lock.\<close>

definition ConsumeTraces :: "(nat \<Rightarrow> span_io) \<Rightarrow> int \<Rightarrow> Span list list list \<Rightarrow> exporter \<Rightarrow> exporter" where
  "ConsumeTraces io now td e =
     fold (\<lambda>(i, span). bufferSpan (io i) (SpanToRecord span 0) now (effectiveCheckpointInterval (exCfg e)))
       (enumerate 0 (concat (map concat td))) e"

text \<open>One tick of the background worker, over the buffers in the order the map gives them.\<close>

definition sweep :: "(bytes \<Rightarrow> seal_io) \<Rightarrow> int \<Rightarrow> int \<Rightarrow> bytes list \<Rightarrow> exporter \<Rightarrow> exporter" where
  "sweep io now traceTimeout order e =
     fold (\<lambda>trace e.
         case map_of (exBuffers e) trace of
           None \<Rightarrow> e
         | Some buf \<Rightarrow> if traceTimeout \<le> now - tbLastSeen buf
                       then sealTrace (io trace) trace buf (effectiveCheckpointInterval (exCfg e)) e else e)
       order e"

section \<open>The compaction goroutine\<close>

text \<open>It reads the pending tips, compacts, and on success clears \<open>sealedTraces\<close>; other operations may run between.\<close>

definition compaction_step :: "compact_fault \<Rightarrow> nat \<Rightarrow> exporter \<Rightarrow> exporter" where
  "compaction_step fault i e =
     (let gs = exCompactions e;
          finish = take i gs @ drop (Suc i) gs
      in
      if length gs \<le> i then e
      else
        (case gs ! i of
           Scheduled \<Rightarrow> e\<lparr>exCompactions := gs[i := Snapshot (PendingTips (exAcc e))]\<rparr>
         | Snapshot p \<Rightarrow>
             (case exWal e of
                None \<Rightarrow> e\<lparr>exCompactions := finish\<rparr>
              | Some w \<Rightarrow>
                  (case Compact fault p w of
                     (Some err, warned, w') \<Rightarrow> e\<lparr>exWal := Some w', exCompactions := finish\<rparr>
                   | (None, warned, w') \<Rightarrow> e\<lparr>exWal := Some w', exCompactions := gs[i := Compacted]\<rparr>))
         | Compacted \<Rightarrow> e\<lparr>exSealed := [], exCompactions := finish\<rparr>))"

section \<open>Shutdown\<close>

datatype shutdown_error =
    FinalCheckpoint check_error | CheckpointingDisabled nat | TipsDropped nat | LogDisabled nat
  | ClosingLog | ClosingCheckpoint | ClosingWAL

record shutdown_io =
  sdSeals :: "bytes \<Rightarrow> seal_io"
  sdCheck :: check_io
  sdCloseLog :: bool
  sdCloseCheck :: bool
  sdCompact :: compact_fault
  sdCloseWal :: bool

text \<open>Steps 4 and 5, under the mutex: seal every buffer, write the final checkpoint, collect what was lost.\<close>

definition shutdown_locked :: "shutdown_io \<Rightarrow> bytes list \<Rightarrow> exporter \<Rightarrow> shutdown_error list \<times> exporter" where
  "shutdown_locked io order e =
     (let e1 = fold (\<lambda>trace e.
                  case map_of (exBuffers e) trace of
                    None \<Rightarrow> e
                  | Some buf \<Rightarrow> sealTrace (sdSeals io trace) trace buf (effectiveCheckpointInterval (exCfg e)) e)
                order e;
          (final, e2) = (if 0 < PendingCount (exAcc e1) then writeCheckpoint (sdCheck io) e1 else (None, e1));
          errs = (case final of Some err \<Rightarrow> [FinalCheckpoint err] | None \<Rightarrow> []) @
            (if exCheckpointPoisoned e2 then [CheckpointingDisabled (exUncoveredAfterPoison e2)] else []) @
            (if 0 < exPendingCapDropped e2 then [TipsDropped (exPendingCapDropped e2)] else []) @
            (if exLogPoisoned e2 then [LogDisabled (exQuarantinedAfterLogPoison e2)] else [])
      in (errs, e2))"

text \<open>Step 8: close the files and compact a last time. Step 7 waits for the goroutines or for the context.\<close>

definition shutdown_close :: "shutdown_io \<Rightarrow> exporter \<Rightarrow> shutdown_error list \<times> exporter" where
  "shutdown_close io e =
     (let files = (if exFilesOpen e
                   then (if sdCloseLog io then [] else [ClosingLog]) @ (if sdCloseCheck io then [] else [ClosingCheckpoint])
                   else []);
          e1 = e\<lparr>exFilesOpen := False\<rparr>
      in case exWal e of
           None \<Rightarrow> (files, e1)
         | Some w \<Rightarrow>
             (case Compact (sdCompact io) (PendingTips (exAcc e)) w of
                (cerr, warned, w') \<Rightarrow>
                  (case Close (sdCloseWal io) w' of
                     (werr, w'') \<Rightarrow>
                       (files @ (case werr of Some _ \<Rightarrow> [ClosingWAL] | None \<Rightarrow> []),
                        e1\<lparr>exWal := None, exSealed := (if cerr = None then [] else exSealed e)\<rparr>))))"

text \<open>
  \<open>Shutdown\<close> of a started exporter, whose background worker has stopped: between the two parts the
  compaction goroutines that are waited for take their steps, all of them or those before the context expires.
\<close>

definition Shutdown :: "shutdown_io \<Rightarrow> bytes list \<Rightarrow> (compact_fault \<times> nat) list \<Rightarrow> exporter \<Rightarrow> shutdown_error list \<times> exporter" where
  "Shutdown io order waits e =
     (case shutdown_locked io order e of
        (shutdownErrs, e1) \<Rightarrow>
          (case shutdown_close io (fold (\<lambda>(fault, i). compaction_step fault i) waits e1) of
             (errs, e2) \<Rightarrow> (shutdownErrs @ errs, e2)))"

end
