(* ===== verification/Exporter_Start.thy ===== *)
theory Exporter_Start
  imports Exporter_Seal Keys
begin

text \<open>
  \<open>Start\<close> of \<open>exporter.go\<close>: load the key, repair the tails of the files, open them, replay the
  write-ahead log into buffers, set aside what cannot be sealed, resume the checkpoint chain from the
  last checkpoint, restore the tips that are owed a checkpoint, compact, and seal the traces that must
  keep their schema version. The four files before and after are one record; what the system answers
  is an argument. The paths are taken to be distinct, which \<open>Config.Validate\<close> requires.
\<close>

section \<open>readLastCheckpoint\<close>

datatype read_failure = OpenCheckpointFile | ScanCheckpointFile

definition readLastCheckpoint :: "disk_file \<Rightarrow> read_failure + Checkpoint option" where
  "readLastCheckpoint f =
     (case f of
        NotExist \<Rightarrow> Inr None
      | OpenFails \<Rightarrow> Inl OpenCheckpointFile
      | ReadFails \<Rightarrow> Inl ScanCheckpointFile
      | Content s \<Rightarrow>
          (case scan_lines exporter_maxScanTokenSize s of
             (lines, too_long) \<Rightarrow>
               if too_long then Inl ScanCheckpointFile
               else (case List.map_filter Unmarshal_Checkpoint (filter (\<lambda>l. l \<noteq> []) lines) of
                       [] \<Rightarrow> Inr None | cps \<Rightarrow> Inr (Some (last cps)))))"

section \<open>The disk and what it answers\<close>

record disk =
  dkLog :: "bytes option"
  dkCheck :: "bytes option"
  dkWal :: "bytes option"
  dkQuarantine :: "bytes option"

datatype read_outcome = ReadWhole | ReadNotOpened | ReadBroken

fun as_read :: "read_outcome \<Rightarrow> bytes option \<Rightarrow> disk_file" where
  "as_read ReadNotOpened c = OpenFails"
| "as_read ReadBroken c = ReadFails"
| "as_read ReadWhole None = NotExist"
| "as_read ReadWhole (Some s) = Content s"

record start_io =
  snKeyFile :: disk_file
  snRepairLog :: repair_fault
  snRepairCheck :: repair_fault
  snRepairQuarantine :: repair_fault
  snOpenLog :: bool
  snOpenCheck :: bool
  snOpenWal :: bool
  snReplay :: read_outcome
  snNow :: int
  snOrder :: "bytes list"
  snQuarantine :: "bytes \<Rightarrow> quarantine_io"
  snMark :: "bytes \<Rightarrow> write_outcome"
  snMarkSync :: "bytes \<Rightarrow> bool"
  snReadCheckpoint :: read_outcome
  snCompact :: compact_fault
  snSeals :: "bytes \<Rightarrow> seal_io"

datatype start_error =
    LoadingKey key_error | RepairingLog repair_error | RepairingCheckpoint repair_error
  | OpeningLog | OpeningCheckpoint | OpeningWAL | ReplayingWAL wal_error

section \<open>Replayed traces\<close>

definition replay_buffer :: "int \<Rightarrow> AuditRecord list \<Rightarrow> traceBuffer" where
  "replay_buffer now recs =
     \<lparr>tbRecords = fold (\<lambda>r m. AList.update (spanID r) r m) recs [], tbLastSeen = now,
      tbHasRoot = (\<exists>r \<in> set recs. parentSpanID r = [])\<rparr>"

definition buffer_versions :: "traceBuffer \<Rightarrow> bytes list" where
  "buffer_versions buf = sort (remdups (map (\<lambda>p. schemaVersion (snd p)) (tbRecords buf)))"

datatype disposition = Restamp | SealAtOwnVersion | SetAside

definition disposition_of :: "bytes list \<Rightarrow> disposition" where
  "disposition_of versions =
     (if list_all RestampableToCurrent versions then Restamp
      else if length versions = 1 \<and> Implemented (versions ! 0) then SealAtOwnVersion
      else SetAside)"

definition restamp :: "traceBuffer \<Rightarrow> traceBuffer" where
  "restamp buf = buf\<lparr>tbRecords := map (\<lambda>(k, r). (k, r\<lparr>schemaVersion := SchemaVersion\<rparr>)) (tbRecords buf)\<rparr>"

text \<open>One replayed trace: the exporter, and the traces to be sealed at their own version.\<close>

definition replay_trace :: "start_io \<Rightarrow> bytes \<times> AuditRecord list \<Rightarrow> exporter \<times> bytes list \<Rightarrow> exporter \<times> bytes list" where
  "replay_trace io tr st =
     (case (tr, st) of ((trace, recs), (e, own)) \<Rightarrow>
        let buf = replay_buffer (snNow io) recs;
            versions = buffer_versions buf
        in
        (case disposition_of versions of
           Restamp \<Rightarrow> (e\<lparr>exBuffers := AList.update trace (restamp buf) (exBuffers e)\<rparr>, own)
         | SealAtOwnVersion \<Rightarrow> (e\<lparr>exBuffers := AList.update trace buf (exBuffers e)\<rparr>, own @ [trace])
         | SetAside \<Rightarrow>
             let unsealable = map snd (tbRecords buf);
                 reason = (if length versions = 1
                           then ''schema version is not implemented by this binary; its records cannot be sealed honestly''
                           else ''trace spans schema versions that cannot be reconciled into one chain'')
             in
             (case quarantineRecords (snQuarantine io trace) trace unsealable (Some versions) reason e of
                (kept, e1) \<Rightarrow>
                  let e2 = e1\<lparr>exStartupSealed := trace # exStartupSealed e1\<rparr>
                  in (if kept = length unsealable then markWALSealed (snMark io trace) (snMarkSync io trace) trace e2 else e2,
                      own))))"

section \<open>Start\<close>

text \<open>The repair of one file: a file that cannot be inspected is only logged, a failed repair is fatal.\<close>

definition fatal_repair :: "(repair_error + tornTailRepair) \<Rightarrow> repair_error option" where
  "fatal_repair res = (case res of Inl RepairUnavailable \<Rightarrow> None | Inl err \<Rightarrow> Some err | Inr _ \<Rightarrow> None)"

definition opened :: "bytes option \<Rightarrow> bytes" where
  "opened c = (case c of None \<Rightarrow> [] | Some s \<Rightarrow> s)"

definition resume_accumulator :: "Signer \<Rightarrow> disk_file \<Rightarrow> SealedTip list \<Rightarrow> Accumulator" where
  "resume_accumulator signer checkpointFile sealedPending =
     (let acc = (case readLastCheckpoint checkpointFile of
                   Inr (Some lastCP) \<Rightarrow>
                     NewAccumulator signer (cpCheckpointSeq lastCP)
                       (hex_EncodeToString (sha256 (CheckpointSigningPayload lastCP)))
                 | _ \<Rightarrow> NewAccumulator signer 0 ZeroPrevCheckpointHash)
      in fold (\<lambda>tip. AddTip (stTraceID tip) (stTipHash tip) (stEntryCount tip)) sealedPending acc)"

text \<open>From the replayed log on: everything after this point succeeds.\<close>

definition start_replayed ::
  "start_io \<Rightarrow> Signer \<Rightarrow> Config \<Rightarrow> disk \<Rightarrow> WAL \<Rightarrow> (bytes \<times> AuditRecord list) list \<times> SealedTip list \<Rightarrow> exporter" where
  "start_replayed io signer cfg d w replay =
     (case replay of (replayed, sealedPending) \<Rightarrow>
        let e0 = \<lparr>exCfg = cfg, exSigner = signer, exLog = opened (dkLog d), exCheck = opened (dkCheck d),
                  exFilesOpen = True, exWal = Some w, exQuarantine = opened (dkQuarantine d),
                  exAcc = NewAccumulator signer 0 ZeroPrevCheckpointHash, exBuffers = [], exSealed = [],
                  exStartupSealed = [], exCheckpointPoisoned = False, exCheckpointRetryAt = 0,
                  exCheckpointFailures = 0, exUncoveredAfterPoison = 0, exLogPoisoned = False,
                  exQuarantinedAfterLogPoison = 0, exPendingCapDropped = 0, exPendingCapWarned = False,
                  exLastCheckpointAttempt = None, exCompactions = []\<rparr>;
            (e1, own) = fold (\<lambda>trace st. case map_of replayed trace of
                                 None \<Rightarrow> st | Some recs \<Rightarrow> replay_trace io (trace, recs) st) (snOrder io) (e0, []);
            e2 = e1\<lparr>exAcc := resume_accumulator signer (as_read (snReadCheckpoint io) (Some (exCheck e1))) sealedPending\<rparr>;
            e3 = (case exWal e2 of
                    None \<Rightarrow> e2
                  | Some w' \<Rightarrow> e2\<lparr>exWal := Some (snd (snd (Compact (snCompact io) (PendingTips (exAcc e2)) w')))\<rparr>)
        in fold (\<lambda>trace e.
               case map_of (exBuffers e) trace of
                 None \<Rightarrow> e
               | Some buf \<Rightarrow>
                   sealTrace (snSeals io trace) trace buf (effectiveCheckpointInterval cfg)
                     (e\<lparr>exStartupSealed := trace # exStartupSealed e\<rparr>))
             own e3)"

definition Start :: "ed25519 \<Rightarrow> key_codec \<Rightarrow> start_io \<Rightarrow> Config \<Rightarrow> disk \<Rightarrow> start_error \<times> disk + exporter" where
  "Start ed kc io cfg d0 =
     (case LoadEd25519PrivateKeyPEM kc (snKeyFile io) of
        Inl err \<Rightarrow> Inl (LoadingKey err, d0)
      | Inr priv \<Rightarrow>
        (case repairTrailingPartialLine (snRepairLog io) (dkLog d0) of (rlog, clog) \<Rightarrow>
         let d1 = d0\<lparr>dkLog := clog\<rparr> in
         (case fatal_repair rlog of Some err \<Rightarrow> Inl (RepairingLog err, d1) | None \<Rightarrow>
         (case repairTrailingPartialLine (snRepairCheck io) (dkCheck d1) of (rcheck, ccheck) \<Rightarrow>
          let d2 = d1\<lparr>dkCheck := ccheck\<rparr> in
          (case fatal_repair rcheck of Some err \<Rightarrow> Inl (RepairingCheckpoint err, d2) | None \<Rightarrow>
           let d3 = d2\<lparr>dkQuarantine := snd (repairTrailingPartialLine (snRepairQuarantine io) (dkQuarantine d2))\<rparr> in
           if \<not> snOpenLog io then Inl (OpeningLog, d3)
           else
             let d4 = d3\<lparr>dkLog := Some (opened (dkLog d3))\<rparr> in
             if \<not> snOpenCheck io then Inl (OpeningCheckpoint, d4)
             else
               let d5 = d4\<lparr>dkCheck := Some (opened (dkCheck d4))\<rparr> in
               (case Open (snOpenWal io) (dkWal d5) of
                  Inl _ \<Rightarrow> Inl (OpeningWAL, d5)
                | Inr w \<Rightarrow>
                    let d6 = d5\<lparr>dkWal := walContent w\<rparr> in
                    (case Replay (as_read (snReplay io) (walContent w)) of
                       Inl err \<Rightarrow> Inl (ReplayingWAL err, d6)
                     | Inr replay \<Rightarrow> Inr (start_replayed io (NewEd25519Signer ed priv) cfg d6 w replay))))))))"

section \<open>A system that never fails\<close>

text \<open>Answers to run the model with: every call succeeds, at time zero.\<close>

definition ok_check :: check_io where
  "ok_check = \<lparr>ciNow = 0, ciTimestamp = ''2026-01-01T00:00:00Z'', ciSeek = True, ciWrite = WriteOK, ciSync = True,
     ciTruncate = True, ciTruncateSync = True\<rparr>"

definition ok_quarantine :: quarantine_io where
  "ok_quarantine = \<lparr>qiOpen = True, qiTime = ''2026-01-01T00:00:00Z'', qiWrites = []\<rparr>"

definition ok_seal :: seal_io where
  "ok_seal = \<lparr>siNow = 0, siSeek = True, siWrites = [], siSync = True, siTruncate = True, siRepair = RepairOK,
     siMarker = WriteOK, siCheck = ok_check, siMark = WriteOK, siMarkSync = True, siQuarantine = ok_quarantine\<rparr>"

definition ok_start :: "bytes \<Rightarrow> start_io" where
  "ok_start key = \<lparr>snKeyFile = Content (pemEncode toy_codec ''PRIVATE KEY'' key), snRepairLog = RepairOK,
     snRepairCheck = RepairOK, snRepairQuarantine = RepairOK, snOpenLog = True, snOpenCheck = True, snOpenWal = True,
     snReplay = ReadWhole, snNow = 0, snOrder = [], snQuarantine = (\<lambda>_. ok_quarantine), snMark = (\<lambda>_. WriteOK),
     snMarkSync = (\<lambda>_. True), snReadCheckpoint = ReadWhole, snCompact = NoFault, snSeals = (\<lambda>_. ok_seal)\<rparr>"

definition unset_config :: Config where
  "unset_config = \<lparr>LogPath = ''log'', KeyPath = ''key'', WalPath = ''wal'', CheckpointPath = ''checkpoints'',
     TraceTimeout = 0, CheckpointInterval = 0, FsyncLog = None, MaxPendingTips = 0, MinCheckpointRetryInterval = 0\<rparr>"

definition empty_disk :: disk where
  "empty_disk = \<lparr>dkLog = None, dkCheck = None, dkWal = None, dkQuarantine = None\<rparr>"

lemma ok_start_key: "LoadEd25519PrivateKeyPEM toy_codec (snKeyFile (ok_start key)) = Inr key"
  using toy_codec_faithful by (simp add: ok_start_def faithful_codec_def LoadEd25519PrivateKeyPEM_def load_key_def toy_codec_def)

end
