(* ===== verification/Exporter_Inv.thy ===== *)
theory Exporter_Inv
  imports Exporter_Seal
begin

text \<open>
  The invariant of the exporter's files and its preservation by \<open>sealTrace\<close>. \<open>log_inv\<close> says that the
  audit log is a list of whole chains, one per sealed trace, with anything after them only once the
  log is poisoned; \<open>check_inv\<close> that the checkpoint file holds exactly the checkpoints the accumulator
  committed along some run, with anything after them only once checkpointing is poisoned, and that
  every tip the accumulator was given describes a chain in the log.
\<close>

section \<open>What is in the files\<close>

definition sealed_chain :: "Signer \<Rightarrow> bytes \<Rightarrow> LogEntry list \<Rightarrow> bool" where
  "sealed_chain signer t les \<longleftrightarrow>
     (\<exists>rs v seed es. rs \<noteq> [] \<and> (\<forall>r \<in> set rs. traceID r = t \<and> schemaVersion r = v) \<and>
        map seqInTrace rs = map int [0..<length rs] \<and> GenesisSeedForSchema t v = Inr seed \<and>
        BuildChain rs seed signer = Inr es \<and> les = ToLogEntries es)"

definition chain_tip :: "LogEntry list \<Rightarrow> bytes" where
  "chain_tip les = seEntryHash (leSigned (last les))"

definition tip_in :: "(bytes \<times> LogEntry list) list \<Rightarrow> TraceTip \<Rightarrow> bool" where
  "tip_in cs x \<longleftrightarrow> (\<exists>les. (tipTraceID x, les) \<in> set cs \<and> tipHash x = chain_tip les \<and> tipEntryCount x = int (length les))"

definition log_inv :: "Signer \<Rightarrow> (bytes \<times> LogEntry list) list \<Rightarrow> exporter \<Rightarrow> bool" where
  "log_inv signer cs e \<longleftrightarrow>
     (\<forall>(t, les) \<in> set cs. sealed_chain signer t les) \<and>
     (\<exists>rest. exLog e = log_file (concat (map snd cs)) @ rest \<and> (\<not> exLogPoisoned e \<longrightarrow> rest = []))"

text \<open>The run of the accumulator starts where the checkpoints \<open>cks0\<close> of earlier processes end.\<close>

abbreviation resumed :: "Signer \<Rightarrow> Checkpoint list \<Rightarrow> acc_run" where
  "resumed signer cks0 \<equiv> acc_start signer (of_nat (length cks0)) (last_link ZeroPrevCheckpointHash cks0)"

definition check_inv :: "Signer \<Rightarrow> Checkpoint list \<Rightarrow> (TraceTip \<Rightarrow> bool) \<Rightarrow> exporter \<Rightarrow> bool" where
  "check_inv signer cks0 P e \<longleftrightarrow>
     (\<exists>(s :: acc_run) rest. acc_step\<^sup>*\<^sup>* (resumed signer cks0) s \<and> runStaged s = None \<and> runAcc s = exAcc e \<and>
        exCheck e = checkpoint_file (cks0 @ runCommitted s) @ rest \<and> (\<not> exCheckpointPoisoned e \<longrightarrow> rest = []) \<and>
        (\<forall>x \<in> set (runAdded s). P x))"

lemma check_inv_cong:
  "exAcc e' = exAcc e \<Longrightarrow> exCheck e' = exCheck e \<Longrightarrow> exCheckpointPoisoned e' = exCheckpointPoisoned e \<Longrightarrow>
     check_inv signer cks0 P e' \<longleftrightarrow> check_inv signer cks0 P e"
  by (simp add: check_inv_def)

lemma check_inv_mono: "check_inv signer cks0 P e \<Longrightarrow> (\<And>x. P x \<Longrightarrow> Q x) \<Longrightarrow> check_inv signer cks0 Q e"
  unfolding check_inv_def by blast

lemma tip_in_mono: "tip_in cs x \<Longrightarrow> set cs \<subseteq> set ds \<Longrightarrow> tip_in ds x"
  by (auto simp: tip_in_def)

section \<open>The accumulator's side\<close>

lemma check_inv_add:
  assumes "check_inv signer cks0 P e" and "P \<lparr>tipTraceID = t, tipHash = h, tipEntryCount = n\<rparr>"
  shows "check_inv signer cks0 P (add_tip_step i t h n e)"
proof (cases "exCheckpointPoisoned e")
  case True
  then show ?thesis using assms(1) by (simp add: add_tip_step_def check_inv_def)
next
  case False
  from assms(1) obtain s rest where s: "acc_step\<^sup>*\<^sup>* (resumed signer cks0) s" "runStaged s = None" "runAcc s = exAcc e"
      "exCheck e = checkpoint_file (cks0 @ runCommitted s) @ rest" "rest = []" "\<forall>x \<in> set (runAdded s). P x"
    using False by (auto simp: check_inv_def)
  obtain d a where tr: "TrimPending (effectiveMaxPendingTips (exCfg e) i) (AddTip t h n (exAcc e)) = (d, a)" by fastforce
  let ?s1 = "s\<lparr>runAcc := AddTip t h n (runAcc s),
      runAdded := runAdded s @ [\<lparr>tipTraceID = t, tipHash = h, tipEntryCount = n\<rparr>]\<rparr>"
  let ?s2 = "?s1\<lparr>runAcc := a, runGivenUp := runGivenUp ?s1 @ take d (accPending (runAcc ?s1))\<rparr>"
  have "acc_step s ?s1" by (rule acc_step.add)
  moreover have "acc_step ?s1 ?s2"
    by (rule acc_step.trim [where cap = "effectiveMaxPendingTips (exCfg e) i"]) (use s(2,3) tr in simp_all)
  ultimately have run: "acc_step\<^sup>*\<^sup>* (resumed signer cks0) ?s2" using s(1) by (meson rtranclp.rtrancl_into_rtrancl)
  have e': "exAcc (add_tip_step i t h n e) = a" "exCheck (add_tip_step i t h n e) = exCheck e"
    "exCheckpointPoisoned (add_tip_step i t h n e) = False"
    using False tr by (simp_all add: add_tip_step_def Let_def)
  show ?thesis
    unfolding check_inv_def
    by (rule exI [of _ ?s2], rule exI [of _ "[]"]) (use run s e' assms(2) in auto)
qed

text \<open>Poisoning drops the pending tips; whatever follows the committed checkpoints stays.\<close>

lemma check_inv_poison:
  assumes "acc_step\<^sup>*\<^sup>* (resumed signer cks0) s" and "runStaged s = None" and "runAcc s = exAcc e"
    and "exCheck e = checkpoint_file (cks0 @ runCommitted s) @ rest" and "\<forall>x \<in> set (runAdded s). P x"
    and "\<not> exCheckpointPoisoned e"
  shows "check_inv signer cks0 P (poisonCheckpoint e)"
proof -
  obtain d a where dr: "DropPending (exAcc e) = (d, a)" by fastforce
  let ?s = "s\<lparr>runAcc := a, runGivenUp := runGivenUp s @ accPending (runAcc s)\<rparr>"
  have "acc_step s ?s" by (rule acc_step.drop_all) (use assms(2,3) dr in simp_all)
  then have run: "acc_step\<^sup>*\<^sup>* (resumed signer cks0) ?s" using assms(1) by simp
  show ?thesis
    unfolding check_inv_def
    by (rule exI [of _ ?s], rule exI [of _ rest]) (use run assms dr in \<open>simp add: poisonCheckpoint_def\<close>)
qed

lemma check_inv_rollback:
  assumes "acc_step\<^sup>*\<^sup>* (resumed signer cks0) s" and "runStaged s = None" and "runAcc s = exAcc e"
    and "exCheck e = checkpoint_file (cks0 @ runCommitted s) @ x" and "\<forall>x \<in> set (runAdded s). P x"
    and "\<not> exCheckpointPoisoned e"
  shows "check_inv signer cks0 P (rollbackCheckpoint io (length (checkpoint_file (cks0 @ runCommitted s))) e)"
proof -
  let ?e = "e\<lparr>exCheck := checkpoint_file (cks0 @ runCommitted s)\<rparr>"
  have cut: "e\<lparr>exCheck := take (length (checkpoint_file (cks0 @ runCommitted s))) (exCheck e)\<rparr> = ?e"
    by (simp only: assms(4) append_eq_conv_conj append_take_drop_id) simp
  have "check_inv signer cks0 P ?e"
    unfolding check_inv_def by (rule exI [of _ s], rule exI [of _ "[]"]) (use assms in simp)
  moreover have "check_inv signer cks0 P (poisonCheckpoint ?e)"
    by (rule check_inv_poison [OF assms(1,2), where rest = "[]"]) (use assms in simp_all)
  moreover have "check_inv signer cks0 P (poisonCheckpoint e)"
    by (rule check_inv_poison [OF assms(1-5,6)])
  ultimately show ?thesis by (simp add: rollbackCheckpoint_def Let_def cut del: terminate_lines_simps map_append)
qed

lemma check_inv_body:
  assumes "check_inv signer cks0 P e"
  shows "check_inv signer cks0 P (snd (write_checkpoint_body io e))"
proof -
  from assms obtain s rest where s: "acc_step\<^sup>*\<^sup>* (resumed signer cks0) s" "runStaged s = None" "runAcc s = exAcc e"
      "exCheck e = checkpoint_file (cks0 @ runCommitted s) @ rest" "\<not> exCheckpointPoisoned e \<longrightarrow> rest = []"
      "\<forall>x \<in> set (runAdded s). P x"
    by (auto simp: check_inv_def)
  show ?thesis
  proof (cases "\<not> exFilesOpen e \<or> exCheckpointPoisoned e \<or> \<not> ciSeek io \<or> (\<exists>err. Stage (ciTimestamp io) (exAcc e) = Inl err)")
    case True
    then show ?thesis using assms by (auto simp: write_checkpoint_body_def split: sum.splits)
  next
    case False
    then obtain st where f: "exFilesOpen e" "\<not> exCheckpointPoisoned e" "ciSeek io" "Stage (ciTimestamp io) (exAcc e) = Inr st"
      by (cases "Stage (ciTimestamp io) (exAcc e)") auto
    let ?line = "Marshal_Checkpoint (stCheckpoint st) @ [LF]"
    let ?e = "e\<lparr>exCheck := exCheck e @ written (ciWrite io) ?line\<rparr>"
    have chk: "exCheck e = checkpoint_file (cks0 @ runCommitted s)" using s(4,5) f(2) by simp
    have roll: "check_inv signer cks0 P (rollbackCheckpoint io (length (exCheck e)) ?e)"
      unfolding chk by (rule check_inv_rollback [OF s(1,2)]) (use s chk f(2) in simp_all)
    have same: "written (ciWrite io) ?line = [] \<Longrightarrow> check_inv signer cks0 P ?e"
      using assms by (simp add: check_inv_def)
    let ?s1 = "s\<lparr>runStaged := Some st\<rparr>"
    have step1: "acc_step s ?s1" using s(2,3) f(4) by (intro acc_step.stage) simp_all
    obtain a where a: "Commit st (exAcc e) = Inr a"
      using commit_succeeds [OF stage_succeeds(1) [OF f(4)]] by blast
    let ?s2 = "?s1\<lparr>runAcc := a, runStaged := None, runCommitted := runCommitted ?s1 @ [stCheckpoint st]\<rparr>"
    have step2: "acc_step ?s1 ?s2" using s(3) a by (intro acc_step.commit) simp_all
    have run: "acc_step\<^sup>*\<^sup>* (resumed signer cks0) ?s2"
      using s(1) step1 step2 by (meson rtranclp.rtrancl_into_rtrancl)
    have committed: "check_inv signer cks0 P (e\<lparr>exCheck := exCheck e @ ?line, exAcc := a\<rparr>)"
      unfolding check_inv_def
      by (rule exI [of _ ?s2], rule exI [of _ "[]"]) (use run chk s(6) f(2) in simp)
    show ?thesis
      using f a roll same committed by (cases "ciWrite io") (auto simp: write_checkpoint_body_def Let_def)
  qed
qed

lemma check_inv_write:
  assumes "check_inv signer cks0 P e"
  shows "check_inv signer cks0 P (snd (writeCheckpoint io e))"
proof -
  have "check_inv signer cks0 P (e\<lparr>exLastCheckpointAttempt := Some (ciNow io)\<rparr>)"
    using assms by (simp add: check_inv_def)
  note b = check_inv_body [OF this, of io]
  obtain err e' where w: "write_checkpoint_body io (e\<lparr>exLastCheckpointAttempt := Some (ciNow io)\<rparr>) = (err, e')" by fastforce
  with b have "check_inv signer cks0 P e'" by simp
  then show ?thesis by (cases err) (simp_all add: writeCheckpoint_def w Let_def check_inv_def)
qed

section \<open>The log's side\<close>

lemma write_entries_cases:
  "write_entries outs les log = (ok, log') \<Longrightarrow>
     (ok \<and> log' = log @ log_file les) \<or>
     (\<not> ok \<and> (\<exists>k n. k < length les \<and> log' = log @ log_file (take k les) @ take n (MarshalLogEntry (les ! k) @ [LF])))"
proof (induction outs les log arbitrary: ok log' rule: write_entries.induct)
  case (2 outs le les log)
  show ?case
  proof (cases "next_outcome outs")
    case WriteOK
    then have "write_entries (tl outs) les (log @ MarshalLogEntry le @ [LF]) = (ok, log')"
      using "2.prems" by (simp add: writeLogEntry_def)
    moreover have "(True, log @ MarshalLogEntry le @ [LF]) = writeLogEntry (next_outcome outs) le log"
      using WriteOK by (simp add: writeLogEntry_def)
    ultimately have
      "(ok \<and> log' = (log @ MarshalLogEntry le @ [LF]) @ log_file les) \<or>
       (\<not> ok \<and> (\<exists>k n. k < length les \<and>
          log' = (log @ MarshalLogEntry le @ [LF]) @ log_file (take k les) @ take n (MarshalLogEntry (les ! k) @ [LF])))"
      using "2.IH" by blast
    then show ?thesis
    proof
      assume "\<not> ok \<and> (\<exists>k n. k < length les \<and>
          log' = (log @ MarshalLogEntry le @ [LF]) @ log_file (take k les) @ take n (MarshalLogEntry (les ! k) @ [LF]))"
      then obtain k n where "\<not> ok" "k < length les"
        "log' = (log @ MarshalLogEntry le @ [LF]) @ log_file (take k les) @ take n (MarshalLogEntry (les ! k) @ [LF])" by blast
      then show ?thesis by (intro disjI2 conjI exI [of _ "Suc k"] exI [of _ n]) simp_all
    qed simp
  next
    case (WriteFails n)
    then have "\<not> ok" "log' = log @ take n (MarshalLogEntry le @ [LF])"
      using "2.prems" by (simp_all add: writeLogEntry_def)
    then show ?thesis by (intro disjI2 conjI exI [of _ 0] exI [of _ n]) simp_all
  qed
qed simp

lemma whole_lines_append: "whole_lines s \<Longrightarrow> whole_lines t \<Longrightarrow> whole_lines (s @ t)"
  by (cases "t = []") (auto simp: whole_lines_def)

text \<open>The repair of a log that starts with complete lines only ever changes what follows them.\<close>

lemma repair_log_prefix:
  assumes "whole_lines pre"
  shows "\<exists>res y. repairTrailingPartialLine fault (Some (pre @ x)) = (res, Some (pre @ y))"
proof -
  obtain a frag where x: "x = a @ frag" "whole_lines a" "LF \<notin> set frag" using split_rest by blast
  have "snd (repairTrailingPartialLine fault (Some ((pre @ a) @ frag))) \<in>
      {Some ((pre @ a) @ frag), Some ((pre @ a) @ frag @ [LF]), Some (pre @ a)}"
    unfolding repair_parts [OF whole_lines_append [OF assms x(2)] x(3)] by (cases fault) auto
  then show ?thesis unfolding x(1) by (cases "repairTrailingPartialLine fault (Some (pre @ a @ frag))") auto
qed

lemma repair_whole:
  assumes "whole_lines s"
  shows "snd (repairTrailingPartialLine fault (Some s)) = Some s"
  using repair_parts [OF assms, of "[]" fault] by (simp split: if_splits)

text \<open>A single entry cut anywhere: the repair leaves it out or completes it.\<close>

lemma repair_one_entry:
  assumes "whole_lines pre"
    and "repairTrailingPartialLine fault (Some (pre @ take n (MarshalLogEntry le @ [LF]))) = (Inr rep, Some s)"
  shows "s = pre \<or> s = pre @ MarshalLogEntry le @ [LF]"
proof (cases "length (MarshalLogEntry le) < n")
  case True
  then have "take n (MarshalLogEntry le @ [LF]) = MarshalLogEntry le @ [LF]" by simp
  moreover have "whole_lines (pre @ MarshalLogEntry le @ [LF])" by (simp add: whole_lines_def)
  ultimately show ?thesis using repair_whole [of "pre @ MarshalLogEntry le @ [LF]" fault] assms(2) by simp
next
  case False
  then have t: "take n (MarshalLogEntry le @ [LF]) = take n (MarshalLogEntry le)" by simp
  have nl: "LF \<notin> set (take n (MarshalLogEntry le))" using log_line(1) [of le] in_set_takeD by fastforce
  have v: "json_Valid (TrimSpace (take n (MarshalLogEntry le))) \<Longrightarrow> take n (MarshalLogEntry le) \<noteq> [] \<Longrightarrow>
      take n (MarshalLogEntry le) = MarshalLogEntry le"
    using torn_log_not_valid [of le "take n (MarshalLogEntry le)" "drop n (MarshalLogEntry le)"] by fastforce
  show ?thesis
  proof (cases "take n (MarshalLogEntry le) = []")
    case True
    then show ?thesis using assms(2) repair_whole [OF assms(1), of fault] unfolding t True append_Nil2 by simp
  next
    case ne: False
    show ?thesis
      using assms(2) v ne unfolding t repair_parts [OF assms(1) nl]
      by (cases fault; cases "rest_in_reach pre (take n (MarshalLogEntry le))";
          cases "json_Valid (TrimSpace (take n (MarshalLogEntry le)))") (auto split: if_splits)
  qed
qed

lemma unpoisoned: "\<not> exLogPoisoned e \<Longrightarrow> e\<lparr>exLogPoisoned := False\<rparr> = e"
  by (cases e) simp

text \<open>A failed write: everything is taken back, or what the repair settles on remains, or the log is poisoned.\<close>

lemma rollbackLog_cases:
  assumes "whole_lines (exLog e)" and "\<not> exLogPoisoned e"
    and "safe \<Longrightarrow> \<forall>fault rep s. repairTrailingPartialLine fault (Some (exLog e @ x)) = (Inr rep, Some s) \<longrightarrow> s \<in> S"
  shows "\<exists>log' p. rollbackLog io (length (exLog e)) safe (e\<lparr>exLog := exLog e @ x\<rparr>) = e\<lparr>exLog := log', exLogPoisoned := p\<rparr> \<and>
    (\<exists>rest. log' = exLog e @ rest) \<and> (\<not> p \<longrightarrow> log' \<in> insert (exLog e) S)"
proof -
  let ?r = "rollbackLog io (length (exLog e)) safe (e\<lparr>exLog := exLog e @ x\<rparr>)"
  have same: "e\<lparr>exLog := l, exLogPoisoned := False\<rparr> = e\<lparr>exLog := l\<rparr>" for l
    using unpoisoned [of "e\<lparr>exLog := l\<rparr>"] assms(2) by simp
  consider "siTruncate io" | "\<not> siTruncate io" "\<not> safe" | "\<not> siTruncate io" "safe" by blast
  then show ?thesis
  proof cases
    case 1
    then have "?r = e\<lparr>exLog := exLog e, exLogPoisoned := False\<rparr>" by (simp only: rollbackLog_def same) simp
    then show ?thesis by (intro exI [of _ "exLog e"] exI [of _ False]) simp
  next
    case 2
    then have "?r = e\<lparr>exLog := exLog e @ x @ written (siMarker io) logPoisonTornMarker, exLogPoisoned := True\<rparr>"
      using assms(2) by (simp add: rollbackLog_def poisonLog_def)
    then show ?thesis by blast
  next
    case 3
    obtain res y where rep: "repairTrailingPartialLine (siRepair io) (Some (exLog e @ x)) = (res, Some (exLog e @ y))"
      using repair_log_prefix [OF assms(1)] by blast
    show ?thesis
    proof (cases res)
      case (Inl err)
      then have "?r = e\<lparr>exLog := exLog e @ y @ written (siMarker io) logPoisonTornMarker, exLogPoisoned := True\<rparr>"
        using 3 rep assms(2) by (simp add: rollbackLog_def repairOrPoisonLog_def poisonLog_def Let_def)
      then show ?thesis by blast
    next
      case (Inr r)
      then have "?r = e\<lparr>exLog := exLog e @ y, exLogPoisoned := False\<rparr>"
        using 3 rep by (simp add: rollbackLog_def repairOrPoisonLog_def same Let_def)
      moreover have "exLog e @ y \<in> S" using assms(3) 3 rep Inr by blast
      ultimately show ?thesis by blast
    qed
  qed
qed

text \<open>
  Step 4 of \<open>sealTrace\<close> is all or nothing: the whole chain is in the log and covered, or the write failed
  and, short of poisoning, the log holds all of it or none of it.
\<close>

lemma log_trace_cases:
  assumes "whole_lines (exLog e)" and "\<not> exLogPoisoned e"
  shows "log_trace io t entries i e = cover_trace io t entries i (e\<lparr>exLog := exLog e @ log_file (ToLogEntries entries)\<rparr>) \<or>
    (\<exists>log' p. log_trace io t entries i e = e\<lparr>exLog := log', exLogPoisoned := p\<rparr> \<and> (\<exists>rest. log' = exLog e @ rest) \<and>
       (\<not> p \<longrightarrow> log' \<in> {exLog e, exLog e @ log_file (ToLogEntries entries)}))"
proof -
  let ?les = "ToLogEntries entries"
  let ?S = "{exLog e, exLog e @ log_file ?les}"
  obtain ok log' where w: "write_entries (siWrites io) ?les (exLog e) = (ok, log')" by fastforce
  have full: "\<forall>fault rep s. repairTrailingPartialLine fault (Some (exLog e @ log_file ?les)) = (Inr rep, Some s) \<longrightarrow> s \<in> ?S"
    using repair_whole [OF whole_lines_append [OF assms(1) whole_lines_file]] by (metis insertI1 insertI2 option.inject snd_conv)
  consider "\<not> siSeek io" | "siSeek io" "\<not> ok" | "siSeek io" "ok" "fsyncLog (exCfg e) \<and> \<not> siSync io"
    | "siSeek io" "ok" "\<not> (fsyncLog (exCfg e) \<and> \<not> siSync io)" by blast
  then show ?thesis
  proof cases
    case 1
    have "e = e\<lparr>exLog := exLog e, exLogPoisoned := False\<rparr>" using unpoisoned [OF assms(2)] by simp
    with 1 show ?thesis by (intro disjI2 exI [of _ "exLog e"] exI [of _ False]) (simp add: log_trace_def)
  next
    case 2
    then obtain k n where k: "k < length ?les" "log' = exLog e @ log_file (take k ?les) @ take n (MarshalLogEntry (?les ! k) @ [LF])"
      using write_entries_cases [OF w] by blast
    let ?x = "log_file (take k ?les) @ take n (MarshalLogEntry (?les ! k) @ [LF])"
    have one: "\<forall>fault rep s. repairTrailingPartialLine fault (Some (exLog e @ ?x)) = (Inr rep, Some s) \<longrightarrow> s \<in> ?S"
      if "length ?les = 1"
    proof -
      from that obtain le where "?les = [le]" by (auto simp: length_Suc_conv)
      with k(1) show ?thesis using repair_one_entry [OF assms(1)] by fastforce
    qed
    have "log_trace io t entries i e = rollbackLog io (length (exLog e)) (length ?les = 1) (e\<lparr>exLog := exLog e @ ?x\<rparr>)"
      using 2 w k(2) by (simp add: log_trace_def Let_def)
    moreover from rollbackLog_cases [OF assms one, where io = io and safe = "length ?les = 1"] obtain l p where
      "rollbackLog io (length (exLog e)) (length ?les = 1) (e\<lparr>exLog := exLog e @ ?x\<rparr>) = e\<lparr>exLog := l, exLogPoisoned := p\<rparr>"
      "\<exists>rest. l = exLog e @ rest" "\<not> p \<longrightarrow> l \<in> insert (exLog e) ?S" by blast
    ultimately show ?thesis by (intro disjI2 exI [of _ l] exI [of _ p]) simp
  next
    case 3
    then have log': "log' = exLog e @ log_file ?les" using write_entries_cases [OF w] by blast
    have "log_trace io t entries i e = rollbackLog io (length (exLog e)) True (e\<lparr>exLog := exLog e @ log_file ?les\<rparr>)"
      using 3 w log' by (simp add: log_trace_def Let_def)
    moreover from rollbackLog_cases [OF assms full, where io = io and safe = True] obtain l p where
      "rollbackLog io (length (exLog e)) True (e\<lparr>exLog := exLog e @ log_file ?les\<rparr>) = e\<lparr>exLog := l, exLogPoisoned := p\<rparr>"
      "\<exists>rest. l = exLog e @ rest" "\<not> p \<longrightarrow> l \<in> insert (exLog e) ?S" by blast
    ultimately show ?thesis by (intro disjI2 exI [of _ l] exI [of _ p]) simp
  next
    case 4
    then have "log' = exLog e @ log_file ?les" using write_entries_cases [OF w] by blast
    with 4 w have "log_trace io t entries i e = cover_trace io t entries i (e\<lparr>exLog := exLog e @ log_file ?les\<rparr>)"
      by (auto simp: log_trace_def Let_def)
    then show ?thesis by blast
  qed
qed

section \<open>sealTrace\<close>

text \<open>What the steps after the log write leave alone.\<close>

definition same_frame :: "exporter \<Rightarrow> exporter \<Rightarrow> bool" where
  "same_frame e' e \<longleftrightarrow> exLog e' = exLog e \<and> exLogPoisoned e' = exLogPoisoned e \<and> exBuffers e' = exBuffers e \<and>
     exSigner e' = exSigner e \<and> exCfg e' = exCfg e \<and> exSealed e' = exSealed e \<and>
     exStartupSealed e' = exStartupSealed e \<and> exFilesOpen e' = exFilesOpen e"

lemma same_frame_trans: "same_frame e'' e' \<Longrightarrow> same_frame e' e \<Longrightarrow> same_frame e'' e"
  by (simp add: same_frame_def)

lemma poison_frame: "same_frame (poisonCheckpoint e) e"
  by (auto simp: same_frame_def poisonCheckpoint_def split: prod.split)

lemma rollback_frame: "same_frame (rollbackCheckpoint io n e) e"
  using poison_frame [of e] poison_frame [of "e\<lparr>exCheck := take n (exCheck e)\<rparr>"]
  by (simp add: rollbackCheckpoint_def same_frame_def Let_def)

lemma body_frame: "same_frame (snd (write_checkpoint_body io e)) e"
  using rollback_frame [of io "length (exCheck e)"] poison_frame
  by (auto simp: write_checkpoint_body_def same_frame_def Let_def split: sum.split)

lemma writeCheckpoint_frame: "same_frame (snd (writeCheckpoint io e)) e"
  using body_frame [of io "e\<lparr>exLastCheckpointAttempt := Some (ciNow io)\<rparr>"]
  by (auto simp: writeCheckpoint_def same_frame_def Let_def split: prod.split option.split)

lemma add_tip_frame: "same_frame (add_tip_step i t h n e) e"
  by (auto simp: same_frame_def add_tip_step_def Let_def split: prod.split)

lemma schedule_frame: "same_frame (scheduleWALCompact e) e"
  by (simp add: same_frame_def scheduleWALCompact_def)

lemma mark_frame: "same_frame (markWALSealed out ok t e) e"
  by (auto simp: same_frame_def markWALSealed_def split: option.split)

lemma quarantine_frame: "same_frame (snd (quarantineRecords io t recs vs reason e)) e"
  by (auto simp: same_frame_def quarantineRecords_def Let_def split: prod.split)

lemma quarantine_trace_frame: "same_frame (snd (quarantine_trace io t recs reason e)) e"
  using quarantine_frame [of "siQuarantine io" t recs None reason e] mark_frame
  by (auto simp: quarantine_trace_def same_frame_def split: prod.split)

lemma cover_frame: "same_frame (cover_trace io t entries i e) e"
proof -
  let ?e1 = "add_tip_step i t (the (TipHash entries)) (int (length entries)) e"
  let ?e2 = "if shouldCheckpoint (siNow io) i ?e1 then snd (writeCheckpoint (siCheck io) ?e1) else ?e1"
  have "same_frame ?e2 e"
    using add_tip_frame writeCheckpoint_frame same_frame_trans by (smt (verit, best) same_frame_def)
  then show ?thesis
    by (auto simp: cover_trace_def Let_def same_frame_def scheduleWALCompact_def split: option.split prod.split)
qed

lemma cover_check_inv:
  assumes "check_inv signer cks0 P e"
    and "P \<lparr>tipTraceID = t, tipHash = the (TipHash entries), tipEntryCount = int (length entries)\<rparr>"
  shows "check_inv signer cks0 P (cover_trace io t entries i e)"
proof -
  let ?e1 = "add_tip_step i t (the (TipHash entries)) (int (length entries)) e"
  let ?e2 = "if shouldCheckpoint (siNow io) i ?e1 then snd (writeCheckpoint (siCheck io) ?e1) else ?e1"
  have "check_inv signer cks0 P ?e1" by (rule check_inv_add [OF assms])
  then have e2: "check_inv signer cks0 P ?e2" using check_inv_write by simp
  have "exAcc (cover_trace io t entries i e) = exAcc ?e2 \<and> exCheck (cover_trace io t entries i e) = exCheck ?e2 \<and>
      exCheckpointPoisoned (cover_trace io t entries i e) = exCheckpointPoisoned ?e2"
    by (auto simp: cover_trace_def Let_def scheduleWALCompact_def split: option.split prod.split)
  with e2 check_inv_cong show ?thesis by blast
qed

definition uniform :: "bytes \<Rightarrow> bytes \<Rightarrow> traceBuffer \<Rightarrow> bool" where
  "uniform t v buf \<longleftrightarrow> (\<forall>p \<in> set (tbRecords buf). traceID (snd p) = t \<and> schemaVersion (snd p) = v)"

lemma number_records_facts:
  "map seqInTrace (number_records recs) = map int [0..<length recs]"
  "length (number_records recs) = length recs"
  "r \<in> set (number_records recs) \<Longrightarrow> \<exists>r' \<in> set recs. traceID r = traceID r' \<and> schemaVersion r = schemaVersion r'"
proof -
  have len: "length (SortRecords recs) = length recs" by (simp add: SortRecords_def)
  show "map seqInTrace (number_records recs) = map int [0..<length recs]"
    by (rule nth_equalityI) (simp_all add: number_records_def len nth_enumerate_eq)
  show "length (number_records recs) = length recs" by (simp add: number_records_def len)
  assume "r \<in> set (number_records recs)"
  then obtain a where "a < length (SortRecords recs)" "r = (SortRecords recs ! a)\<lparr>seqInTrace := int a\<rparr>"
    by (auto simp: number_records_def in_set_enumerate_eq)
  then obtain i r' where "r' \<in> set (SortRecords recs)" "r = r'\<lparr>seqInTrace := i\<rparr>" using nth_mem by blast
  then show "\<exists>r' \<in> set recs. traceID r = traceID r' \<and> schemaVersion r = schemaVersion r'"
    by (auto simp: SortRecords_def)
qed

lemma build_trace_sealed:
  assumes "build_trace signer t (number_records recs) = Inr entries" and "recs \<noteq> []"
    and "\<forall>r \<in> set recs. traceID r = t \<and> schemaVersion r = v"
  shows "sealed_chain signer t (ToLogEntries entries)" "chain_tip (ToLogEntries entries) = the (TipHash entries)"
    "length (ToLogEntries entries) = length entries" "entries \<noteq> []"
proof -
  let ?rs = "number_records recs"
  have ne: "?rs \<noteq> []" using number_records_facts(2) [of recs] assms(2) by (metis length_0_conv)
  have u: "\<forall>r \<in> set ?rs. traceID r = t \<and> schemaVersion r = v" using number_records_facts(3) assms(3) by fastforce
  have hd: "schemaVersion (hd ?rs) = v" using u ne by simp
  obtain seed where b: "GenesisSeedForSchema t v = Inr seed" "BuildChain ?rs seed signer = Inr entries"
    using assms(1) by (auto simp: build_trace_def hd split: sum.splits)
  then show "sealed_chain signer t (ToLogEntries entries)"
    unfolding sealed_chain_def
    by (intro exI [of _ ?rs] exI [of _ v] exI [of _ seed] exI [of _ entries])
       (use ne u number_records_facts(1,2) [of recs] in simp)
  show n: "entries \<noteq> []" using build_from_length [of 0 seed signer ?rs entries] b(2) ne by (auto simp: BuildChain_def)
  then show "chain_tip (ToLogEntries entries) = the (TipHash entries)"
    by (simp add: chain_tip_def ToLogEntries_def TipHash_def last_map)
  show "length (ToLogEntries entries) = length entries" by (simp add: ToLogEntries_def)
qed

text \<open>
  Sealing any buffer of one trace and one schema version keeps the invariant; at most the chain of
  that trace is new in the log.
\<close>

lemma seal_inv:
  fixes io :: seal_io and i :: int
  assumes "exSigner e = signer" and "log_inv signer cs e" and "check_inv signer cks0 (tip_in cs) e"
    and "uniform t v buf"
  defines "e' \<equiv> sealTrace io t buf i e"
  shows "\<exists>cs'. log_inv signer cs' e' \<and> check_inv signer cks0 (tip_in cs') e' \<and>
      (cs' = cs \<or> (\<exists>les. cs' = cs @ [(t, les)]))"
    and "exBuffers e' = AList.delete t (exBuffers e)" and "exSigner e' = signer" and "exCfg e' = exCfg e"
    and "exStartupSealed e' = exStartupSealed e"
proof -
  let ?recs = "map snd (tbRecords buf)"
  let ?e = "e\<lparr>exBuffers := AList.delete t (exBuffers e), exSealed := t # exSealed e\<rparr>"
  let ?goal = "\<lambda>e'. (\<exists>cs'. log_inv signer cs' e' \<and> check_inv signer cks0 (tip_in cs') e' \<and>
      (cs' = cs \<or> (\<exists>les. cs' = cs @ [(t, les)]))) \<and> exBuffers e' = exBuffers ?e \<and> exSigner e' = signer \<and>
      exCfg e' = exCfg e \<and> exStartupSealed e' = exStartupSealed e"
  have keep: "?goal x" if "same_frame x ?e" "exAcc x = exAcc e" "exCheck x = exCheck e"
      "exCheckpointPoisoned x = exCheckpointPoisoned e" for x
    using assms(1-3) that check_inv_cong [of x e] by (auto simp: same_frame_def log_inv_def)
  have quarantined: "exAcc (snd (quarantine_trace io t r why y)) = exAcc y \<and> exCheck (snd (quarantine_trace io t r why y)) = exCheck y \<and>
      exCheckpointPoisoned (snd (quarantine_trace io t r why y)) = exCheckpointPoisoned y" for r why y
    by (auto simp: quarantine_trace_def quarantineRecords_def markWALSealed_def Let_def split: prod.split option.split)
  have set_aside: "?goal (scheduleWALCompact ((snd (quarantine_trace io t r why ?e))\<lparr>exQuarantinedAfterLogPoison := k\<rparr>))" for r why k
    by (rule keep) (use quarantine_trace_frame [of io t r why ?e] quarantined [of r why ?e] in
        \<open>simp_all add: same_frame_def scheduleWALCompact_def\<close>)
  have set_aside': "?goal (scheduleWALCompact (snd (quarantine_trace io t r why ?e)))" for r why
    by (rule keep) (use quarantine_trace_frame [of io t r why ?e] quarantined [of r why ?e] in
        \<open>simp_all add: same_frame_def scheduleWALCompact_def\<close>)
  consider "?recs = []" | "?recs \<noteq> []" "exLogPoisoned e"
    | why where "?recs \<noteq> []" "\<not> exLogPoisoned e" "build_trace signer t (number_records ?recs) = Inl why"
    | entries where "?recs \<noteq> []" "\<not> exLogPoisoned e" "build_trace signer t (number_records ?recs) = Inr entries"
    by (cases "build_trace signer t (number_records ?recs)") auto
  then have "?goal e'"
  proof cases
    case 1
    then have eq: "e' = ?e" by (simp add: e'_def sealTrace_def)
    show ?thesis unfolding eq by (rule keep) (simp_all add: same_frame_def)
  next
    case 2
    obtain n x where q: "quarantine_trace io t ?recs ''audit log poisoned; cannot append'' ?e = (n, x)" by fastforce
    then have "e' = scheduleWALCompact (x\<lparr>exQuarantinedAfterLogPoison := exQuarantinedAfterLogPoison x + n\<rparr>)"
      using 2 by (simp add: e'_def sealTrace_def)
    then show ?thesis using set_aside [where r = ?recs and why = "''audit log poisoned; cannot append''"] q by simp
  next
    case 3
    then have "e' = scheduleWALCompact (snd (quarantine_trace io t (number_records ?recs) why ?e))"
      using assms(1) by (simp add: e'_def sealTrace_def)
    then show ?thesis using set_aside' by simp
  next
    case 4
    have log: "exLog e = log_file (concat (map snd cs))" "\<forall>(t, les) \<in> set cs. sealed_chain signer t les"
      using assms(2) 4(2) by (auto simp: log_inv_def)
    have "\<forall>r \<in> set ?recs. traceID r = t \<and> schemaVersion r = v" using assms(4) by (auto simp: uniform_def)
    note built = build_trace_sealed [OF 4(3,1) this]
    let ?les = "ToLogEntries entries"
    let ?cs = "cs @ [(t, ?les)]"
    have wl: "whole_lines (exLog ?e)" "\<not> exLogPoisoned ?e" using log(1) 4(2) by simp_all
    have e': "e' = log_trace io t entries i ?e" using 4 assms(1) by (simp add: e'_def sealTrace_def)
    have more: "check_inv signer cks0 (tip_in ?cs) e"
      by (rule check_inv_mono [OF assms(3)]) (auto intro: tip_in_mono)
    have check: "check_inv signer cks0 (tip_in ?cs) x"
      if "exAcc x = exAcc e" "exCheck x = exCheck e" "exCheckpointPoisoned x = exCheckpointPoisoned e" for x
      using more check_inv_cong [of x e] that by simp
    from log_trace_cases [OF wl, of io t entries i] show ?thesis
    proof (elim disjE exE conjE)
      assume c: "log_trace io t entries i ?e = cover_trace io t entries i (?e\<lparr>exLog := exLog ?e @ log_file ?les\<rparr>)"
      let ?f = "?e\<lparr>exLog := exLog ?e @ log_file ?les\<rparr>"
      have "tip_in ?cs \<lparr>tipTraceID = t, tipHash = the (TipHash entries), tipEntryCount = int (length entries)\<rparr>"
        using built(2,3) by (auto simp: tip_in_def)
      then have "check_inv signer cks0 (tip_in ?cs) e'"
        unfolding e' c by (intro cover_check_inv check) simp_all
      moreover have fr: "same_frame e' ?f" unfolding e' c by (rule cover_frame)
      moreover have "log_inv signer ?cs e'"
        using fr log built(1) by (auto simp: same_frame_def log_inv_def)
      ultimately show ?thesis using assms(1) by (auto simp: same_frame_def)
    next
      fix log' p rest
      assume c: "log_trace io t entries i ?e = ?e\<lparr>exLog := log', exLogPoisoned := p\<rparr>" "log' = exLog ?e @ rest"
        "\<not> p \<longrightarrow> log' \<in> {exLog ?e, exLog ?e @ log_file ?les}"
      show ?thesis
      proof (cases "\<not> p \<and> log' = exLog ?e @ log_file ?les")
        case True
        then have "log_inv signer ?cs e'" using log built(1) by (auto simp: e' c(1) log_inv_def)
        moreover have "check_inv signer cks0 (tip_in ?cs) e'" by (rule check) (simp_all add: e' c(1))
        ultimately show ?thesis using assms(1) by (auto simp: e' c(1))
      next
        case False
        then have "log_inv signer cs e'" using log c(2,3) by (auto simp: e' c(1) log_inv_def)
        moreover have "check_inv signer cks0 (tip_in cs) e'"
          using assms(3) check_inv_cong [of e' e] by (simp add: e' c(1))
        ultimately show ?thesis using assms(1) by (auto simp: e' c(1))
      qed
    qed
  qed
  then show "\<exists>cs'. log_inv signer cs' e' \<and> check_inv signer cks0 (tip_in cs') e' \<and>
      (cs' = cs \<or> (\<exists>les. cs' = cs @ [(t, les)]))"
    "exBuffers e' = AList.delete t (exBuffers e)" "exSigner e' = signer" "exCfg e' = exCfg e"
    "exStartupSealed e' = exStartupSealed e" by simp_all
qed

end
