(* ===== verification/Exporter_Runs.thy ===== *)
theory Exporter_Runs
  imports Exporter_Inv Exporter_Start
begin

text \<open>
  Runs of the exporter: the relation \<open>exp_step\<close> has one rule for each thing that happens under its
  mutex or in a compaction goroutine, with any answers of the system. The invariant \<open>exp_inv\<close> holds
  after \<open>Start\<close> on the files of earlier processes and along every run, and is enough for \<open>VerifyLog\<close>
  to accept the files.
\<close>

section \<open>Steps\<close>

inductive exp_step :: "exporter \<Rightarrow> exporter \<Rightarrow> bool" where
  span: "exp_step e (bufferSpan io (SpanToRecord sp 0) now (effectiveCheckpointInterval (exCfg e)) e)"
| tick: "exp_step e (sweep ios now timeout order e)"
| compaction: "exp_step e (compaction_step fault i e)"
| shutdown: "exp_step e (snd (shutdown_locked io order e))"

text \<open>The state of \<open>bufferSpan\<close> once the span is in its buffer and in the write-ahead log.\<close>

definition buffer_of :: "AuditRecord \<Rightarrow> int \<Rightarrow> exporter \<Rightarrow> traceBuffer" where
  "buffer_of r now e =
     buffer_record r now (case map_of (exBuffers e) (traceID r) of Some b \<Rightarrow> b | None \<Rightarrow> new_buffer now)"

definition after_buffering :: "write_outcome \<Rightarrow> AuditRecord \<Rightarrow> int \<Rightarrow> exporter \<Rightarrow> exporter" where
  "after_buffering out r now e =
     e\<lparr>exBuffers := AList.update (traceID r) (buffer_of r now e) (exBuffers e),
       exWal := map_option (\<lambda>w. snd (AppendSpan out (traceID r) r w)) (exWal e)\<rparr>"

lemma bufferSpan_cases:
  obtains "bufferSpan io r now i e = e"
  | "traceID r \<noteq> []" "traceID r \<notin> set (exStartupSealed e)" "traceID r \<notin> set (exSealed e)"
    "\<not> tbHasRoot (buffer_of r now e)" "bufferSpan io r now i e = after_buffering (spAppend io) r now e"
  | "traceID r \<noteq> []" "traceID r \<notin> set (exStartupSealed e)" "traceID r \<notin> set (exSealed e)"
    "tbHasRoot (buffer_of r now e)"
    "bufferSpan io r now i e = sealTrace (spSeal io) (traceID r) (buffer_of r now e) i (after_buffering (spAppend io) r now e)"
  by (cases "traceID r = [] \<or> traceID r \<in> set (exStartupSealed e) \<or> traceID r \<in> set (exSealed e)";
      cases "tbHasRoot (buffer_of r now e)")
     (auto simp: bufferSpan_def Let_def buffer_of_def after_buffering_def)

lemma buffered [simp]: "map_of (exBuffers (after_buffering out r now e)) (traceID r) = Some (buffer_of r now e)"
  by (simp add: after_buffering_def update_conv')

section \<open>Invariants of runs\<close>

text \<open>
  What an invariant of the exporter has to do: survive sealing a buffer it has, buffering a span of the
  current version, writing a checkpoint, and a compaction. The steps are made of these.
\<close>

locale exporter_invariant =
  fixes I :: "exporter \<Rightarrow> bool"
  assumes seal: "I e \<Longrightarrow> map_of (exBuffers e) t = Some buf \<Longrightarrow> I (sealTrace io t buf i e)"
    and buffering: "I e \<Longrightarrow> traceID r \<noteq> [] \<Longrightarrow> schemaVersion r = SchemaVersion \<Longrightarrow> I (after_buffering out r now e)"
    and checkpoint: "I e \<Longrightarrow> I (snd (writeCheckpoint cio e))"
    and compaction: "I e \<Longrightarrow> I (compaction_step fault n e)"
begin

lemma seal_known: "I e \<Longrightarrow> I (case map_of (exBuffers e) t of None \<Rightarrow> e | Some buf \<Rightarrow> sealTrace io t buf i e)"
  by (simp add: seal split: option.split)

lemma fold_seals: "I e \<Longrightarrow> (\<And>t e. I e \<Longrightarrow> I (f t e)) \<Longrightarrow> I (fold f order e)"
  by (induction order arbitrary: e) auto

lemma bufferSpan_keeps: "I e \<Longrightarrow> schemaVersion r = SchemaVersion \<Longrightarrow> I (bufferSpan io r now i e)"
  by (cases rule: bufferSpan_cases [of io r now i e]) (auto intro: seal buffering)

lemma sweep_keeps: "I e \<Longrightarrow> I (sweep ios now timeout order e)"
  unfolding sweep_def by (erule fold_seals) (auto intro: seal split: option.split)

lemma shutdown_keeps: "I e \<Longrightarrow> I (snd (shutdown_locked io order e))"
  by (auto simp: shutdown_locked_def Let_def split_beta intro!: checkpoint fold_seals seal_known)

lemma step: "exp_step e e' \<Longrightarrow> I e \<Longrightarrow> I e'"
proof (induction rule: exp_step.induct)
  case (span e io sp now)
  then show ?case by (intro bufferSpan_keeps) (simp_all add: SpanToRecord_def)
qed (simp_all add: sweep_keeps compaction shutdown_keeps)

lemma run: "exp_step\<^sup>*\<^sup>* e e' \<Longrightarrow> I e \<Longrightarrow> I e'"
  by (induction rule: rtranclp_induct) (auto intro: step)

end

section \<open>The invariant of the files\<close>

definition exp_inv :: "Signer \<Rightarrow> (bytes \<times> LogEntry list) list \<Rightarrow> Checkpoint list \<Rightarrow> exporter \<Rightarrow> bool" where
  "exp_inv signer cs0 cks0 e \<longleftrightarrow> exSigner e = signer \<and>
     (\<exists>new. log_inv signer (cs0 @ new) e \<and> check_inv signer cks0 (tip_in (cs0 @ new)) e) \<and>
     (\<forall>(t, b) \<in> set (exBuffers e). uniform t SchemaVersion b)"

lemma set_update: "set (AList.update k v m) \<subseteq> insert (k, v) (set m)"
  by (induction m) auto

lemma update_has: "(k, v) \<in> set (AList.update k v m)"
  by (induction m) auto

lemma update_keeps: "(k', v') \<in> set m \<Longrightarrow> k' \<noteq> k \<Longrightarrow> (k', v') \<in> set (AList.update k v m)"
  by (induction m) auto

lemma set_delete: "set (AList.delete k m) \<subseteq> set m"
  by (auto simp: AList.delete_eq)

lemma seal_exp_inv:
  assumes "exp_inv signer cs0 cks0 e" and "map_of (exBuffers e) t = Some buf"
  shows "exp_inv signer cs0 cks0 (sealTrace io t buf i e)"
proof -
  from assms(1) obtain new where h: "exSigner e = signer" "log_inv signer (cs0 @ new) e" "check_inv signer cks0 (tip_in (cs0 @ new)) e"
      "\<forall>(t, b) \<in> set (exBuffers e). uniform t SchemaVersion b"
    by (auto simp: exp_inv_def)
  then have "uniform t SchemaVersion buf" using map_of_SomeD [OF assms(2)] by auto
  note s = seal_inv [OF h(1-3) this, of io i]
  from s(1) obtain new' where "log_inv signer (cs0 @ new') (sealTrace io t buf i e)"
      "check_inv signer cks0 (tip_in (cs0 @ new')) (sealTrace io t buf i e)" by (metis append_assoc)
  then show ?thesis using s(2,3) h(4) set_delete [of t "exBuffers e"] by (auto simp: exp_inv_def)
qed

lemma buffer_uniform:
  assumes "uniform (traceID r) SchemaVersion b" and "schemaVersion r = SchemaVersion"
  shows "uniform (traceID r) SchemaVersion (buffer_record r now b)"
  using assms set_update [of "spanID r" r "tbRecords b"] unfolding uniform_def buffer_record_def by fastforce

lemma buffering_exp_inv:
  assumes "exp_inv signer cs0 cks0 e" and "schemaVersion r = SchemaVersion"
  shows "exp_inv signer cs0 cks0 (after_buffering out r now e)"
proof -
  have "uniform (traceID r) SchemaVersion (case map_of (exBuffers e) (traceID r) of Some b \<Rightarrow> b | None \<Rightarrow> new_buffer now)"
    using assms(1) by (auto simp: exp_inv_def uniform_def new_buffer_def split: option.split dest: map_of_SomeD)
  then have "uniform (traceID r) SchemaVersion (buffer_of r now e)"
    unfolding buffer_of_def using buffer_uniform assms(2) by blast
  then have "\<forall>(t, b) \<in> set (exBuffers (after_buffering out r now e)). uniform t SchemaVersion b"
    using assms(1) set_update [of "traceID r" "buffer_of r now e" "exBuffers e"]
    by (auto simp: exp_inv_def after_buffering_def)
  then show ?thesis using assms(1) by (simp add: exp_inv_def log_inv_def check_inv_def after_buffering_def)
qed

lemma checkpoint_exp_inv:
  assumes "exp_inv signer cs0 cks0 e"
  shows "exp_inv signer cs0 cks0 (snd (writeCheckpoint io e))"
proof -
  let ?e = "snd (writeCheckpoint io e)"
  from assms obtain new where n: "log_inv signer (cs0 @ new) e" "check_inv signer cks0 (tip_in (cs0 @ new)) e"
    by (auto simp: exp_inv_def)
  have f: "same_frame ?e e" by (rule writeCheckpoint_frame)
  then have "log_inv signer (cs0 @ new) ?e" using n(1) by (simp add: same_frame_def log_inv_def)
  with check_inv_write [OF n(2)] have "\<exists>new. log_inv signer (cs0 @ new) ?e \<and> check_inv signer cks0 (tip_in (cs0 @ new)) ?e"
    by blast
  then show ?thesis using assms f by (simp add: exp_inv_def same_frame_def)
qed

lemma compaction_frame:
  "same_frame (compaction_step fault i e\<lparr>exSealed := exSealed e\<rparr>) e"
  "exAcc (compaction_step fault i e) = exAcc e" "exCheck (compaction_step fault i e) = exCheck e"
  "exCheckpointPoisoned (compaction_step fault i e) = exCheckpointPoisoned e"
  "exCheckpointRetryAt (compaction_step fault i e) = exCheckpointRetryAt e"
  by (auto simp: compaction_step_def same_frame_def Let_def split: compaction.split option.split prod.split)

lemma compaction_exp_inv: "exp_inv signer cs0 cks0 e \<Longrightarrow> exp_inv signer cs0 cks0 (compaction_step fault i e)"
  using compaction_frame [where fault = fault and i = i and e = e]
  by (simp add: exp_inv_def same_frame_def log_inv_def check_inv_def)

interpretation files: exporter_invariant "exp_inv signer cs0 cks0"
  by unfold_locales (simp_all add: seal_exp_inv buffering_exp_inv checkpoint_exp_inv compaction_exp_inv)

section \<open>The files verify\<close>

text \<open>Checkpoints of earlier processes that a resumed run can continue.\<close>

definition checkpoint_chain :: "Signer \<Rightarrow> Checkpoint list \<Rightarrow> bool" where
  "checkpoint_chain signer cks \<longleftrightarrow> linked ZeroPrevCheckpointHash cks \<and>
     map cpCheckpointSeq cks = map (\<lambda>i. of_nat (Suc i)) [0..<length cks] \<and> (\<forall>c \<in> set cks. made_by signer c)"

lemma covered_tips_append: "covered_tips (cs @ ds) = covered_tips cs @ covered_tips ds"
  by (simp add: covered_tips_def)

lemma seq_numbers_append:
  "map (\<lambda>i. of_nat (Suc i) :: 64 word) [0..<m + n] =
     map (\<lambda>i. of_nat (Suc i)) [0..<m] @ map (\<lambda>i. of_nat m + of_nat (Suc i)) [0..<n]"
  by (rule nth_equalityI) (auto simp: nth_append)

lemma resumed_inv:
  assumes "checkpoint_chain signer cks0" and "acc_step\<^sup>*\<^sup>* (resumed signer cks0) s"
  shows "acc_inv signer 0 ZeroPrevCheckpointHash
    (s\<lparr>runCommitted := cks0 @ runCommitted s, runAdded := covered_tips cks0 @ runAdded s\<rparr>)"
proof -
  have inv: "acc_inv signer (of_nat (length cks0)) (last_link ZeroPrevCheckpointHash cks0) s"
    by (rule acc_inv_reachable [OF assms(2)])
  have "map cpCheckpointSeq (cks0 @ runCommitted s) = map (\<lambda>i. of_nat (Suc i)) [0..<length cks0 + length (runCommitted s)]"
    unfolding seq_numbers_append using inv assms(1) by (simp only: acc_inv_def checkpoint_chain_def map_append)
  with inv assms(1) show ?thesis
    by (auto simp: acc_inv_def checkpoint_chain_def linked_append last_link_append covered_tips_append
        simp del: upt_Suc map_append)
qed

lemma sealed_chain_entries:
  assumes "sealed_chain signer t les"
  shows "les \<noteq> []" "e \<in> set les \<Longrightarrow> traceID (leRecord e) = t"
proof -
  from assms obtain rs v seed es where h: "rs \<noteq> []" "\<forall>r \<in> set rs. traceID r = t \<and> schemaVersion r = v"
      "BuildChain rs seed signer = Inr es" "les = ToLogEntries es"
    unfolding sealed_chain_def by blast
  have recs: "map leRecord les = rs"
    using BuildChain_chain(1) [OF h(3)] h(4) by (simp add: ToLogEntries_records)
  then show "les \<noteq> []" using h(1) by auto
  assume "e \<in> set les"
  then have "leRecord e \<in> set rs" using recs by (metis image_eqI list.set_map)
  then show "traceID (leRecord e) = t" using h(2) by blast
qed

lemma trace_entries_concat:
  assumes "\<And>c e. c \<in> set cs \<Longrightarrow> e \<in> set (snd c) \<Longrightarrow> traceID (leRecord e) = fst c"
  shows "trace_entries (concat (map snd cs)) t = concat (map snd (filter (\<lambda>c. fst c = t) cs))"
  using assms
proof (induction cs)
  case (Cons c cs)
  have "filter (\<lambda>e. traceID (leRecord e) = t) (snd c) = (if fst c = t then snd c else [])"
    using Cons.prems [of c] by (simp add: filter_id_conv filter_empty_conv)
  with Cons show ?case by simp
qed simp

lemma only_chain: "distinct (map fst cs) \<Longrightarrow> (t, les) \<in> set cs \<Longrightarrow> filter (\<lambda>c. fst c = t) cs = [(t, les)]"
  by (induction cs) (force simp: filter_empty_conv)+

lemma chains_by_trace:
  assumes "distinct (map fst cs)" and "\<forall>(t, les) \<in> set cs. sealed_chain signer t les"
  shows "logged_traces (concat (map snd cs)) = fst ` set cs"
    and "(t, les) \<in> set cs \<Longrightarrow> trace_entries (concat (map snd cs)) t = les"
proof -
  have own: "traceID (leRecord e) = fst c" if "c \<in> set cs" "e \<in> set (snd c)" for c e
    using assms(2) that sealed_chain_entries(2) [of signer "fst c" "snd c" e] by (cases c) auto
  have ne: "snd c \<noteq> []" if "c \<in> set cs" for c
    using assms(2) that sealed_chain_entries(1) [of signer "fst c" "snd c"] by (cases c) auto
  show "logged_traces (concat (map snd cs)) = fst ` set cs"
  proof (intro subset_antisym subsetI)
    fix t assume "t \<in> logged_traces (concat (map snd cs))"
    then obtain c e where "c \<in> set cs" "e \<in> set (snd c)" "t = traceID (leRecord e)"
      by (auto simp: logged_traces_def)
    then show "t \<in> fst ` set cs" using own by simp
  next
    fix t assume "t \<in> fst ` set cs"
    then obtain c where c: "c \<in> set cs" "t = fst c" by blast
    then have "hd (snd c) \<in> set (snd c)" using ne by simp
    with c have "hd (snd c) \<in> set (concat (map snd cs))" "traceID (leRecord (hd (snd c))) = t"
      using own by auto
    then show "t \<in> logged_traces (concat (map snd cs))" unfolding logged_traces_def by (metis image_eqI)
  qed
  assume "(t, les) \<in> set cs"
  then show "trace_entries (concat (map snd cs)) t = les"
    using trace_entries_concat [of cs t] own only_chain [OF assms(1)] by simp
qed

end
