(* ===== verification/Exporter_Verify.thy ===== *)
theory Exporter_Verify
  imports Exporter_Runs
begin

text \<open>
  From \<open>Start\<close> to the verifier: \<open>Start\<close> on the files of earlier processes establishes the invariant
  of \<open>Exporter_Runs\<close>, every run keeps it, and whatever the system answered on the way, what the run
  leaves in the files is accepted by \<open>VerifyLog\<close>.
\<close>

section \<open>What Start finds\<close>

text \<open>Files that hold the chains \<open>cs\<close> and the checkpoints \<open>cks\<close>, each covering tips of those chains.\<close>

definition files_hold :: "Signer \<Rightarrow> (bytes \<times> LogEntry list) list \<Rightarrow> Checkpoint list \<Rightarrow> disk \<Rightarrow> bool" where
  "files_hold signer cs cks d \<longleftrightarrow>
     (\<forall>(t, les) \<in> set cs. sealed_chain signer t les) \<and> checkpoint_chain signer cks \<and>
     (\<forall>x \<in> set (covered_tips cks). tip_in cs x) \<and>
     opened (dkLog d) = log_file (concat (map snd cs)) \<and> opened (dkCheck d) = checkpoint_file cks \<and>
     (\<forall>c \<in> set cks. valid_checkpoint c \<and> short_line (Marshal_Checkpoint c))"

text \<open>A write-ahead log whose spans are filed under their own trace and whose tips are of chains in \<open>cs\<close>.\<close>

definition wal_sound :: "(bytes \<times> LogEntry list) list \<Rightarrow> walEntry list \<Rightarrow> bool" where
  "wal_sound cs es \<longleftrightarrow>
     (\<forall>e \<in> set es. (is_span e \<longrightarrow> (\<forall>r. weRecord e = Some r \<longrightarrow> traceID r = weTraceID e)) \<and>
        (is_marker e \<and> weTipHash e \<noteq> [] \<longrightarrow>
           tip_in cs \<lparr>tipTraceID = weTraceID e, tipHash = weTipHash e, tipEntryCount = weEntryCount e\<rparr>))"

lemma Replay_sound:
  assumes "Replay f = Inr (replayed, pending)" and "\<And>s. f = Content s \<Longrightarrow> wal_sound cs (wal_entries s)"
  shows "\<forall>tip \<in> set pending. tip_in cs \<lparr>tipTraceID = stTraceID tip, tipHash = stTipHash tip, tipEntryCount = stEntryCount tip\<rparr>"
    and "map_of replayed t = Some recs \<Longrightarrow> \<forall>r \<in> set recs. traceID r = t"
proof -
  have "(\<forall>tip \<in> set pending. tip_in cs \<lparr>tipTraceID = stTraceID tip, tipHash = stTipHash tip, tipEntryCount = stEntryCount tip\<rparr>) \<and>
      (map_of replayed t = Some recs \<longrightarrow> (\<forall>r \<in> set recs. traceID r = t))"
  proof (cases f)
    case (Content s)
    then have ns: "\<not> snd (scan_lines wal_maxScanTokenSize s)" using assms(1) by (auto simp: Replay_def)
    have ws: "wal_sound cs (wal_entries s)" by (rule assms(2) [OF Content])
    obtain rp where rp: "Replay (Content s) = Inr rp" "replays (wal_entries s) rp" using Replay_Content [OF ns] by blast
    then have r: "same_buffers replayed (live_spans (wal_entries s) [])"
        "pending = map tip_of_marker (filter (\<lambda>e. is_marker e \<and> weTipHash e \<noteq> []) (wal_entries s))"
      using assms(1) Content by (simp_all add: replays_def)
    have "traceID x = t" if "map_of replayed t = Some recs" "x \<in> set recs" for x
    proof -
      have "x \<in> set (spans_of t (live_spans (wal_entries s) []))"
        using r(1) that by (auto simp: same_buffers_def al_get_def split: option.splits)
      then have "(t, x) \<in> set (live_spans (wal_entries s) [])" by (auto simp: spans_of_def)
      then show "traceID x = t" using live_spans_sub ws unfolding wal_sound_def by fastforce
    qed
    then show ?thesis using ws r(2) by (auto simp: wal_sound_def tip_of_marker_def)
  qed (use assms(1) in \<open>auto simp: Replay_def\<close>)
  then show "\<forall>tip \<in> set pending. tip_in cs \<lparr>tipTraceID = stTraceID tip, tipHash = stTipHash tip, tipEntryCount = stEntryCount tip\<rparr>"
    "map_of replayed t = Some recs \<Longrightarrow> \<forall>r \<in> set recs. traceID r = t" by blast+
qed

section \<open>Replayed traces\<close>

lemma fold_update_set:
  "set (fold (\<lambda>r m. AList.update (spanID r) r m) recs m) \<subseteq> set m \<union> (\<lambda>r. (spanID r, r)) ` set recs"
proof (induction recs arbitrary: m)
  case (Cons r recs)
  then show ?case using set_update [of "spanID r" r m] by fastforce
qed simp

lemma replay_buffer_records: "(k, r) \<in> set (tbRecords (replay_buffer now recs)) \<Longrightarrow> r \<in> set recs"
  using fold_update_set [of recs "[]"] by (auto simp: replay_buffer_def)

lemma versions_set: "set (buffer_versions buf) = (\<lambda>p. schemaVersion (snd p)) ` set (tbRecords buf)"
  by (simp add: buffer_versions_def)

lemma restamp_uniform:
  "\<forall>r \<in> set recs. traceID r = t \<Longrightarrow> uniform t SchemaVersion (restamp (replay_buffer now recs))"
  by (auto simp: uniform_def restamp_def dest: replay_buffer_records)

lemma single_version_uniform:
  assumes "\<forall>r \<in> set recs. traceID r = t" and "disposition_of (buffer_versions (replay_buffer now recs)) = SealAtOwnVersion"
  shows "\<exists>v. uniform t v (replay_buffer now recs)"
proof -
  obtain v where "buffer_versions (replay_buffer now recs) = [v]"
    using assms(2) by (auto simp: disposition_of_def length_Suc_conv split: if_splits)
  then have "\<forall>p \<in> set (tbRecords (replay_buffer now recs)). schemaVersion (snd p) = v"
    using versions_set [of "replay_buffer now recs"] by auto
  then have "uniform t v (replay_buffer now recs)" using assms(1) by (auto simp: uniform_def dest: replay_buffer_records)
  then show ?thesis ..
qed

text \<open>Every buffer is of one trace and of the current version, except those listed to be sealed at their own.\<close>

definition buffers_ok :: "bytes list \<Rightarrow> exporter \<Rightarrow> bool" where
  "buffers_ok own e \<longleftrightarrow>
     (\<forall>(t, b) \<in> set (exBuffers e). uniform t SchemaVersion b \<or> t \<in> set own \<and> (\<exists>v. uniform t v b))"

lemma buffers_okI:
  assumes "buffers_ok own e"
    and "\<And>x b. (x, b) \<in> set (exBuffers e') \<Longrightarrow> (x, b) \<in> set (exBuffers e) \<and> (x \<in> set own \<longrightarrow> x \<in> set own')"
  shows "buffers_ok own' e'"
proof -
  have "uniform x SchemaVersion b \<or> x \<in> set own' \<and> (\<exists>v. uniform x v b)" if xb: "(x, b) \<in> set (exBuffers e')" for x b
  proof -
    from assms(2) [OF xb] have "(x, b) \<in> set (exBuffers e)" "x \<in> set own \<longrightarrow> x \<in> set own'" by blast+
    then show ?thesis using assms(1) unfolding buffers_ok_def by blast
  qed
  then show ?thesis by (auto simp: buffers_ok_def)
qed

text \<open>What the replay of the buffered traces leaves alone.\<close>

definition replay_frame :: "exporter \<Rightarrow> exporter \<Rightarrow> bool" where
  "replay_frame e' e \<longleftrightarrow> exLog e' = exLog e \<and> exLogPoisoned e' = exLogPoisoned e \<and> exSigner e' = exSigner e \<and>
     exCfg e' = exCfg e \<and> exCheck e' = exCheck e \<and> exCheckpointPoisoned e' = exCheckpointPoisoned e \<and> exAcc e' = exAcc e \<and>
     exCheckpointRetryAt e' = exCheckpointRetryAt e"

lemma quarantine_replay_frame:
  "replay_frame (snd (quarantineRecords qio t recs vs reason e)) e"
  "exBuffers (snd (quarantineRecords qio t recs vs reason e)) = exBuffers e"
  by (auto simp: quarantineRecords_def replay_frame_def Let_def split: prod.split)

lemma mark_replay_frame: "replay_frame (markWALSealed out ok t e) e" "exBuffers (markWALSealed out ok t e) = exBuffers e"
  by (auto simp: markWALSealed_def replay_frame_def split: option.split)

lemma replay_trace_ok:
  assumes "buffers_ok own e" and "\<forall>r \<in> set recs. traceID r = t"
    and "replay_trace io (t, recs) (e, own) = (e', own')"
  shows "buffers_ok own' e'" "replay_frame e' e"
proof -
  let ?buf = "replay_buffer (snNow io) recs"
  have "buffers_ok own' e' \<and> replay_frame e' e"
  proof (cases "disposition_of (buffer_versions ?buf)")
    case Restamp
    then have e': "e' = e\<lparr>exBuffers := AList.update t (restamp ?buf) (exBuffers e)\<rparr>" "own' = own"
      using assms(3) by (simp_all add: replay_trace_def Let_def)
    show ?thesis
      using assms(1) restamp_uniform [OF assms(2), of "snNow io"] set_update [of t "restamp ?buf" "exBuffers e"]
      by (fastforce simp: e' buffers_ok_def replay_frame_def)
  next
    case SealAtOwnVersion
    then have e': "e' = e\<lparr>exBuffers := AList.update t ?buf (exBuffers e)\<rparr>" "own' = own @ [t]"
      using assms(3) by (simp_all add: replay_trace_def Let_def)
    show ?thesis
      using assms(1) single_version_uniform [OF assms(2) SealAtOwnVersion] set_update [of t ?buf "exBuffers e"]
      by (fastforce simp: e' buffers_ok_def replay_frame_def)
  next
    case SetAside
    obtain kept e1 where q: "quarantineRecords (snQuarantine io t) t (map snd (tbRecords ?buf)) (Some (buffer_versions ?buf))
        (if length (buffer_versions ?buf) = 1
         then ''schema version is not implemented by this binary; its records cannot be sealed honestly''
         else ''trace spans schema versions that cannot be reconciled into one chain'') e = (kept, e1)" by fastforce
    note f = quarantine_replay_frame [of "snQuarantine io t" t "map snd (tbRecords ?buf)" "Some (buffer_versions ?buf)" _ e]
    have e1: "replay_frame e1 e" "exBuffers e1 = exBuffers e" using f q by (metis snd_conv)+
    have "own' = own" and e': "e' = (let e2 = e1\<lparr>exStartupSealed := t # exStartupSealed e1\<rparr>
        in if kept = length (map snd (tbRecords ?buf)) then markWALSealed (snMark io t) (snMarkSync io t) t e2 else e2)"
      using assms(3) SetAside q by (auto simp: replay_trace_def Let_def)
    moreover have "replay_frame e' e" "exBuffers e' = exBuffers e"
      using e1 mark_replay_frame [of "snMark io t" "snMarkSync io t" t "e1\<lparr>exStartupSealed := t # exStartupSealed e1\<rparr>"]
      by (auto simp: e' replay_frame_def Let_def)
    ultimately show ?thesis using assms(1) by (simp add: buffers_ok_def)
  qed
  then show "buffers_ok own' e'" "replay_frame e' e" by blast+
qed

lemma replay_all_ok:
  assumes "buffers_ok own e" and "\<And>t recs. map_of replayed t = Some recs \<Longrightarrow> \<forall>r \<in> set recs. traceID r = t"
    and "fold (\<lambda>trace st. case map_of replayed trace of None \<Rightarrow> st | Some recs \<Rightarrow> replay_trace io (trace, recs) st)
      order (e, own) = (e', own')"
  shows "buffers_ok own' e' \<and> replay_frame e' e"
  using assms(1,3)
proof (induction order arbitrary: e own)
  case (Cons t order)
  obtain e1 own1 where st: "(case map_of replayed t of None \<Rightarrow> (e, own) | Some recs \<Rightarrow> replay_trace io (t, recs) (e, own)) = (e1, own1)"
    by fastforce
  have ok: "buffers_ok own1 e1 \<and> replay_frame e1 e"
  proof (cases "map_of replayed t")
    case (Some recs)
    then show ?thesis using replay_trace_ok [OF Cons.prems(1) assms(2) [OF Some]] st by auto
  qed (use st Cons.prems(1) in \<open>simp add: replay_frame_def\<close>)
  then have "buffers_ok own' e' \<and> replay_frame e' e1" using Cons.IH [of own1 e1] Cons.prems(2) st by simp
  then show ?case using ok by (simp add: replay_frame_def)
qed (simp add: replay_frame_def)

section \<open>Resuming the checkpoint chain\<close>

lemma last_link_last: "cks \<noteq> [] \<Longrightarrow> last_link prev cks = hex_EncodeToString (sha256 (CheckpointSigningPayload (last cks)))"
  by (induction prev cks rule: last_link.induct) (auto split: if_splits)

lemma readLastCheckpoint_written:
  assumes "\<forall>c \<in> set cks. valid_checkpoint c \<and> short_line (Marshal_Checkpoint c)"
  shows "readLastCheckpoint (Content (checkpoint_file cks)) = Inr (if cks = [] then None else Some (last cks))"
proof -
  have same: "exporter_maxScanTokenSize = maxScanTokenSize" by (simp add: exporter_maxScanTokenSize_def maxScanTokenSize_def)
  have sc: "scan_lines maxScanTokenSize (checkpoint_file cks) = (map Marshal_Checkpoint cks, False)"
    using scan_terminated [of "map Marshal_Checkpoint cks" maxScanTokenSize "[]"] assms scannable_checkpoint_line
    by (auto simp: scannable_def maxScanTokenSize_def)
  have "filter (\<lambda>l. l \<noteq> []) (map Marshal_Checkpoint cks) = map Marshal_Checkpoint cks"
    using checkpoint_line(5) by (auto simp: filter_id_conv)
  moreover have "List.map_filter Unmarshal_Checkpoint (map Marshal_Checkpoint cks) = cks"
    using assms by (induction cks) (simp_all add: Unmarshal_Marshal_Checkpoint map_filter_simps)
  ultimately show ?thesis by (simp add: readLastCheckpoint_def same sc split: list.split)
qed

abbreviation pending_tip :: "SealedTip \<Rightarrow> TraceTip" where
  "pending_tip x \<equiv> \<lparr>tipTraceID = stTraceID x, tipHash = stTipHash x, tipEntryCount = stEntryCount x\<rparr>"

lemma add_tips_run:
  "\<exists>s'. acc_step\<^sup>*\<^sup>* s s' \<and> runStaged s' = runStaged (s :: acc_run) \<and> runCommitted s' = runCommitted s \<and>
     runAcc s' = fold (\<lambda>tip. AddTip (stTraceID tip) (stTipHash tip) (stEntryCount tip)) tips (runAcc s) \<and>
     runAdded s' = runAdded s @ map pending_tip tips"
proof (induction tips arbitrary: s)
  case (Cons x tips)
  let ?s = "s\<lparr>runAcc := AddTip (stTraceID x) (stTipHash x) (stEntryCount x) (runAcc s), runAdded := runAdded s @ [pending_tip x]\<rparr>"
  have step: "acc_step s ?s" by (rule acc_step.add)
  from Cons.IH [of ?s] obtain s' where s': "acc_step\<^sup>*\<^sup>* ?s s'" "runStaged s' = runStaged s" "runCommitted s' = runCommitted s"
    "runAcc s' = fold (\<lambda>tip. AddTip (stTraceID tip) (stTipHash tip) (stEntryCount tip)) (x # tips) (runAcc s)"
    "runAdded s' = runAdded s @ map pending_tip (x # tips)" by auto
  then show ?case using converse_rtranclp_into_rtranclp [of acc_step, OF step s'(1)] by blast
qed auto

lemma resume_accumulator_written:
  assumes "checkpoint_chain signer cks" and "\<forall>c \<in> set cks. valid_checkpoint c \<and> short_line (Marshal_Checkpoint c)"
  shows "resume_accumulator signer (Content (checkpoint_file cks)) pending =
    fold (\<lambda>tip. AddTip (stTraceID tip) (stTipHash tip) (stEntryCount tip)) pending (runAcc (resumed signer cks))"
proof (cases "cks = []")
  case True
  then show ?thesis using readLastCheckpoint_written [OF assms(2)] by (simp add: resume_accumulator_def acc_start_def Let_def)
next
  case False
  obtain n where n: "length cks = Suc n" using False by (cases cks) auto
  have "map cpCheckpointSeq cks = map (\<lambda>i. of_nat (Suc i)) [0..<Suc n]"
    using assms(1) n by (simp add: checkpoint_chain_def del: upt_Suc)
  then have "last (map cpCheckpointSeq cks) = of_nat (length cks)" unfolding n by simp
  then have "cpCheckpointSeq (last cks) = of_nat (length cks)" using False by (simp add: last_map)
  then show ?thesis
    using readLastCheckpoint_written [OF assms(2)] False last_link_last [OF False]
    by (simp add: resume_accumulator_def acc_start_def Let_def)
qed

lemma check_inv_resumed:
  assumes "checkpoint_chain signer cks" and "\<forall>c \<in> set cks. valid_checkpoint c \<and> short_line (Marshal_Checkpoint c)"
    and "\<forall>x \<in> set pending. P (pending_tip x)" and "exCheck e = checkpoint_file cks"
    and "exAcc e = resume_accumulator signer (Content (checkpoint_file cks)) pending"
  shows "check_inv signer cks P e"
proof -
  obtain s' where s': "acc_step\<^sup>*\<^sup>* (resumed signer cks) s'" "runStaged s' = None" "runCommitted s' = []"
      "runAcc s' = exAcc e" "runAdded s' = map pending_tip pending"
    using add_tips_run [of "resumed signer cks" pending] assms(5) resume_accumulator_written [OF assms(1,2)]
    by (auto simp: acc_start_def)
  show ?thesis
    unfolding check_inv_def by (rule exI [of _ s'], rule exI [of _ "[]"]) (use s' assms(3,4) in auto)
qed

section \<open>Start establishes the invariant\<close>

text \<open>Sealing the traces that keep their own version leaves only buffers of the current version.\<close>

lemma seal_own_inv:
  assumes "exSigner e = signer" and "log_inv signer (cs @ new) e" and "check_inv signer cks0 (tip_in (cs @ new)) e"
    and "buffers_ok own e"
  shows "exp_inv signer cs cks0 (fold (\<lambda>trace e. case map_of (exBuffers e) trace of None \<Rightarrow> e
      | Some buf \<Rightarrow> sealTrace (ios trace) trace buf i (e\<lparr>exStartupSealed := trace # exStartupSealed e\<rparr>)) own e)"
  using assms
proof (induction own arbitrary: e new)
  case Nil
  then show ?case by (auto simp: exp_inv_def buffers_ok_def)
next
  case (Cons t own)
  show ?case
  proof (cases "map_of (exBuffers e) t")
    case None
    then have "buffers_ok own e" by (intro buffers_okI [OF Cons.prems(4)]) (force simp: map_of_eq_None_iff)
    then show ?thesis using Cons.IH [OF Cons.prems(1-3)] None by simp
  next
    case (Some buf)
    let ?e = "e\<lparr>exStartupSealed := t # exStartupSealed e\<rparr>"
    let ?e' = "sealTrace (ios t) t buf i ?e"
    obtain v where u: "uniform t v buf" using Cons.prems(4) map_of_SomeD [OF Some] by (auto simp: buffers_ok_def)
    have pre: "exSigner ?e = signer" "log_inv signer (cs @ new) ?e" "check_inv signer cks0 (tip_in (cs @ new)) ?e"
      using Cons.prems(1-3) check_inv_cong [of ?e e] by (simp_all add: log_inv_def)
    note s = seal_inv [OF pre u, of "ios t" i]
    from s(1) obtain new' where new': "log_inv signer (cs @ new') ?e'" "check_inv signer cks0 (tip_in (cs @ new')) ?e'"
      by (metis append_assoc)
    have "exBuffers ?e' = AList.delete t (exBuffers e)" using s(2) by simp
    then have "buffers_ok own ?e'" by (intro buffers_okI [OF Cons.prems(4)]) (auto simp: AList.delete_eq)
    then show ?thesis using Cons.IH [OF s(3) new'] Some by simp
  qed
qed

lemma start_replayed_inv:
  assumes "files_hold signer cs cks d" and "snReadCheckpoint io = ReadWhole"
    and "\<forall>x \<in> set pending. tip_in cs (pending_tip x)"
    and "\<And>t recs. map_of replayed t = Some recs \<Longrightarrow> \<forall>r \<in> set recs. traceID r = t"
  shows "exp_inv signer cs cks (start_replayed io signer cfg d w (replayed, pending))"
proof -
  let ?e0 = "\<lparr>exCfg = cfg, exSigner = signer, exLog = opened (dkLog d), exCheck = opened (dkCheck d),
      exFilesOpen = True, exWal = Some w, exQuarantine = opened (dkQuarantine d),
      exAcc = NewAccumulator signer 0 ZeroPrevCheckpointHash, exBuffers = [], exSealed = [],
      exStartupSealed = [], exCheckpointPoisoned = False, exCheckpointRetryAt = 0,
      exCheckpointFailures = 0, exUncoveredAfterPoison = 0, exLogPoisoned = False,
      exQuarantinedAfterLogPoison = 0, exPendingCapDropped = 0, exPendingCapWarned = False,
      exLastCheckpointAttempt = None, exCompactions = []\<rparr>"
  obtain e1 own where r: "fold (\<lambda>trace st. case map_of replayed trace of
       None \<Rightarrow> st | Some recs \<Rightarrow> replay_trace io (trace, recs) st) (snOrder io) (?e0, []) = (e1, own)" by fastforce
  have ok: "buffers_ok own e1" "replay_frame e1 ?e0"
    using replay_all_ok [OF _ assms(4) r] by (auto simp: buffers_ok_def)
  have h: "\<forall>(t, les) \<in> set cs. sealed_chain signer t les" "checkpoint_chain signer cks"
      "opened (dkLog d) = log_file (concat (map snd cs))" "opened (dkCheck d) = checkpoint_file cks"
      "\<forall>c \<in> set cks. valid_checkpoint c \<and> short_line (Marshal_Checkpoint c)"
    using assms(1) by (auto simp: files_hold_def)
  let ?e2 = "e1\<lparr>exAcc := resume_accumulator signer (as_read (snReadCheckpoint io) (Some (exCheck e1))) pending\<rparr>"
  let ?e3 = "case exWal ?e2 of None \<Rightarrow> ?e2
      | Some w' \<Rightarrow> ?e2\<lparr>exWal := Some (snd (snd (Compact (snCompact io) (PendingTips (exAcc ?e2)) w')))\<rparr>"
  have "check_inv signer cks (tip_in cs) ?e2"
    by (rule check_inv_resumed [OF h(2,5) assms(3)]) (use ok(2) h(4) assms(2) in \<open>simp_all add: replay_frame_def\<close>)
  then have c3: "check_inv signer cks (tip_in cs) ?e3" using check_inv_cong [of ?e3 ?e2] by (simp split: option.split)
  have l3: "exSigner ?e3 = signer" "log_inv signer cs ?e3" "buffers_ok own ?e3"
    using ok h by (simp_all add: replay_frame_def log_inv_def buffers_ok_def split: option.split)
  have "start_replayed io signer cfg d w (replayed, pending) = fold (\<lambda>trace e. case map_of (exBuffers e) trace of None \<Rightarrow> e
      | Some buf \<Rightarrow> sealTrace (snSeals io trace) trace buf (effectiveCheckpointInterval cfg)
          (e\<lparr>exStartupSealed := trace # exStartupSealed e\<rparr>)) own ?e3"
    unfolding start_replayed_def Let_def prod.case r ..
  then show ?thesis using seal_own_inv [where new = "[]", simplified, OF l3(1,2) c3 l3(3)] by simp
qed

lemma opened_repair:
  assumes "whole_lines (opened c)"
  shows "opened (snd (repairTrailingPartialLine fault c)) = opened c"
  using assms repair_whole [of "opened c" fault]
  by (cases c) (simp_all add: opened_def repairTrailingPartialLine_def)

lemma Start_inv:
  assumes "LoadEd25519PrivateKeyPEM kc (snKeyFile io) = Inr priv" and "signer = NewEd25519Signer ed priv"
    and "files_hold signer cs cks d" and "wal_sound cs (wal_entries (opened (dkWal d)))"
    and "snReadCheckpoint io = ReadWhole" and "Start ed kc io cfg d = Inr e"
  shows "exp_inv signer cs cks e"
proof -
  have h: "whole_lines (opened (dkLog d))" "whole_lines (opened (dkCheck d))"
    using assms(3) by (simp_all add: files_hold_def)
  from assms(6) obtain d' w replay where e: "e = start_replayed io signer cfg d' w replay"
      and d': "opened (dkLog d') = opened (dkLog d)" "opened (dkCheck d') = opened (dkCheck d)"
      and w: "Open (snOpenWal io) (dkWal d) = Inr w" "Replay (as_read (snReplay io) (walContent w)) = Inr replay"
    using opened_repair [OF h(1), of "snRepairLog io"] opened_repair [OF h(2), of "snRepairCheck io"]
    by (auto simp: Start_def assms(1,2) Let_def opened_def split: prod.splits option.splits sum.splits if_splits)
  obtain replayed pending where rp: "replay = (replayed, pending)" by fastforce
  have "walContent w = Some (opened (dkWal d))"
    using w(1) by (auto simp: Open_def opened_def split: if_splits option.splits)
  then have ws: "wal_sound cs (wal_entries s)" if "as_read (snReplay io) (walContent w) = Content s" for s
    using that assms(4) by (cases "snReplay io") auto
  have "files_hold signer cs cks d'" using assms(3) d' by (simp add: files_hold_def)
  then show ?thesis
    unfolding e rp using Replay_sound [OF w(2) [unfolded rp] ws] assms(5) by (intro start_replayed_inv) auto
qed

section \<open>The files verify\<close>

definition writable :: "LogEntry list \<Rightarrow> Checkpoint list \<Rightarrow> bool" where
  "writable les cks \<longleftrightarrow> (\<forall>e \<in> set les. valid_entry e \<and> short_line (MarshalLogEntry e)) \<and>
     (\<forall>c \<in> set cks. valid_checkpoint c \<and> short_line (Marshal_Checkpoint c))"

lemma sealed_chain_honest:
  assumes "sealed_chain (NewEd25519Signer ed priv) t les"
  shows "honest_trace ed priv t les (chain_tip les)"
proof -
  from assms obtain rs v seed es where h: "rs \<noteq> []" "\<forall>r \<in> set rs. traceID r = t \<and> schemaVersion r = v"
      "map seqInTrace rs = map int [0..<length rs]" "GenesisSeedForSchema t v = Inr seed"
      "BuildChain rs seed (NewEd25519Signer ed priv) = Inr es" "les = ToLogEntries es"
    unfolding sealed_chain_def by blast
  then have "es \<noteq> []" using build_from_length [of 0 seed _ rs es] by (auto simp: BuildChain_def)
  then have "TipHash es = Some (chain_tip les)"
    by (simp add: h(6) chain_tip_def ToLogEntries_def TipHash_def last_map)
  with h show ?thesis unfolding honest_trace_def by blast
qed

lemma chains_verify:
  assumes "ed25519_correct ed" and "distinct (map fst cs)"
    and "\<forall>(t, les) \<in> set cs. sealed_chain (NewEd25519Signer ed priv) t les"
    and "acc_inv (NewEd25519Signer ed priv) seq0 ZeroPrevCheckpointHash s"
    and "\<forall>x \<in> set (runAdded s). tip_in cs x" and "writable (concat (map snd cs)) (runCommitted s)"
  shows "\<exists>r. VerifyLog ed (Content (log_file (concat (map snd cs)))) (Content (checkpoint_file (runCommitted s))) (ed_public ed priv) = Inr r \<and>
    Errors r = [] \<and> TracesProcessed r = length cs \<and> CheckpointsProcessed r = length (runCommitted s)"
proof -
  let ?log = "concat (map snd cs)"
  note by_trace = chains_by_trace [OF assms(2,3)]
  have honest: "\<forall>t \<in> logged_traces ?log. honest_trace ed priv t (trace_entries ?log t) (chain_tip (trace_entries ?log t))"
  proof
    fix t assume "t \<in> logged_traces ?log"
    then obtain les where "(t, les) \<in> set cs" using by_trace(1) by force
    then show "honest_trace ed priv t (trace_entries ?log t) (chain_tip (trace_entries ?log t))"
      using by_trace(2) assms(3) sealed_chain_honest by fastforce
  qed
  have tips: "\<forall>x \<in> set (runAdded s). tipTraceID x \<in> logged_traces ?log \<and>
      tipHash x = chain_tip (trace_entries ?log (tipTraceID x)) \<and>
      tipEntryCount x = int (length (trace_entries ?log (tipTraceID x)))"
  proof
    fix x assume "x \<in> set (runAdded s)"
    then obtain les where les: "(tipTraceID x, les) \<in> set cs" "tipHash x = chain_tip les" "tipEntryCount x = int (length les)"
      using assms(5) by (auto simp: tip_in_def)
    moreover have "tipTraceID x \<in> fst ` set cs" using les(1) by force
    ultimately show "tipTraceID x \<in> logged_traces ?log \<and> tipHash x = chain_tip (trace_entries ?log (tipTraceID x)) \<and>
        tipEntryCount x = int (length (trace_entries ?log (tipTraceID x)))"
      using by_trace by simp
  qed
  have "card (fst ` set cs) = length cs"
    using assms(2) by (metis distinct_card length_map list.set_map)
  moreover note honest_report [OF assms(1) honest assms(4) tips]
  ultimately show ?thesis
    using readLogEntries_written [of ?log] readCheckpoints_written [of "runCommitted s"] assms(6) by_trace(1)
    by (simp add: VerifyLog_def writable_def)
qed

text \<open>The exporter's files verify, end to end. \<open>Start\<close> on the files of earlier processes (whole chains
  \<open>cs0\<close>, their checkpoints \<open>cks0\<close>, a write-ahead log that belongs to them, or no files at all) followed by
  any sequence of spans, ticks, compactions and shutdowns, with any writes cut short, any failing
  \<open>Seek\<close>, \<open>Sync\<close> or \<open>Truncate\<close>, leaves the log with the chains \<open>cs0\<close> and whole new ones after them, and
  the checkpoint file with \<open>cks0\<close> and new checkpoints after them; anything else only follows those once
  the file is poisoned. If no trace was sealed twice and every line is valid UTF-8 and below the line
  limit, \<open>VerifyLog\<close> finds nothing wrong with what was written and counts every chain and checkpoint.\<close>

lemma exporter_files_verify:
  assumes "ed25519_correct ed" and "LoadEd25519PrivateKeyPEM kc (snKeyFile io) = Inr priv"
    and "files_hold (NewEd25519Signer ed priv) cs0 cks0 d" and "wal_sound cs0 (wal_entries (opened (dkWal d)))"
    and "snReadCheckpoint io = ReadWhole" and "Start ed kc io cfg d = Inr e0" and "exp_step\<^sup>*\<^sup>* e0 e"
  shows "\<exists>cs cks rest rest'. let les = concat (map snd (cs0 @ cs)) in
    exLog e = log_file les @ rest \<and> (\<not> exLogPoisoned e \<longrightarrow> rest = []) \<and>
    exCheck e = checkpoint_file (cks0 @ cks) @ rest' \<and> (\<not> exCheckpointPoisoned e \<longrightarrow> rest' = []) \<and>
    (\<forall>(t, les) \<in> set (cs0 @ cs). sealed_chain (NewEd25519Signer ed priv) t les) \<and>
    checkpoint_chain (NewEd25519Signer ed priv) (cks0 @ cks) \<and>
    (\<forall>x \<in> set (covered_tips (cks0 @ cks)). tip_in (cs0 @ cs) x) \<and>
    (distinct (map fst (cs0 @ cs)) \<and> writable les (cks0 @ cks) \<longrightarrow>
       (\<exists>r. VerifyLog ed (Content (log_file les)) (Content (checkpoint_file (cks0 @ cks))) (ed_public ed priv) = Inr r \<and>
          StatusLine r = ''Status: OK'' \<and> TracesProcessed r = length (cs0 @ cs) \<and>
          CheckpointsProcessed r = length (cks0 @ cks)))"
proof -
  let ?signer = "NewEd25519Signer ed priv"
  have "exp_inv ?signer cs0 cks0 e"
    using Start_inv [OF assms(2) refl assms(3-6)] files.run [OF assms(7)] by blast
  then obtain new where inv: "log_inv ?signer (cs0 @ new) e" "check_inv ?signer cks0 (tip_in (cs0 @ new)) e"
    by (auto simp: exp_inv_def)
  let ?cs = "cs0 @ new"
  from inv(2) obtain s rest' where s: "acc_step\<^sup>*\<^sup>* (resumed ?signer cks0) s"
      "exCheck e = checkpoint_file (cks0 @ runCommitted s) @ rest'" "\<not> exCheckpointPoisoned e \<longrightarrow> rest' = []"
      "\<forall>x \<in> set (runAdded s). tip_in ?cs x"
    by (auto simp: check_inv_def)
  from inv(1) obtain rest where l: "\<forall>(t, les) \<in> set ?cs. sealed_chain ?signer t les"
      "exLog e = log_file (concat (map snd ?cs)) @ rest" "\<not> exLogPoisoned e \<longrightarrow> rest = []"
    unfolding log_inv_def by blast
  have h: "checkpoint_chain ?signer cks0" "\<forall>x \<in> set (covered_tips cks0). tip_in ?cs x"
    using assms(3) tip_in_mono [of cs0 _ ?cs] by (auto simp: files_hold_def)
  let ?s = "s\<lparr>runCommitted := cks0 @ runCommitted s, runAdded := covered_tips cks0 @ runAdded s\<rparr>"
  note acc = resumed_inv [OF h(1) s(1)]
  have tips: "\<forall>x \<in> set (runAdded ?s). tip_in ?cs x" using s(4) h(2) by auto
  have chain: "checkpoint_chain ?signer (cks0 @ runCommitted s)" using acc by (auto simp: acc_inv_def checkpoint_chain_def)
  have "x \<in> set (runAdded ?s)" if "x \<in> set (covered_tips (runCommitted ?s))" for x
    using that committed_tips_added [OF acc] unfolding covered_tips_def set_concat set_map by blast
  then have covered: "\<forall>x \<in> set (covered_tips (cks0 @ runCommitted s)). tip_in ?cs x" using tips by simp
  have "\<exists>r. VerifyLog ed (Content (log_file (concat (map snd ?cs)))) (Content (checkpoint_file (cks0 @ runCommitted s))) (ed_public ed priv) = Inr r \<and>
      StatusLine r = ''Status: OK'' \<and> TracesProcessed r = length ?cs \<and> CheckpointsProcessed r = length (cks0 @ runCommitted s)"
    if "distinct (map fst ?cs) \<and> writable (concat (map snd ?cs)) (cks0 @ runCommitted s)"
    using chains_verify [OF assms(1) _ l(1) acc tips] that by (auto simp: StatusLine_def FatalCount_def)
  then show ?thesis
    unfolding Let_def using l s by (intro exI [of _ new] exI [of _ "runCommitted s"] exI [of _ rest] exI [of _ rest'] conjI)
      (use chain covered in auto)
qed

text \<open>The files of a fresh installation hold nothing.\<close>

lemma empty_disk_holds: "files_hold signer [] [] empty_disk" "wal_sound [] (wal_entries (opened (dkWal empty_disk)))"
  by (simp_all add: files_hold_def empty_disk_def opened_def checkpoint_chain_def covered_tips_def wal_sound_def
      wal_entries_def scan_lines_def)

lemma ok_start_fields:
  "snRepairLog (ok_start key) = RepairOK" "snRepairCheck (ok_start key) = RepairOK"
  "snRepairQuarantine (ok_start key) = RepairOK" "snOpenLog (ok_start key)" "snOpenCheck (ok_start key)"
  "snOpenWal (ok_start key)" "snReplay (ok_start key) = ReadWhole" "snOrder (ok_start key) = []"
  "snReadCheckpoint (ok_start key) = ReadWhole" "snCompact (ok_start key) = NoFault"
  by (simp_all add: ok_start_def)

lemma fresh_start:
  "\<exists>e. Start toy_ed25519 toy_codec (ok_start key) cfg empty_disk = Inr e \<and>
     exSigner e = NewEd25519Signer toy_ed25519 key \<and> exLog e = [] \<and> exLastCheckpointAttempt e = None \<and> exCheckpointRetryAt e = 0 \<and> \<not> exPendingCapWarned e \<and>
     \<not> exCheckpointPoisoned e \<and> exPendingCapDropped e = 0 \<and> exCheck e = [] \<and> exBuffers e = [] \<and>
     exSealed e = [] \<and> exStartupSealed e = [] \<and> \<not> exLogPoisoned e \<and> exCfg e = cfg \<and>
     exWal e = Some \<lparr>walContent = Some [], walFd = FdOpen\<rparr> \<and> exCompactions e = [] \<and> exFilesOpen e \<and>
     exAcc e = NewAccumulator (NewEd25519Signer toy_ed25519 key) 0 ZeroPrevCheckpointHash"
proof -
  let ?signer = "NewEd25519Signer toy_ed25519 key"
  have none: "repairTrailingPartialLine RepairOK None = (Inr no_repair, None)"
    by (simp add: repairTrailingPartialLine_def)
  have scan: "scan_lines n [] = ([], False)" for n by (simp add: scan_lines_def)
  have acc: "resume_accumulator ?signer (Content []) [] = NewAccumulator ?signer 0 ZeroPrevCheckpointHash"
    by (simp add: resume_accumulator_def readLastCheckpoint_def scan map_filter_simps Let_def)
  have compact: "Compact NoFault p \<lparr>walContent = Some [], walFd = FdOpen\<rparr> = (None, False, \<lparr>walContent = Some [], walFd = FdOpen\<rparr>)" for p
    by (simp add: Compact_def scan compacted_eq wal_entries_def map_filter_simps Let_def)
  have replay: "Replay (Content []) = Inr ([], [])"
    by (simp add: Replay_def scan wal_entries_def map_filter_simps replay_start_def Let_def)
  show ?thesis
    by (simp add: Start_def ok_start_key empty_disk_def none fatal_repair_def opened_def Open_def replay start_replayed_def acc compact
        ok_start_fields Let_def)
qed

lemma exporter_files_verify_witness:
  "\<exists>e0 e. Start toy_ed25519 toy_codec (ok_start ''k'') unset_config empty_disk = Inr e0 \<and> exp_step\<^sup>*\<^sup>* e0 e \<and>
     e = bufferSpan \<lparr>spAppend = WriteOK, spSeal = ok_seal\<rparr> (SpanToRecord example_span 0) 0 100 e0 \<and>
     (\<exists>(cs :: (bytes \<times> LogEntry list) list) cks rest rest'.
        exLog e = log_file (concat (map snd cs)) @ rest \<and> exCheck e = checkpoint_file cks @ rest')"
proof -
  obtain e0 where e0: "Start toy_ed25519 toy_codec (ok_start ''k'') unset_config empty_disk = Inr e0" "exCfg e0 = unset_config"
    using fresh_start by blast
  define e where "e = bufferSpan \<lparr>spAppend = WriteOK, spSeal = ok_seal\<rparr> (SpanToRecord example_span 0) 0 100 e0"
  have "effectiveCheckpointInterval (exCfg e0) = 100"
    by (simp add: e0(2) unset_config_def effectiveCheckpointInterval_def effectiveCheckpointIntervalOf_def defaultCheckpointInterval_def)
  then have "exp_step e0 e"
    using exp_step.span [of e0 "\<lparr>spAppend = WriteOK, spSeal = ok_seal\<rparr>" example_span 0] by (simp add: e_def)
  then have run: "exp_step\<^sup>*\<^sup>* e0 e" by blast
  obtain cs :: "(bytes \<times> LogEntry list) list" and cks rest rest' where "exLog e = log_file (concat (map snd cs)) @ rest" "exCheck e = checkpoint_file cks @ rest'"
    using exporter_files_verify [OF toy_ed25519_correct ok_start_key empty_disk_holds ok_start_fields(9) e0(1) run]
    unfolding Let_def append_Nil by (elim exE conjE) (rule that)
  with e0(1) run e_def show ?thesis by blast
qed

end
