(* ===== verification/Exporter_Behaviour.thy ===== *)
theory Exporter_Behaviour
  imports Exporter_Verify
begin

text \<open>
  What the operations of the exporter achieve, beyond the files staying verifiable: a root span takes
  its trace into the log, a failed seal leaves the log as it was, the buffers stay well formed, a
  checkpoint at the cap is always retried, \<open>Shutdown\<close> empties the buffers; and where the code falls
  short: a compaction that started before a seal, and a checkpoint file that cannot be read at startup.
\<close>

section \<open>A root span seals its trace\<close>

definition writes_ok :: "seal_io \<Rightarrow> bool" where
  "writes_ok io \<longleftrightarrow> siSeek io \<and> siSync io \<and> (\<forall>out \<in> set (siWrites io). out = WriteOK)"

lemma write_entries_ok:
  "\<forall>out \<in> set outs. out = WriteOK \<Longrightarrow> write_entries outs les log = (True, log @ log_file les)"
proof (induction outs les log rule: write_entries.induct)
  case (2 outs le les log)
  have "next_outcome outs = WriteOK" using 2(2) by (cases outs) (auto simp: next_outcome_def)
  moreover have "\<forall>out \<in> set (tl outs). out = WriteOK" using 2(2) by (cases outs) auto
  ultimately show ?case using 2(1) by (simp add: writeLogEntry_def)
qed simp

lemma number_records_has: "r \<in> set recs \<Longrightarrow> \<exists>k. r\<lparr>seqInTrace := int k\<rparr> \<in> set (number_records recs)"
proof -
  assume "r \<in> set recs"
  then have "r \<in> set (SortRecords recs)" by (simp add: SortRecords_def)
  then obtain k where "k < length (SortRecords recs)" "SortRecords recs ! k = r" by (auto simp: in_set_conv_nth)
  then have "r\<lparr>seqInTrace := int k\<rparr> \<in> set (number_records recs)"
    by (force simp: number_records_def in_set_enumerate_eq)
  then show ?thesis ..
qed

lemma seal_reaches_cover:
  fixes i :: int
  assumes "exSigner e = NewEd25519Signer ed priv" and "\<not> exLogPoisoned e" and "uniform t v buf"
    and "tbRecords buf \<noteq> []" and "GenesisSeedForSchema t v = Inr seed" and "writes_ok io"
  obtains entries where
    "sealTrace io t buf i e = cover_trace io t entries i
       (e\<lparr>exBuffers := AList.delete t (exBuffers e), exSealed := t # exSealed e, exLog := exLog e @ log_file (ToLogEntries entries)\<rparr>)"
    "length entries = length (tbRecords buf)" "sealed_chain (exSigner e) t (ToLogEntries entries)"
    "map leRecord (ToLogEntries entries) = number_records (map snd (tbRecords buf))"
proof -
  let ?recs = "map snd (tbRecords buf)"
  let ?e = "e\<lparr>exBuffers := AList.delete t (exBuffers e), exSealed := t # exSealed e\<rparr>"
  have u: "\<forall>r \<in> set ?recs. traceID r = t \<and> schemaVersion r = v" using assms(3) by (auto simp: uniform_def)
  have ne: "number_records ?recs \<noteq> []" using assms(4) number_records_facts(2) [of ?recs] by (metis length_0_conv map_is_Nil_conv)
  then have hd: "schemaVersion (hd (number_records ?recs)) = v"
    using u number_records_facts(3) [of "hd (number_records ?recs)" ?recs] by fastforce
  obtain entries where es: "BuildChain (number_records ?recs) seed (exSigner e) = Inr entries"
    using Ed25519_BuildChain_total assms(1) by metis
  then have b: "build_trace (exSigner e) t (number_records ?recs) = Inr entries"
    by (simp add: build_trace_def hd assms(5))
  have "?recs \<noteq> []" using assms(4) by simp
  note built = build_trace_sealed [OF b this u]
  have recs: "map leRecord (ToLogEntries entries) = number_records ?recs"
    using BuildChain_chain(1) [OF es] by (simp add: ToLogEntries_records)
  have "length entries = length (tbRecords buf)"
    using arg_cong [OF recs, of length] number_records_facts(2) [of ?recs] by (simp add: ToLogEntries_def)
  moreover have "sealTrace io t buf i e = log_trace io t entries i ?e" using assms(2,4) b by (simp add: sealTrace_def)
  then have "sealTrace io t buf i e = cover_trace io t entries i (?e\<lparr>exLog := exLog e @ log_file (ToLogEntries entries)\<rparr>)"
    using assms(6) write_entries_ok [of "siWrites io" "ToLogEntries entries" "exLog e"] by (simp add: log_trace_def writes_ok_def Let_def)
  ultimately show thesis using that built(1) recs by simp
qed

lemma seal_writes_chain:
  fixes i :: int
  assumes "exSigner e = NewEd25519Signer ed priv" and "\<not> exLogPoisoned e" and "uniform t v buf"
    and "tbRecords buf \<noteq> []" and "GenesisSeedForSchema t v = Inr seed" and "writes_ok io"
  defines "e' \<equiv> sealTrace io t buf i e"
  shows "\<exists>les. sealed_chain (exSigner e) t les \<and> map leRecord les = number_records (map snd (tbRecords buf)) \<and>
    exLog e' = exLog e @ log_file les \<and> exBuffers e' = AList.delete t (exBuffers e)"
proof -
  obtain entries where s: "e' = cover_trace io t entries i
       (e\<lparr>exBuffers := AList.delete t (exBuffers e), exSealed := t # exSealed e, exLog := exLog e @ log_file (ToLogEntries entries)\<rparr>)"
    "sealed_chain (exSigner e) t (ToLogEntries entries)"
    "map leRecord (ToLogEntries entries) = number_records (map snd (tbRecords buf))"
    unfolding e'_def by (rule seal_reaches_cover [OF assms(1-6)])
  then have "same_frame e' (e\<lparr>exBuffers := AList.delete t (exBuffers e), exSealed := t # exSealed e,
      exLog := exLog e @ log_file (ToLogEntries entries)\<rparr>)" using cover_frame by simp
  then have "exLog e' = exLog e @ log_file (ToLogEntries entries)" "exBuffers e' = AList.delete t (exBuffers e)"
    by (simp_all add: same_frame_def)
  with s(2,3) show ?thesis by blast
qed

text \<open>C8. A trace is sealed when its root arrives. In any state with the invariant of the files and a
  log that is not poisoned, if a span makes its buffer complete (it is a root, or a root is already
  buffered), its trace was not sealed before, its id can seed a chain, and the writes of the log
  succeed, then after \<open>bufferSpan\<close> the log has grown by one whole chain of that trace which holds the new
  span and every span buffered under another id, and the buffer is gone.\<close>

theorem root_span_seals_trace:
  assumes "exp_inv (NewEd25519Signer ed priv) cs0 cks0 e" and "\<not> exLogPoisoned e"
    and "traceID r \<noteq> []" and "traceID r \<notin> set (exStartupSealed e)" and "traceID r \<notin> set (exSealed e)"
    and "schemaVersion r = SchemaVersion" and "GenesisSeedForSchema (traceID r) SchemaVersion = Inr seed"
    and "parentSpanID r = [] \<or> (\<exists>b. map_of (exBuffers e) (traceID r) = Some b \<and> tbHasRoot b)"
    and "writes_ok (spSeal io)" and "e' = bufferSpan io r now i e"
  shows "\<exists>les. sealed_chain (NewEd25519Signer ed priv) (traceID r) les \<and> exLog e' = exLog e @ log_file les \<and>
    (\<exists>k. r\<lparr>seqInTrace := int k\<rparr> \<in> leRecord ` set les) \<and>
    (\<forall>b id r'. map_of (exBuffers e) (traceID r) = Some b \<and> (id, r') \<in> set (tbRecords b) \<and> id \<noteq> spanID r \<longrightarrow>
       (\<exists>k. r'\<lparr>seqInTrace := int k\<rparr> \<in> leRecord ` set les)) \<and>
    map_of (exBuffers e') (traceID r) = None"
proof -
  let ?t = "traceID r"
  let ?buf = "buffer_of r now e"
  let ?e = "after_buffering (spAppend io) r now e"
  have inv: "exp_inv (NewEd25519Signer ed priv) cs0 cks0 ?e" by (rule files.buffering [OF assms(1,3,6)])
  then have u: "uniform ?t SchemaVersion ?buf"
    using map_of_SomeD [OF buffered [of "spAppend io" r now e]] by (auto simp: exp_inv_def)
  have root: "tbHasRoot ?buf" using assms(8) by (auto simp: buffer_of_def buffer_record_def split: option.split)
  have e': "e' = sealTrace (spSeal io) ?t ?buf i ?e"
    using assms(3-5,10) root by (simp add: bufferSpan_def Let_def buffer_of_def after_buffering_def)
  have has: "(spanID r, r) \<in> set (tbRecords ?buf)"
    "map_of (exBuffers e) ?t = Some b \<Longrightarrow> (id, r') \<in> set (tbRecords b) \<Longrightarrow> id \<noteq> spanID r \<Longrightarrow> (id, r') \<in> set (tbRecords ?buf)" for b id r'
    by (auto simp: buffer_of_def buffer_record_def intro: update_has update_keeps)
  then have ne: "tbRecords ?buf \<noteq> []" by auto
  have sg: "exSigner ?e = NewEd25519Signer ed priv" "\<not> exLogPoisoned ?e" "exLog ?e = exLog e"
    using inv assms(2) by (simp_all add: exp_inv_def after_buffering_def)
  from seal_writes_chain [OF sg(1,2) u ne assms(7,9), of i] obtain les where les: "sealed_chain (exSigner ?e) ?t les"
      "map leRecord les = number_records (map snd (tbRecords ?buf))" "exLog e' = exLog ?e @ log_file les"
      "exBuffers e' = AList.delete ?t (exBuffers ?e)"
    unfolding e' by blast
  have in_les: "\<exists>k. r'\<lparr>seqInTrace := int k\<rparr> \<in> leRecord ` set les" if "(id, r') \<in> set (tbRecords ?buf)" for id r'
    using that number_records_has [of r' "map snd (tbRecords ?buf)"] les(2) by (metis imageI list.set_map snd_conv)
  have "map_of (exBuffers e') ?t = None" by (simp add: les(4) delete_conv')
  moreover have "\<forall>b id r'. map_of (exBuffers e) ?t = Some b \<and> (id, r') \<in> set (tbRecords b) \<and> id \<noteq> spanID r \<longrightarrow>
      (\<exists>k. r'\<lparr>seqInTrace := int k\<rparr> \<in> leRecord ` set les)"
    using in_les [OF has(2)] by blast
  moreover have "sealed_chain (NewEd25519Signer ed priv) ?t les" "exLog e' = exLog e @ log_file les"
    using les(1,3) sg by simp_all
  ultimately show ?thesis using in_les [OF has(1)] by blast
qed

text \<open>C7. Sealing is all or nothing. Whatever fails while a trace is sealed, the log ends up with exactly
  the whole chain of the trace after what it held, or as it was, or poisoned with everything it held
  still in place; and unless the chain is there, neither the write-ahead log nor the accumulator has
  heard of the trace, so that a restart seals it again.\<close>

theorem seal_is_all_or_nothing:
  assumes "whole_lines (exLog e)" and "\<not> exLogPoisoned e" and "tbRecords buf \<noteq> []"
    and "build_trace (exSigner e) t (number_records (map snd (tbRecords buf))) = Inr entries"
    and "e' = sealTrace io t buf i e"
  shows "(exLog e' = exLog e @ log_file (ToLogEntries entries) \<and> \<not> exLogPoisoned e') \<or>
    (exWal e' = exWal e \<and> exAcc e' = exAcc e \<and>
      (exLog e' = exLog e \<and> \<not> exLogPoisoned e' \<or> exLogPoisoned e' \<and> (\<exists>rest. exLog e' = exLog e @ rest)))"
proof -
  let ?e = "e\<lparr>exBuffers := AList.delete t (exBuffers e), exSealed := t # exSealed e\<rparr>"
  have e': "e' = log_trace io t entries i ?e" using assms(2-5) by (simp add: sealTrace_def)
  have wl: "whole_lines (exLog ?e)" "\<not> exLogPoisoned ?e" using assms(1,2) by simp_all
  from log_trace_cases [OF wl, of io t entries i] show ?thesis
  proof (elim disjE exE conjE)
    assume "log_trace io t entries i ?e = cover_trace io t entries i (?e\<lparr>exLog := exLog ?e @ log_file (ToLogEntries entries)\<rparr>)"
    then show ?thesis
      using cover_frame [of io t entries i "?e\<lparr>exLog := exLog e @ log_file (ToLogEntries entries)\<rparr>"] assms(2)
      by (simp add: e' same_frame_def)
  qed (auto simp: e')
qed

section \<open>Well-formed buffers\<close>

definition well_formed_buffer :: "bytes \<Rightarrow> traceBuffer \<Rightarrow> bool" where
  "well_formed_buffer t b \<longleftrightarrow> tbRecords b \<noteq> [] \<and> distinct (map fst (tbRecords b)) \<and>
     (\<forall>(id, r) \<in> set (tbRecords b). spanID r = id \<and> traceID r = t \<and> schemaVersion r = SchemaVersion)"

definition buffers_typed :: "exporter \<Rightarrow> bool" where
  "buffers_typed e \<longleftrightarrow> distinct (map fst (exBuffers e)) \<and>
     (\<forall>(t, b) \<in> set (exBuffers e). t \<noteq> [] \<and> well_formed_buffer t b)"

lemma seal_buffers: "exBuffers (sealTrace io t buf i e) = AList.delete t (exBuffers e)"
proof -
  let ?e = "e\<lparr>exBuffers := AList.delete t (exBuffers e), exSealed := t # exSealed e\<rparr>"
  have q: "quarantine_trace io t recs reason x = (n, y) \<Longrightarrow> exBuffers y = exBuffers x" for recs reason x n y
    using quarantine_trace_frame [of io t recs reason x] by (simp add: same_frame_def)
  have p: "exBuffers (rollbackLog io n safe x) = exBuffers x" for n safe x
    by (auto simp: rollbackLog_def poisonLog_def repairOrPoisonLog_def Let_def split: prod.split sum.split)
  have l: "exBuffers (log_trace io t entries i x) = exBuffers x" for entries x
    using p cover_frame by (auto simp: log_trace_def same_frame_def Let_def split: prod.split bool.split)
  show ?thesis
    using l [of _ ?e]
    by (auto simp: sealTrace_def Let_def scheduleWALCompact_def snd_def dest!: q split: sum.split prod.split)
qed

lemma compaction_buffers: "exBuffers (compaction_step fault n e) = exBuffers e"
  using compaction_frame(1) by (simp add: same_frame_def)

lemma checkpoint_buffers: "exBuffers (snd (writeCheckpoint cio e)) = exBuffers e"
  using writeCheckpoint_frame by (simp add: same_frame_def)

lemma buffer_of_well_formed:
  assumes "buffers_typed e" and "schemaVersion r = SchemaVersion"
  shows "well_formed_buffer (traceID r) (buffer_of r now e)"
proof -
  let ?b = "case map_of (exBuffers e) (traceID r) of Some b \<Rightarrow> b | None \<Rightarrow> new_buffer now"
  have b: "distinct (map fst (tbRecords ?b)) \<and>
      (\<forall>(id, r') \<in> set (tbRecords ?b). spanID r' = id \<and> traceID r' = traceID r \<and> schemaVersion r' = SchemaVersion)"
    using assms(1) by (auto simp: buffers_typed_def well_formed_buffer_def new_buffer_def dest!: map_of_SomeD split: option.split)
  have "tbRecords (buffer_of r now e) = AList.update (spanID r) r (tbRecords ?b)"
    by (simp add: buffer_of_def buffer_record_def)
  moreover have "AList.update (spanID r) r (tbRecords ?b) \<noteq> []" using update_has by fastforce
  ultimately show ?thesis
    using b assms(2) set_update [of "spanID r" r "tbRecords ?b"] distinct_update [of "tbRecords ?b" "spanID r" r]
    by (fastforce simp: well_formed_buffer_def)
qed

interpretation buffers: exporter_invariant buffers_typed
proof unfold_locales
  fix e :: exporter and io t buf i
  assume "buffers_typed e"
  then show "buffers_typed (sealTrace io t buf i e)"
    using set_delete [of t "exBuffers e"] distinct_delete [of "exBuffers e" t]
    by (auto simp: buffers_typed_def seal_buffers)
next
  fix e :: exporter and r :: AuditRecord and out now
  assume "buffers_typed e" and "traceID r \<noteq> []" and "schemaVersion r = SchemaVersion"
  then show "buffers_typed (after_buffering out r now e)"
    using buffer_of_well_formed [of e r now] set_update [of "traceID r" "buffer_of r now e" "exBuffers e"]
      distinct_update [of "exBuffers e" "traceID r" "buffer_of r now e"]
    by (auto simp: buffers_typed_def after_buffering_def)
qed (simp_all add: buffers_typed_def compaction_buffers checkpoint_buffers)

text \<open>C28. The buffers keep their type along every run: one buffer per trace id, none for the empty id,
  none empty, and in each the records of that trace, of the current schema version, filed under their
  span id with no id twice.\<close>

theorem buffers_stay_well_formed:
  assumes "exp_step\<^sup>*\<^sup>* e0 e" and "buffers_typed e0"
  shows "distinct (map fst (exBuffers e)) \<and>
    (\<forall>(t, b) \<in> set (exBuffers e). t \<noteq> [] \<and> tbRecords b \<noteq> [] \<and> distinct (map fst (tbRecords b)) \<and>
       (\<forall>(id, r) \<in> set (tbRecords b). spanID r = id \<and> traceID r = t \<and> schemaVersion r = SchemaVersion))"
  using buffers.run [OF assms] unfolding buffers_typed_def well_formed_buffer_def .

abbreviation root_span_step :: "exporter \<Rightarrow> exporter" where
  "root_span_step e \<equiv> bufferSpan \<lparr>spAppend = WriteOK, spSeal = ok_seal\<rparr> (SpanToRecord example_span 0) 0 100 e"

lemma fresh_step:
  obtains e0 where "Start toy_ed25519 toy_codec (ok_start ''k'') unset_config empty_disk = Inr e0"
    "exp_step e0 (root_span_step e0)" "exSigner e0 = NewEd25519Signer toy_ed25519 ''k''" "exLog e0 = []" "exBuffers e0 = []"
    "exSealed e0 = []" "exStartupSealed e0 = []" "\<not> exLogPoisoned e0" "exCfg e0 = unset_config"
    "exp_inv (NewEd25519Signer toy_ed25519 ''k'') [] [] e0"
proof -
  obtain e0 where e0: "Start toy_ed25519 toy_codec (ok_start ''k'') unset_config empty_disk = Inr e0"
    "exSigner e0 = NewEd25519Signer toy_ed25519 ''k''" "exLog e0 = []" "exBuffers e0 = []" "exSealed e0 = []"
    "exStartupSealed e0 = []" "\<not> exLogPoisoned e0" "exCfg e0 = unset_config"
    using fresh_start by blast
  have "effectiveCheckpointInterval (exCfg e0) = 100"
    by (simp add: e0(8) unset_config_def effectiveCheckpointInterval_def effectiveCheckpointIntervalOf_def defaultCheckpointInterval_def)
  then have "exp_step e0 (root_span_step e0)"
    using exp_step.span [of e0 "\<lparr>spAppend = WriteOK, spSeal = ok_seal\<rparr>" example_span 0] by simp
  moreover have "exp_inv (NewEd25519Signer toy_ed25519 ''k'') [] [] e0"
    by (rule Start_inv [OF ok_start_key refl empty_disk_holds ok_start_fields(9) e0(1)])
  ultimately show thesis using that e0 by blast
qed

theorem buffers_stay_well_formed_witness:
  "\<exists>e0 e. Start toy_ed25519 toy_codec (ok_start ''k'') unset_config empty_disk = Inr e0 \<and> exp_step e0 e \<and>
     distinct (map fst (exBuffers e))"
proof -
  obtain e0 where e0: "Start toy_ed25519 toy_codec (ok_start ''k'') unset_config empty_disk = Inr e0"
    "exp_step e0 (root_span_step e0)" "exBuffers e0 = []"
    by (rule fresh_step)
  have "exp_step\<^sup>*\<^sup>* e0 (root_span_step e0)" "buffers_typed e0" using e0(2,3) by (auto simp: buffers_typed_def)
  from buffers_stay_well_formed [OF this] e0(1,2) show ?thesis by blast
qed

lemma example_seeds: "\<exists>seed. GenesisSeedForSchema ''0a'' SchemaVersion = Inr seed"
proof -
  have "hex_DecodeString ''0a'' = Some [CHR 0x0A]" by code_simp
  then show ?thesis by (simp add: GenesisSeedForSchema_def SchemaVersion_def)
qed

theorem root_span_seals_trace_witness:
  "\<exists>e0 les. Start toy_ed25519 toy_codec (ok_start ''k'') unset_config empty_disk = Inr e0 \<and>
     exLog (root_span_step e0) = log_file les \<and> (\<exists>k. (SpanToRecord example_span 0)\<lparr>seqInTrace := int k\<rparr> \<in> leRecord ` set les)"
proof -
  obtain e0 where e0: "Start toy_ed25519 toy_codec (ok_start ''k'') unset_config empty_disk = Inr e0"
    "exp_inv (NewEd25519Signer toy_ed25519 ''k'') [] [] e0" "\<not> exLogPoisoned e0" "exLog e0 = []" "exSealed e0 = []"
    "exStartupSealed e0 = []"
    by (rule fresh_step)
  let ?r = "SpanToRecord example_span 0"
  have r: "traceID ?r = ''0a''" "schemaVersion ?r = SchemaVersion" "parentSpanID ?r = []"
    by (simp_all add: SpanToRecord_def example_span_def)
  obtain seed where "GenesisSeedForSchema (traceID ?r) SchemaVersion = Inr seed" using example_seeds r by auto
  moreover have "writes_ok (spSeal \<lparr>spAppend = WriteOK, spSeal = ok_seal\<rparr>)" by (simp add: writes_ok_def ok_seal_def)
  ultimately show ?thesis
    using root_span_seals_trace [OF e0(2,3), of ?r seed "\<lparr>spAppend = WriteOK, spSeal = ok_seal\<rparr>" "root_span_step e0" 0 100]
      r e0 by auto
qed

theorem seal_is_all_or_nothing_witness:
  "\<exists>e0 entries. Start toy_ed25519 toy_codec (ok_start ''k'') unset_config empty_disk = Inr e0 \<and>
     (let e' = sealTrace (ok_seal\<lparr>siSync := False\<rparr>) ''0a'' (buffer_record (SpanToRecord example_span 0) 0 (new_buffer 0)) 100 e0
      in exLog e' = log_file (ToLogEntries entries) \<or> exLog e' = [] \<or> exLogPoisoned e')"
proof -
  obtain e0 where e0: "Start toy_ed25519 toy_codec (ok_start ''k'') unset_config empty_disk = Inr e0"
    "exSigner e0 = NewEd25519Signer toy_ed25519 ''k''" "\<not> exLogPoisoned e0" "exLog e0 = []"
    by (rule fresh_step)
  let ?r = "SpanToRecord example_span 0"
  let ?buf = "buffer_record ?r 0 (new_buffer 0)"
  obtain seed where seed: "GenesisSeedForSchema ''0a'' SchemaVersion = Inr seed" using example_seeds by auto
  have recs: "map snd (tbRecords ?buf) = [?r]" by (simp add: buffer_record_def new_buffer_def)
  have hd: "schemaVersion (hd (number_records [?r])) = SchemaVersion"
    by (simp add: number_records_def SortRecords_def SpanToRecord_def)
  obtain entries where es: "BuildChain (number_records [?r]) seed (exSigner e0) = Inr entries"
    using Ed25519_BuildChain_total e0(2) by metis
  have "build_trace (exSigner e0) ''0a'' (number_records (map snd (tbRecords ?buf))) = Inr entries"
    unfolding recs by (simp add: build_trace_def hd seed es)
  moreover have "whole_lines (exLog e0)" "tbRecords ?buf \<noteq> []"
    using e0(4) recs by (auto simp: whole_lines_def)
  ultimately show ?thesis
    using seal_is_all_or_nothing [of e0 ?buf "''0a''" entries _ "ok_seal\<lparr>siSync := False\<rparr>" 100] e0
    by (intro exI [of _ e0] exI [of _ entries]) (auto simp: Let_def)
qed

end
