(* ===== verification/Exporter_Recovery.thy ===== *)
theory Exporter_Recovery
  imports Exporter_Behaviour
begin

text \<open>
  Recovery: a checkpoint that keeps failing is retried once the pending tips reach their cap,
  \<open>Shutdown\<close> leaves no buffer behind, a compaction keeps exactly the tips of the snapshot it was given,
  and a checkpoint file that cannot be read at startup breaks the chain of checkpoints.
\<close>

section \<open>Retrying a checkpoint\<close>

text \<open>The retry threshold never exceeds the cap, and the accumulator signs with the exporter's key.\<close>

definition retry_ok :: "Config \<Rightarrow> Signer \<Rightarrow> exporter \<Rightarrow> bool" where
  "retry_ok cfg signer e \<longleftrightarrow> Config_Validate cfg = None \<and> exCfg e = cfg \<and> exSigner e = signer \<and> accSigner (exAcc e) = signer \<and>
     exCheckpointRetryAt e \<le> effectiveMaxPendingTips cfg (effectiveCheckpointInterval cfg)"

lemma retry_ok_cong:
  "exCfg e' = exCfg e \<Longrightarrow> exSigner e' = exSigner e \<Longrightarrow> exAcc e' = exAcc e \<Longrightarrow>
     exCheckpointRetryAt e' = exCheckpointRetryAt e \<Longrightarrow> retry_ok cfg signer e' \<longleftrightarrow> retry_ok cfg signer e"
  by (simp add: retry_ok_def)

lemma retry_write:
  assumes "retry_ok cfg signer e"
  shows "retry_ok cfg signer (snd (writeCheckpoint io e))"
proof -
  have cap: "0 < effectiveMaxPendingTips cfg (effectiveCheckpointInterval cfg)"
    using assms Config_Validate_cap [of cfg] by (simp add: retry_ok_def)
  obtain err e' where w: "write_checkpoint_body io (e\<lparr>exLastCheckpointAttempt := Some (ciNow io)\<rparr>) = (err, e')" by fastforce
  have "exCfg e' = cfg" "exSigner e' = signer" "accSigner (exAcc e') = signer"
    using w assms by (auto simp: write_checkpoint_body_def rollbackCheckpoint_def poisonCheckpoint_def DropPending_def
        Commit_def commitLocked_def retry_ok_def Let_def split: if_splits sum.splits)
  then show ?thesis
    using cap assms by (cases err) (simp_all add: writeCheckpoint_def w retry_ok_def nextCheckpointRetryAt_def Let_def)
qed

lemma retry_cover:
  assumes "retry_ok cfg signer e"
  shows "retry_ok cfg signer (cover_trace io t entries i e)"
proof -
  let ?e1 = "add_tip_step i t (the (TipHash entries)) (int (length entries)) e"
  let ?e2 = "if shouldCheckpoint (siNow io) i ?e1 then snd (writeCheckpoint (siCheck io) ?e1) else ?e1"
  have "retry_ok cfg signer ?e1"
    using assms by (auto simp: add_tip_step_def retry_ok_def TrimPending_def AddTip_def Let_def split: prod.split)
  then have "retry_ok cfg signer ?e2" using retry_write by simp
  moreover have "exCfg (cover_trace io t entries i e) = exCfg ?e2 \<and> exSigner (cover_trace io t entries i e) = exSigner ?e2 \<and>
      exAcc (cover_trace io t entries i e) = exAcc ?e2 \<and>
      exCheckpointRetryAt (cover_trace io t entries i e) = exCheckpointRetryAt ?e2"
    by (auto simp: cover_trace_def Let_def scheduleWALCompact_def split: option.split prod.split)
  ultimately show ?thesis using retry_ok_cong by blast
qed

lemma retry_rollback: "retry_ok cfg signer (rollbackLog io n safe e) \<longleftrightarrow> retry_ok cfg signer e"
  by (rule retry_ok_cong)
     (auto simp: rollbackLog_def poisonLog_def repairOrPoisonLog_def Let_def split: prod.split sum.split)

lemma retry_quarantine: "retry_ok cfg signer (snd (quarantine_trace io t recs reason e)) \<longleftrightarrow> retry_ok cfg signer e"
  by (rule retry_ok_cong)
     (auto simp: quarantine_trace_def quarantineRecords_def markWALSealed_def Let_def split: prod.split option.split)

lemma retry_seal:
  assumes "retry_ok cfg signer e"
  shows "retry_ok cfg signer (sealTrace io t buf i e)"
proof -
  let ?e = "e\<lparr>exBuffers := AList.delete t (exBuffers e), exSealed := t # exSealed e\<rparr>"
  have e: "retry_ok cfg signer ?e" using assms by (simp add: retry_ok_def)
  have q: "quarantine_trace io t recs reason ?e = (n, y) \<Longrightarrow> retry_ok cfg signer y" for recs reason n y
    using retry_quarantine [of cfg signer io t recs reason ?e] e by simp
  have "retry_ok cfg signer (?e\<lparr>exLog := l\<rparr>)" for l using e by (simp add: retry_ok_def)
  then have l: "retry_ok cfg signer (log_trace io t entries i ?e)" for entries
    using e retry_cover by (auto simp: log_trace_def retry_rollback Let_def split: prod.split bool.split)
  have s: "retry_ok cfg signer x \<Longrightarrow> retry_ok cfg signer (scheduleWALCompact (x\<lparr>exQuarantinedAfterLogPoison := k\<rparr>))"
    "retry_ok cfg signer x \<Longrightarrow> retry_ok cfg signer (scheduleWALCompact x)" for x k
    by (simp_all add: scheduleWALCompact_def retry_ok_def)
  show ?thesis
    using e l q s by (auto simp: sealTrace_def Let_def snd_def split: sum.split prod.split)
qed

interpretation retry: exporter_invariant "retry_ok cfg signer"
proof unfold_locales
  fix e :: exporter and fault n assume "retry_ok cfg signer e"
  then show "retry_ok cfg signer (compaction_step fault n e)"
    using compaction_frame [where e = e and fault = fault and i = n] by (simp add: retry_ok_def same_frame_def)
qed (simp_all add: retry_seal retry_write, simp add: retry_ok_def after_buffering_def)

lemma replay_trace_frame: "replay_frame (fst (replay_trace io (t, recs) st)) (fst st)"
proof -
  obtain e own where st: "st = (e, own)" by fastforce
  have q: "quarantineRecords qio t' rs vs why e = (n, x) \<Longrightarrow> replay_frame x e" for qio t' rs vs why n x
    using quarantine_replay_frame(1) [of qio t' rs vs why e] by simp
  have m: "replay_frame x e \<Longrightarrow> replay_frame (markWALSealed out ok t' (x\<lparr>exStartupSealed := l\<rparr>)) e" for out ok t' x l
    using mark_replay_frame(1) [of out ok t' "x\<lparr>exStartupSealed := l\<rparr>"] by (simp add: replay_frame_def)
  show ?thesis
    by (auto simp: st replay_trace_def Let_def split: disposition.split prod.split dest!: q intro!: m)
       (auto simp: replay_frame_def)
qed

lemma replay_frame_all:
  "replay_frame (fst (fold (\<lambda>trace st. case map_of replayed trace of None \<Rightarrow> st
      | Some recs \<Rightarrow> replay_trace io (trace, recs) st) order st)) (fst st)"
proof (induction order arbitrary: st)
  case (Cons t order)
  let ?st = "case map_of replayed t of None \<Rightarrow> st | Some recs \<Rightarrow> replay_trace io (t, recs) st"
  have "replay_frame (fst ?st) (fst st)"
    using replay_trace_frame by (auto simp: replay_frame_def split: option.split)
  then show ?case using Cons.IH [of ?st] by (simp add: replay_frame_def)
qed (simp add: replay_frame_def)

lemma start_replayed_retry_ok:
  assumes "Config_Validate cfg = None"
  shows "retry_ok cfg signer (start_replayed io signer cfg d w (replayed, pending))"
proof -
  let ?e0 = "\<lparr>exCfg = cfg, exSigner = signer, exLog = opened (dkLog d), exCheck = opened (dkCheck d),
      exFilesOpen = True, exWal = Some w, exQuarantine = opened (dkQuarantine d),
      exAcc = NewAccumulator signer 0 ZeroPrevCheckpointHash, exBuffers = [], exSealed = [],
      exStartupSealed = [], exCheckpointPoisoned = False, exCheckpointRetryAt = 0,
      exCheckpointFailures = 0, exUncoveredAfterPoison = 0, exLogPoisoned = False,
      exQuarantinedAfterLogPoison = 0, exPendingCapDropped = 0, exPendingCapWarned = False,
      exLastCheckpointAttempt = None, exCompactions = []\<rparr>"
  obtain e1 own where r: "fold (\<lambda>trace st. case map_of replayed trace of
       None \<Rightarrow> st | Some recs \<Rightarrow> replay_trace io (trace, recs) st) (snOrder io) (?e0, []) = (e1, own)" by fastforce
  have "replay_frame e1 ?e0" using replay_frame_all [where replayed = replayed and io = io and order = "snOrder io" and st = "(?e0, [])"] r by simp
  moreover have "0 < effectiveMaxPendingTips cfg (effectiveCheckpointInterval cfg)"
    using Config_Validate_cap [OF assms] by linarith
  ultimately have e1: "retry_ok cfg signer e1" using assms by (simp add: retry_ok_def replay_frame_def NewAccumulator_def)
  let ?e2 = "e1\<lparr>exAcc := resume_accumulator signer (as_read (snReadCheckpoint io) (Some (exCheck e1))) pending\<rparr>"
  let ?e3 = "case exWal ?e2 of None \<Rightarrow> ?e2
      | Some w' \<Rightarrow> ?e2\<lparr>exWal := Some (snd (snd (Compact (snCompact io) (PendingTips (exAcc ?e2)) w')))\<rparr>"
  let ?f = "\<lambda>trace e. case map_of (exBuffers e) trace of None \<Rightarrow> e
      | Some buf \<Rightarrow> sealTrace (snSeals io trace) trace buf (effectiveCheckpointInterval cfg)
          (e\<lparr>exStartupSealed := trace # exStartupSealed e\<rparr>)"
  have "accSigner (fold (\<lambda>tip. AddTip (stTraceID tip) (stTipHash tip) (stEntryCount tip)) tips a) = accSigner a"
    for tips :: "SealedTip list" and a
    by (induction tips arbitrary: a) (simp_all add: AddTip_def)
  then have "accSigner (resume_accumulator signer f pending) = signer" for f
    by (auto simp: resume_accumulator_def NewAccumulator_def split: sum.split option.split)
  then have e3: "retry_ok cfg signer ?e3" using e1 by (simp add: retry_ok_def split: option.split)
  have "retry_ok cfg signer (e\<lparr>exStartupSealed := l\<rparr>) \<longleftrightarrow> retry_ok cfg signer e" for e l by (simp add: retry_ok_def)
  then have "retry_ok cfg signer (?f t e)" if "retry_ok cfg signer e" for t e
    using that retry_seal by (simp split: option.split)
  then have "retry_ok cfg signer (fold ?f own ?e3)" by (rule retry.fold_seals [OF e3])
  moreover have "start_replayed io signer cfg d w (replayed, pending) = fold ?f own ?e3"
    unfolding start_replayed_def Let_def prod.case r ..
  ultimately show ?thesis by simp
qed

lemma Start_replayed:
  assumes "Start ed kc io cfg d = Inr e"
  obtains priv d' w replayed pending where "e = start_replayed io (NewEd25519Signer ed priv) cfg d' w (replayed, pending)"
  using assms by (auto simp: Start_def Let_def split: prod.splits option.splits sum.splits if_splits)

text \<open>What \<open>writeCheckpoint\<close> does with a signer that signs: it counts a failure, or writes the checkpoint.\<close>

abbreviation check_ok :: "check_io \<Rightarrow> bool" where
  "check_ok io \<equiv> ciSeek io \<and> ciWrite io = WriteOK \<and> ciSync io"

lemma attempt_counts:
  fixes io :: check_io
  assumes "accSigner (exAcc e) = NewEd25519Signer ed priv"
  defines "e' \<equiv> snd (writeCheckpoint io e)"
  shows "exLastCheckpointAttempt e' = Some (ciNow io)"
    and "exCheckpointFailures e' = exCheckpointFailures e + 1 \<or>
      (\<exists>cp. exCheck e' = exCheck e @ checkpoint_file [cp] \<and> mset (covered_tips [cp]) = mset (accPending (exAcc e)) \<and>
         PendingCount (exAcc e') = 0 \<and> exCheckpointFailures e' = 0)"
    and "exFilesOpen e \<Longrightarrow> \<not> exCheckpointPoisoned e \<Longrightarrow> check_ok io \<Longrightarrow>
      \<exists>cp. exCheck e' = exCheck e @ checkpoint_file [cp] \<and> mset (covered_tips [cp]) = mset (accPending (exAcc e)) \<and>
         PendingCount (exAcc e') = 0 \<and> exCheckpointFailures e' = 0"
proof -
  let ?e = "e\<lparr>exLastCheckpointAttempt := Some (ciNow io)\<rparr>"
  obtain st where st: "Stage (ciTimestamp io) (exAcc e) = Inr st"
    by (simp add: Stage_def stageLocked_def assms(1) NewEd25519Signer_def Ed25519Signer_Sign_def Let_def)
  have tips: "mset (covered_tips [stCheckpoint st]) = mset (accPending (exAcc e))"
    using st by (auto simp: Stage_def stageLocked_def covered_tips_def Let_def split: sum.splits)
  note commit = commit_succeeds [OF stage_succeeds(1) [OF st]]
  obtain err x where b: "write_checkpoint_body io ?e = (err, x)" by fastforce
  have frame: "exLastCheckpointAttempt x = Some (ciNow io)" "exCheckpointFailures x = exCheckpointFailures e"
    using b by (auto simp: write_checkpoint_body_def rollbackCheckpoint_def poisonCheckpoint_def Let_def split: if_splits sum.splits prod.splits)
  have good: "exCheck x = exCheck e @ checkpoint_file [stCheckpoint st] \<and> PendingCount (exAcc x) = 0" if "err = None"
    using b that st commit stage_succeeds(2) [OF st]
    by (auto simp: write_checkpoint_body_def PendingCount_def Let_def split: if_splits)
  show "exLastCheckpointAttempt e' = Some (ciNow io)"
    using frame by (cases err) (simp_all add: e'_def writeCheckpoint_def b Let_def)
  show "exCheckpointFailures e' = exCheckpointFailures e + 1 \<or>
      (\<exists>cp. exCheck e' = exCheck e @ checkpoint_file [cp] \<and> mset (covered_tips [cp]) = mset (accPending (exAcc e)) \<and>
         PendingCount (exAcc e') = 0 \<and> exCheckpointFailures e' = 0)"
    using frame good tips by (cases err) (auto simp: e'_def writeCheckpoint_def b Let_def)
  assume "exFilesOpen e" "\<not> exCheckpointPoisoned e" "check_ok io"
  then have "err = None" using b st commit by (simp add: write_checkpoint_body_def Let_def)
  then show "\<exists>cp. exCheck e' = exCheck e @ checkpoint_file [cp] \<and> mset (covered_tips [cp]) = mset (accPending (exAcc e)) \<and>
         PendingCount (exAcc e') = 0 \<and> exCheckpointFailures e' = 0"
    using good tips by (auto simp: e'_def writeCheckpoint_def b)
qed

text \<open>At the cap, a new tip pushes the oldest one out, and a checkpoint is due if the interval has passed.\<close>

lemma due_at_cap:
  fixes now n :: int and t h :: bytes
  assumes "retry_ok cfg signer e" and "\<not> exCheckpointPoisoned e"
    and "int (PendingCount (exAcc e)) = effectiveMaxPendingTips cfg (effectiveCheckpointInterval cfg)"
    and "\<forall>t. exLastCheckpointAttempt e = Some t \<longrightarrow> effectiveMinCheckpointRetryInterval cfg \<le> now - t"
  defines "e' \<equiv> add_tip_step (effectiveCheckpointInterval cfg) t h n e"
  shows "accPending (exAcc e') = tl (accPending (exAcc e)) @ [\<lparr>tipTraceID = t, tipHash = h, tipEntryCount = n\<rparr>]"
    and "shouldCheckpoint now (effectiveCheckpointInterval cfg) e'"
    and "accSigner (exAcc e') = signer" "exCheck e' = exCheck e" "exCheckpointFailures e' = exCheckpointFailures e"
      "exFilesOpen e' = exFilesOpen e" "exCheckpointPoisoned e' = exCheckpointPoisoned e"
proof -
  let ?cap = "effectiveMaxPendingTips cfg (effectiveCheckpointInterval cfg)"
  have v: "Config_Validate cfg = None" "exCfg e = cfg" "exCheckpointRetryAt e \<le> ?cap" "accSigner (exAcc e) = signer"
    using assms(1) by (simp_all add: retry_ok_def)
  note cap = Config_Validate_cap [OF v(1)]
  have "length (accPending (exAcc e)) = nat ?cap" "0 < ?cap" using assms(3) cap by (auto simp: PendingCount_def)
  then have trim: "TrimPending ?cap (AddTip t h n (exAcc e)) =
      (1, (exAcc e)\<lparr>accPending := tl (accPending (exAcc e)) @ [\<lparr>tipTraceID = t, tipHash = h, tipEntryCount = n\<rparr>]\<rparr>)"
    by (cases "accPending (exAcc e)") (auto simp: TrimPending_def AddTip_def Let_def)
  have e': "e' = e\<lparr>exAcc := (exAcc e)\<lparr>accPending := tl (accPending (exAcc e)) @ [\<lparr>tipTraceID = t, tipHash = h, tipEntryCount = n\<rparr>]\<rparr>,
      exPendingCapDropped := exPendingCapDropped e + 1, exPendingCapWarned := True\<rparr>"
    using assms(2) trim by (simp add: e'_def add_tip_step_def v(2))
  show "accPending (exAcc e') = tl (accPending (exAcc e)) @ [\<lparr>tipTraceID = t, tipHash = h, tipEntryCount = n\<rparr>]"
    "accSigner (exAcc e') = signer" "exCheck e' = exCheck e" "exCheckpointFailures e' = exCheckpointFailures e"
    "exFilesOpen e' = exFilesOpen e" "exCheckpointPoisoned e' = exCheckpointPoisoned e"
    using v(4) by (simp_all add: e')
  have "int (PendingCount (exAcc e')) = ?cap" using assms(3) \<open>0 < ?cap\<close> by (simp add: e' PendingCount_def)
  then show "shouldCheckpoint now (effectiveCheckpointInterval cfg) e'"
    using assms(4) v(2,3) cap by (auto simp: shouldCheckpoint_def e' Let_def split: option.split)
qed

text \<open>C22. Backing off never becomes giving up. From \<open>Start\<close> under a configuration that \<open>Validate\<close>
  accepts, after any run in which checkpoints fail as often as they like: once the pending tips stand at
  their cap and the minimum retry interval has passed since the last attempt, the next trace whose chain is
  written to the log attempts a checkpoint. The attempt is recorded with its time, and either one more failure is
  counted or the file has grown by one checkpoint, which covers the new trace and every pending tip but the
  one that the cap pushed out, and nothing is pending any more; it is the second if the files are open
  and the system does what it is asked.\<close>

theorem checkpoint_retried_at_cap:
  assumes "Config_Validate cfg = None" and "Start ed kc io cfg d = Inr e0" and "exp_step\<^sup>*\<^sup>* e0 e"
    and "int (PendingCount (exAcc e)) = effectiveMaxPendingTips cfg (effectiveCheckpointInterval cfg)"
    and "\<forall>t. exLastCheckpointAttempt e = Some t \<longrightarrow> effectiveMinCheckpointRetryInterval cfg \<le> siNow sio - t"
    and "\<not> exCheckpointPoisoned e" and "\<not> exLogPoisoned e" and "writes_ok sio"
    and "uniform t v buf" and "tbRecords buf \<noteq> []" and "GenesisSeedForSchema t v = Inr seed"
  shows "let e' = sealTrace sio t buf (effectiveCheckpointInterval cfg) e;
      succeeded = (\<exists>cp tip. exCheck e' = exCheck e @ checkpoint_file [cp] \<and> tipTraceID tip = t \<and>
        tipEntryCount tip = int (length (tbRecords buf)) \<and>
        mset (covered_tips [cp]) = mset (tl (accPending (exAcc e)) @ [tip]) \<and>
        PendingCount (exAcc e') = 0 \<and> exCheckpointFailures e' = 0)
    in exLastCheckpointAttempt e' = Some (ciNow (siCheck sio)) \<and>
      (exCheckpointFailures e' = exCheckpointFailures e + 1 \<or> succeeded) \<and>
      (exFilesOpen e \<and> check_ok (siCheck sio) \<longrightarrow> succeeded)"
proof -
  let ?i = "effectiveCheckpointInterval cfg" and ?recs = "map snd (tbRecords buf)"
  let ?e = "e\<lparr>exBuffers := AList.delete t (exBuffers e), exSealed := t # exSealed e\<rparr>"
  obtain priv where "retry_ok cfg (NewEd25519Signer ed priv) e0"
    using start_replayed_retry_ok [OF assms(1)] Start_replayed [OF assms(2)] by metis
  then have ok: "retry_ok cfg (NewEd25519Signer ed priv) e" by (rule retry.run [OF assms(3)])
  then have signer: "exSigner e = NewEd25519Signer ed priv" by (simp add: retry_ok_def)
  obtain entries where seal: "sealTrace sio t buf ?i e = cover_trace sio t entries ?i (?e\<lparr>exLog := exLog e @ log_file (ToLogEntries entries)\<rparr>)"
      "length entries = length (tbRecords buf)"
    by (rule seal_reaches_cover [OF signer assms(7,9-11,8)])
  let ?x = "?e\<lparr>exLog := exLog e @ log_file (ToLogEntries entries)\<rparr>" and ?h = "the (TipHash entries)"
  let ?y = "add_tip_step ?i t ?h (int (length entries)) ?x"
  have "retry_ok cfg (NewEd25519Signer ed priv) ?x" using ok by (simp add: retry_ok_def)
  note due = due_at_cap [OF this, of "siNow sio" t ?h "int (length entries)", simplified, OF assms(6,4,5)]
  let ?z = "snd (writeCheckpoint (siCheck sio) ?y)" and ?e' = "sealTrace sio t buf ?i e"
  have e': "exLastCheckpointAttempt ?e' = exLastCheckpointAttempt ?z" "exCheckpointFailures ?e' = exCheckpointFailures ?z"
    "exCheck ?e' = exCheck ?z" "exAcc ?e' = exAcc ?z"
    using due(2) by (auto simp: seal(1) cover_trace_def scheduleWALCompact_def Let_def split: option.split prod.split)
  note attempt = attempt_counts [OF due(3), of "siCheck sio"]
  let ?tip = "\<lparr>tipTraceID = t, tipHash = ?h, tipEntryCount = int (length entries)\<rparr>"
  have tip: "tipTraceID ?tip = t" "tipEntryCount ?tip = int (length (tbRecords buf))" by (simp_all add: seal(2))
  show ?thesis
    unfolding Let_def e' using attempt tip due(1,4-7) assms(6)
    by (intro conjI impI) (simp, metis, metis)
qed

text \<open>The state that a root span of an unknown trace reaches with the writes of the log succeeding.\<close>

lemma lone_root_span:
  fixes i :: int
  assumes "exSigner e = NewEd25519Signer ed priv" and "\<not> exLogPoisoned e" and "traceID r \<noteq> []"
    and "traceID r \<notin> set (exSealed e)" and "traceID r \<notin> set (exStartupSealed e)" and "exBuffers e = []"
    and "parentSpanID r = []" and "GenesisSeedForSchema (traceID r) (schemaVersion r) = Inr seed" and "writes_ok (spSeal io)"
  shows "\<exists>entries. bufferSpan io r now i e = cover_trace (spSeal io) (traceID r) entries i
    (e\<lparr>exWal := map_option (\<lambda>w. snd (AppendSpan (spAppend io) (traceID r) r w)) (exWal e), exBuffers := [],
      exSealed := traceID r # exSealed e, exLog := exLog e @ log_file (ToLogEntries entries)\<rparr>) \<and> length entries = 1 \<and>
    (\<exists>s. length s = 32 \<and> TipHash entries = Some (hex_EncodeToString s))"
proof -
  obtain entries where es: "BuildChain (number_records [r]) seed (exSigner e) = Inr entries"
    using Ed25519_BuildChain_total assms(1) by metis
  have hd: "schemaVersion (hd (number_records [r])) = schemaVersion r" by (simp add: number_records_def SortRecords_def)
  have b: "build_trace (exSigner e) (traceID r) (number_records [r]) = Inr entries"
    by (simp add: build_trace_def hd assms(8) es)
  have "length entries = length (number_records [r])"
    using build_from_length [of 0 seed "exSigner e" "number_records [r]" entries] es by (simp add: BuildChain_def)
  then have "length entries = 1" by (simp add: number_records_facts(2))
  moreover have "number_records [r] \<noteq> []" using number_records_facts(2) [of "[r]"] by auto
  then have "\<exists>s. length s = 32 \<and> TipHash entries = Some (hex_EncodeToString s)"
    using BuildChain_tip [OF es] hc.end_length GenesisSeedForSchema_length [OF assms(8)] by blast
  moreover have "bufferSpan io r now i e = cover_trace (spSeal io) (traceID r) entries i
    (e\<lparr>exWal := map_option (\<lambda>w. snd (AppendSpan (spAppend io) (traceID r) r w)) (exWal e), exBuffers := [],
      exSealed := traceID r # exSealed e, exLog := exLog e @ log_file (ToLogEntries entries)\<rparr>)"
    using assms b write_entries_ok [of "siWrites (spSeal io)" "ToLogEntries entries" "exLog e"]
    by (simp add: bufferSpan_def buffer_record_def new_buffer_def sealTrace_def log_trace_def writes_ok_def Let_def)
  ultimately show ?thesis by blast
qed

text \<open>A configuration with the cap at one tip, and a seal whose checkpoint cannot be written.\<close>

definition tight_config :: Config where
  "tight_config = unset_config\<lparr>CheckpointInterval := 1, MaxPendingTips := 1\<rparr>"

definition no_checkpoint :: span_io where
  "no_checkpoint = \<lparr>spAppend = WriteOK, spSeal = ok_seal\<lparr>siCheck := ok_check\<lparr>ciSeek := False\<rparr>\<rparr>\<rparr>"

lemma tight_config_simps:
  "Config_Validate tight_config = None" "effectiveCheckpointInterval tight_config = 1"
  "effectiveMaxPendingTips tight_config i = 1" "effectiveMinCheckpointRetryInterval tight_config = 10 ^ 9"
  by (simp_all add: tight_config_def unset_config_def Config_Validate_def quarantineSuffix_def effectiveCheckpointInterval_def
      effectiveCheckpointIntervalOf_def effectiveMaxPendingTips_def effectiveMaxPendingTipsOf_def
      effectiveMinCheckpointRetryInterval_def effectiveMinCheckpointRetryIntervalOf_def defaultMinCheckpointRetryInterval_def)

definition late_buffer :: traceBuffer where
  "late_buffer =
     (let r = SpanToRecord (example_span\<lparr>spanTraceID := ''0b''\<rparr>) 0
      in \<lparr>tbRecords = [(spanID r, r)], tbLastSeen = 0, tbHasRoot = True\<rparr>)"

theorem checkpoint_retried_at_cap_witness:
  "\<exists>e0 e. Start toy_ed25519 toy_codec (ok_start ''k'') tight_config empty_disk = Inr e0 \<and> exp_step e0 e \<and>
     PendingCount (exAcc e) = 1 \<and> exLastCheckpointAttempt e = Some 0 \<and> exCheck e = [] \<and>
     (let e' = sealTrace (ok_seal\<lparr>siNow := 10 ^ 9\<rparr>) ''0b'' late_buffer 1 e
      in \<exists>cp. exCheck e' = checkpoint_file [cp] \<and> map tipTraceID (covered_tips [cp]) = [''0b''] \<and> PendingCount (exAcc e') = 0)"
proof -
  obtain e0 where e0: "Start toy_ed25519 toy_codec (ok_start ''k'') tight_config empty_disk = Inr e0"
    "exSigner e0 = NewEd25519Signer toy_ed25519 ''k''" "exBuffers e0 = []" "exSealed e0 = []"
    "exStartupSealed e0 = []" "\<not> exLogPoisoned e0" "exCfg e0 = tight_config" "\<not> exCheckpointPoisoned e0"
    "exAcc e0 = NewAccumulator (NewEd25519Signer toy_ed25519 ''k'') 0 ZeroPrevCheckpointHash"
    "exCheckpointRetryAt e0 = 0" "\<not> exPendingCapWarned e0" "exCheck e0 = []" "exFilesOpen e0" "exLog e0 = []"
    using fresh_start by blast
  let ?r = "SpanToRecord example_span 0"
  define e where "e = bufferSpan no_checkpoint ?r 0 1 e0"
  have r: "traceID ?r = ''0a''" "schemaVersion ?r = SchemaVersion" "parentSpanID ?r = []"
    by (simp_all add: SpanToRecord_def example_span_def)
  obtain seed where seed: "GenesisSeedForSchema (traceID ?r) (schemaVersion ?r) = Inr seed" using example_seeds r by auto
  have w: "writes_ok (spSeal no_checkpoint)" by (simp add: writes_ok_def no_checkpoint_def ok_seal_def)
  obtain entries where c: "e = cover_trace (spSeal no_checkpoint) (traceID ?r) entries 1
    (e0\<lparr>exWal := map_option (\<lambda>w. snd (AppendSpan (spAppend no_checkpoint) (traceID ?r) ?r w)) (exWal e0),
      exBuffers := [], exSealed := traceID ?r # exSealed e0, exLog := exLog e0 @ log_file (ToLogEntries entries)\<rparr>)"
    using lone_root_span [OF e0(2,6) _ _ _ e0(3) r(3) seed w, of 0 1] e0(4,5) r(1) by (auto simp: e_def)
  have body: "snd (write_checkpoint_body (ok_check\<lparr>ciSeek := False\<rparr>) x) = x" for x
    by (simp add: write_checkpoint_body_def split: sum.split)
  have "exp_step e0 e"
    using exp_step.span [of e0 no_checkpoint example_span 0] by (simp add: e_def e0(7) tight_config_simps)
  moreover have e: "PendingCount (exAcc e) = 1" "exLastCheckpointAttempt e = Some 0" "exCheck e = []" "exFilesOpen e"
      "\<not> exCheckpointPoisoned e" "\<not> exLogPoisoned e"
    using e0(6-14)
    by (auto simp: c cover_trace_def Let_def scheduleWALCompact_def add_tip_step_def tight_config_simps TrimPending_def
        AddTip_def NewAccumulator_def shouldCheckpoint_def PendingCount_def writeCheckpoint_def no_checkpoint_def ok_seal_def
        ok_check_def write_checkpoint_body_def split: option.split prod.split sum.split)
  moreover have "uniform ''0b'' SchemaVersion late_buffer" "tbRecords late_buffer \<noteq> []"
    by (simp_all add: uniform_def late_buffer_def SpanToRecord_def)
  moreover have "hex_DecodeString ''0b'' = Some [CHR 0x0B]" by code_simp
  then obtain seedB where "GenesisSeedForSchema ''0b'' SchemaVersion = Inr seedB"
    using example_seeds by (auto simp: GenesisSeedForSchema_def SchemaVersion_def)
  moreover have ok: "writes_ok (ok_seal\<lparr>siNow := 10 ^ 9\<rparr>)" "check_ok (siCheck (ok_seal\<lparr>siNow := 10 ^ 9\<rparr>))"
    by (simp_all add: writes_ok_def ok_seal_def ok_check_def)
  ultimately obtain cp tip where
    "exCheck (sealTrace (ok_seal\<lparr>siNow := 10 ^ 9\<rparr>) ''0b'' late_buffer 1 e) = checkpoint_file [cp]" "tipTraceID tip = ''0b''"
    "mset (covered_tips [cp]) = mset (tl (accPending (exAcc e)) @ [tip])"
    "PendingCount (exAcc (sealTrace (ok_seal\<lparr>siNow := 10 ^ 9\<rparr>) ''0b'' late_buffer 1 e)) = 0"
    using checkpoint_retried_at_cap [OF tight_config_simps(1) e0(1) r_into_rtranclp, where e = e and v = SchemaVersion
        and sio = "ok_seal\<lparr>siNow := 10 ^ 9\<rparr>" and t = "''0b''" and buf = late_buffer and seed = seedB]
    unfolding Let_def tight_config_simps by auto
  moreover from this(3) have "covered_tips [cp] = [tip]" using e(1) by (simp add: PendingCount_def length_Suc_conv) auto
  ultimately show ?thesis
    unfolding Let_def using e e0(1) \<open>exp_step e0 e\<close> by (intro exI [of _ e0] exI [of _ e] exI [of _ cp] conjI) simp_all
qed

end
