(* ===== verification/Exporter_Compaction.thy ===== *)
theory Exporter_Compaction
  imports Exporter_Recovery
begin

text \<open>
  The compaction goroutine. It reads the pending tips first and compacts later, without the exporter's
  mutex in between, so it keeps the tips of its snapshot. A run in which a trace is sealed in between
  loses the tip of that trace from the write-ahead log.
\<close>

section \<open>What a compaction keeps\<close>

lemma compaction_from_snapshot:
  assumes "exWal e = Some w" and "wal_ok w" and "n < length (exCompactions e)" and "exCompactions e ! n = Snapshot p"
  shows "exWal (compaction_step NoFault n e) = Some (wal_run (OpCompact p) w)"
    and "wal_ok (wal_run (OpCompact p) w)" and "wal_view (wal_run (OpCompact p) w) = log_op (OpCompact p) (wal_view w)"
    and "reads_as (wal_disk (wal_run (OpCompact p) w)) (log_op (OpCompact p) (wal_view w))"
proof -
  from assms(2) obtain es where es: "walFd w = FdOpen" "walContent w = Some (wal_file es)"
      "\<not> snd (scan_lines wal_maxScanTokenSize (wal_file es))"
    by (rule wal_okE)
  obtain warned w' where c: "Compact NoFault p w = (None, warned, w')"
    using es by (auto simp: Compact_def Let_def)
  then show "exWal (compaction_step NoFault n e) = Some (wal_run (OpCompact p) w)"
    using assms(1,3,4) by (simp add: compaction_step_def Let_def)
  have fits: "op_fits (OpCompact p)" by (simp add: op_fits_def)
  show ok: "wal_ok (wal_run (OpCompact p) w)" "wal_view (wal_run (OpCompact p) w) = log_op (OpCompact p) (wal_view w)"
    by (rule wal.ok_run [OF assms(2) fits], rule wal.view_run [OF assms(2) fits])
  show "reads_as (wal_disk (wal_run (OpCompact p) w)) (log_op (OpCompact p) (wal_view w))"
    using reads_ok [OF ok(1)] unfolding ok(2) .
qed

text \<open>A compaction that succeeds keeps every buffered span and exactly the tips of the snapshot of
  pending tips it was given; with a snapshot that is still current, no tip the accumulator owes a
  checkpoint is lost, and a restart reads exactly what was kept.\<close>

theorem compaction_keeps_its_snapshot:
  assumes "exWal e = Some w" and "wal_ok w" and "n < length (exCompactions e)" and "exCompactions e ! n = Snapshot p"
  shows "\<exists>w'. exWal (compaction_step NoFault n e) = Some w' \<and> wal_ok w' \<and>
    slSpans (wal_view w') = slSpans (wal_view w) \<and>
    slTips (wal_view w') = filter (still_pending p) (slTips (wal_view w)) \<and>
    (p = PendingTips (exAcc e) \<longrightarrow>
       (\<forall>x \<in> set (slTips (wal_view w)). still_pending (PendingTips (exAcc e)) x \<longrightarrow> x \<in> set (slTips (wal_view w')))) \<and>
    reads_as (wal_disk w') (wal_view w')"
  using compaction_from_snapshot [OF assms] by (intro exI [of _ "wal_run (OpCompact p) w"]) auto

theorem compaction_keeps_its_snapshot_witness:
  "\<exists>e0 w'. Start toy_ed25519 toy_codec (ok_start ''k'') unset_config empty_disk = Inr e0 \<and>
     exWal (compaction_step NoFault 0 (e0\<lparr>exCompactions := [Snapshot []]\<rparr>)) = Some w' \<and> slTips (wal_view w') = []"
proof -
  obtain e0 where e0: "Start toy_ed25519 toy_codec (ok_start ''k'') unset_config empty_disk = Inr e0"
      "exWal e0 = Some \<lparr>walContent = Some [], walFd = FdOpen\<rparr>"
    using fresh_start by blast
  have "wal_ok \<lparr>walContent = Some [], walFd = FdOpen\<rparr>" "wal_view \<lparr>walContent = Some [], walFd = FdOpen\<rparr> = \<lparr>slSpans = [], slTips = []\<rparr>"
    using wal_okI [of "[]"] view_wal_file [of "[]"] by (simp_all add: entries_view_def)
  with compaction_keeps_its_snapshot [of "e0\<lparr>exCompactions := [Snapshot []]\<rparr>" "\<lparr>walContent = Some [], walFd = FdOpen\<rparr>" 0 "[]"] e0
  show ?thesis by auto
qed

section \<open>A seal between the snapshot and the compaction\<close>

text \<open>The effect of sealing a lone root span when no checkpoint is due and every write succeeds.\<close>

definition plain_span :: "bytes \<Rightarrow> Span" where
  "plain_span t =
     \<lparr>spanAttribute = (\<lambda>_. None), spanTraceID = t, spanSpanID = ''01'', spanParentSpanID = [], spanStart = 1, spanEnd = 2,
      spanNameText = ''chat'', spanKind = ''Client'', spanStatusIsError = False, spanStatusText = ''Ok''\<rparr>"

abbreviation ok_span :: span_io where "ok_span \<equiv> \<lparr>spAppend = WriteOK, spSeal = ok_seal\<rparr>"

definition quiet :: "exporter \<Rightarrow> bool" where
  "quiet e \<longleftrightarrow> exSigner e = NewEd25519Signer toy_ed25519 ''k'' \<and> \<not> exLogPoisoned e \<and> exBuffers e = [] \<and>
     exStartupSealed e = [] \<and> \<not> exCheckpointPoisoned e \<and> exCfg e = unset_config \<and> length (accPending (exAcc e)) < 50"

lemma unset_config_simps:
  "effectiveCheckpointInterval unset_config = 100" "effectiveMaxPendingTips unset_config 100 = 1000"
  by (simp_all add: unset_config_def effectiveCheckpointInterval_def effectiveCheckpointIntervalOf_def
      defaultCheckpointInterval_def effectiveMaxPendingTips_def effectiveMaxPendingTipsOf_def
      defaultMaxPendingTipsFactor_def wrap64_def)

lemma quiet_cover:
  assumes "quiet e" and "exWal e = Some w" and "length entries = 1"
  shows "cover_trace ok_seal t entries 100 e =
    e\<lparr>exAcc := AddTip t (the (TipHash entries)) 1 (exAcc e),
      exWal := Some (wal_run (OpMark t (the (TipHash entries)) 1) w), exCompactions := exCompactions e @ [Scheduled]\<rparr>"
proof -
  let ?h = "the (TipHash entries)"
  let ?a = "AddTip t ?h 1 (exAcc e)"
  have trim: "TrimPending 1000 ?a = (0, ?a)" using assms(1) by (simp add: TrimPending_def AddTip_def quiet_def)
  have tip: "add_tip_step 100 t ?h 1 e = e\<lparr>exAcc := ?a\<rparr>"
    using assms(1) trim by (simp add: add_tip_step_def quiet_def unset_config_simps)
  have not_due: "\<not> shouldCheckpoint 0 100 (e\<lparr>exAcc := ?a\<rparr>)"
    using assms(1) by (simp add: shouldCheckpoint_def PendingCount_def AddTip_def quiet_def)
  have "?h \<in> set (al_get (PendingTips ?a) t)" by (simp add: PendingTips_member AddTip_def)
  then have mark: "sealedMarkerTip ?a t ?h 1 = (?h, 1)" by (simp add: sealedMarkerTip_def)
  have io: "siNow ok_seal = 0" "siMark ok_seal = WriteOK" "siMarkSync ok_seal" by (simp_all add: ok_seal_def)
  show ?thesis
    using assms(2,3) by (simp add: cover_trace_def tip not_due mark io scheduleWALCompact_def Let_def)
qed

lemma quiet_root_span:
  assumes "quiet e" and "exWal e = Some w" and "t \<notin> set (exSealed e)" and "t \<noteq> []"
    and "GenesisSeedForSchema t SchemaVersion = Inr seed"
  shows "\<exists>s log. length s = 32 \<and> bufferSpan ok_span (SpanToRecord (plain_span t) 0) 0 100 e =
    e\<lparr>exWal := Some (fold wal_run [OpAppend t (SpanToRecord (plain_span t) 0), OpMark t (hex_EncodeToString s) 1] w),
      exBuffers := [], exSealed := t # exSealed e, exLog := log, exAcc := AddTip t (hex_EncodeToString s) 1 (exAcc e),
      exCompactions := exCompactions e @ [Scheduled]\<rparr>"
proof -
  let ?r = "SpanToRecord (plain_span t) 0"
  have r: "traceID ?r = t" "schemaVersion ?r = SchemaVersion" "parentSpanID ?r = []"
    by (simp_all add: SpanToRecord_def plain_span_def)
  have q: "exSigner e = NewEd25519Signer toy_ed25519 ''k''" "\<not> exLogPoisoned e" "exBuffers e = []" "exStartupSealed e = []"
    using assms(1) by (simp_all add: quiet_def)
  have ok: "writes_ok (spSeal ok_span)" by (simp add: writes_ok_def ok_seal_def)
  let ?e = "\<lambda>entries. e\<lparr>exWal := Some (wal_run (OpAppend t ?r) w), exBuffers := [], exSealed := t # exSealed e,
      exLog := exLog e @ log_file (ToLogEntries entries)\<rparr>"
  obtain entries s where es: "bufferSpan ok_span ?r 0 100 e = cover_trace ok_seal t entries 100 (?e entries)"
      "length entries = 1" "length s = 32" "TipHash entries = Some (hex_EncodeToString s)"
    using lone_root_span [OF q(1,2) _ _ _ q(3) r(3) _ ok, of seed 0 100] assms(2-5) q(4) r by auto
  have "quiet (?e entries)" using assms(1) by (simp add: quiet_def)
  from quiet_cover [OF this _ es(2), of "wal_run (OpAppend t ?r) w" t] show ?thesis
    using es(1,3,4) by (intro exI [of _ s] exI [of _ "exLog e @ log_file (ToLogEntries entries)"]) simp
qed

lemma plain_span_fits:
  assumes "t = ''0a'' \<or> t = ''0b''"
  shows "op_fits (OpAppend t (SpanToRecord (plain_span t) 0))"
proof -
  have "length (Marshal_walEntry (span_entry (t, SpanToRecord (plain_span t) 0))) < 1000"
    using assms
    by (auto simp: Marshal_walEntry_def walEntry_json_def span_entry_def entryTypeSpan_def SpanToRecord_def plain_span_def
        SchemaVersion_def inferAuditKind_def attributeAllowlist_def fixture_simps)
  moreover have "valid_record (SpanToRecord (plain_span t) 0)"
    using assms
    by (auto simp: valid_record_def SpanToRecord_def plain_span_def SchemaVersion_def inferAuditKind_def
        attributeAllowlist_def AuditKindTask_def plain_valid_utf8)
  ultimately show ?thesis
    using assms
    by (auto simp: op_fits_def good_entry_def valid_wal_entry_def span_entry_def entryTypeSpan_def plain_valid_utf8
        short_entry_def wal_maxScanTokenSize_def)
qed

lemma mark_fits:
  assumes "t = ''0a'' \<or> t = ''0b''" and "length s = 32"
  shows "op_fits (OpMark t (hex_EncodeToString s) 1)"
proof -
  let ?e = "\<lparr>weType = entryTypeSealed, weTraceID = t, weRecord = None, weTipHash = hex_EncodeToString s, weEntryCount = 1\<rparr>"
  have "length (Marshal_walEntry ?e) < 1000"
    using assms esc_plain [OF plain_hex_Encode [of s]]
    by (auto simp: Marshal_walEntry_def walEntry_json_def entryTypeSealed_def fixture_simps)
  then show ?thesis
    using assms(1)
    by (auto simp: op_fits_def good_entry_def valid_wal_entry_def entryTypeSealed_def plain_valid_utf8
        short_entry_def wal_maxScanTokenSize_def)
qed

lemma race_seeds:
  obtains seedA seedB where "GenesisSeedForSchema ''0a'' SchemaVersion = Inr seedA"
    "GenesisSeedForSchema ''0b'' SchemaVersion = Inr seedB"
proof -
  have "hex_DecodeString ''0b'' = Some [CHR 0x0B]" by code_simp
  then show thesis using that example_seeds by (auto simp: GenesisSeedForSchema_def SchemaVersion_def)
qed

abbreviation digest_tip :: "bytes \<Rightarrow> bytes \<Rightarrow> SealedTip" where
  "digest_tip t s \<equiv> \<lparr>stTraceID = t, stTipHash = hex_EncodeToString s, stEntryCount = 1\<rparr>"

abbreviation seal_ops :: "bytes \<Rightarrow> bytes \<Rightarrow> wal_op list" where
  "seal_ops t s \<equiv> [OpAppend t (SpanToRecord (plain_span t) 0), OpMark t (hex_EncodeToString s) 1]"

lemma two_seals_view:
  assumes "length sA = 32" and "length sB = 32"
  defines "w \<equiv> fold wal_run (seal_ops ''0b'' sB) (fold wal_run (seal_ops ''0a'' sA) \<lparr>walContent = Some [], walFd = FdOpen\<rparr>)"
  shows "wal_ok w" "wal_view w = \<lparr>slSpans = [], slTips = [digest_tip ''0a'' sA, digest_tip ''0b'' sB]\<rparr>"
proof -
  have fits: "list_all op_fits (seal_ops ''0a'' sA @ seal_ops ''0b'' sB)" using plain_span_fits mark_fits assms(1,2) by simp
  have w0: "wal_ok \<lparr>walContent = Some [], walFd = FdOpen\<rparr>" "wal_view \<lparr>walContent = Some [], walFd = FdOpen\<rparr> = \<lparr>slSpans = [], slTips = []\<rparr>"
    using wal_okI [of "[]"] view_wal_file [of "[]"] by (simp_all add: entries_view_def)
  have hex: "hex_EncodeToString sA \<noteq> []" "hex_EncodeToString sB \<noteq> []"
    using assms(1,2) length_hex_Encode [of sA] length_hex_Encode [of sB] by force+
  show "wal_ok w" "wal_view w = \<lparr>slSpans = [], slTips = [digest_tip ''0a'' sA, digest_tip ''0b'' sB]\<rparr>"
    using wal.runs [OF w0(1) fits] hex unfolding w_def w0(2) by auto
qed

text \<open>The run up to the compaction: one trace is sealed, the goroutine reads the pending tips, another is sealed.\<close>

definition plain_root :: "bytes \<Rightarrow> exporter \<Rightarrow> exporter" where
  "plain_root t e = bufferSpan ok_span (SpanToRecord (plain_span t) 0) 0 100 e"

lemma plain_root_step: "exCfg e = unset_config \<Longrightarrow> exp_step e (plain_root t e)"
  using exp_step.span [of e ok_span "plain_span t" 0] by (simp add: plain_root_def unset_config_simps)

lemma race_state:
  assumes "Start toy_ed25519 toy_codec (ok_start ''k'') unset_config empty_disk = Inr e0"
  defines "e1 \<equiv> plain_root ''0a'' e0"
  defines "e2 \<equiv> compaction_step NoFault 0 e1"
  defines "e3 \<equiv> plain_root ''0b'' e2"
  obtains w sA sB where "exp_step e0 e1" "exp_step e2 e3" "exCompactions e2 = [Snapshot (PendingTips (exAcc e1))]"
    "exWal e3 = Some w" "exCompactions e3 = [Snapshot (PendingTips (exAcc e1)), Scheduled]" "wal_ok w"
    "wal_view w = \<lparr>slSpans = [], slTips = [digest_tip ''0a'' sA, digest_tip ''0b'' sB]\<rparr>"
    "\<not> still_pending (PendingTips (exAcc e1)) (digest_tip ''0b'' sB)" "still_pending (PendingTips (exAcc e3)) (digest_tip ''0b'' sB)"
proof -
  let ?w0 = "\<lparr>walContent = Some [], walFd = FdOpen\<rparr>"
  have e0: "quiet e0" "exWal e0 = Some ?w0" "exSealed e0 = []" "exCompactions e0 = []"
    "exAcc e0 = NewAccumulator (NewEd25519Signer toy_ed25519 ''k'') 0 ZeroPrevCheckpointHash"
    using fresh_start [of "''k''" unset_config] assms(1) by (auto simp: quiet_def NewAccumulator_def)
  obtain seedA seedB where seeds: "GenesisSeedForSchema ''0a'' SchemaVersion = Inr seedA"
    "GenesisSeedForSchema ''0b'' SchemaVersion = Inr seedB" by (rule race_seeds)
  obtain sA logA where A: "length sA = 32" "e1 = e0\<lparr>exWal := Some (fold wal_run (seal_ops ''0a'' sA) ?w0),
      exBuffers := [], exSealed := [''0a''], exLog := logA, exAcc := AddTip ''0a'' (hex_EncodeToString sA) 1 (exAcc e0),
      exCompactions := [Scheduled]\<rparr>"
    using quiet_root_span [OF e0(1,2) _ _ seeds(1)] e0(3,4) by (auto simp: e1_def plain_root_def)
  let ?p = "PendingTips (exAcc e1)"
  have e2: "e2 = e1\<lparr>exCompactions := [Snapshot ?p]\<rparr>" by (simp add: e2_def compaction_step_def A(2) Let_def)
  have q: "quiet e2" using e0(1,5) by (simp add: quiet_def e2 A(2) AddTip_def NewAccumulator_def)
  then obtain sB logB where B: "length sB = 32" "e3 = e2\<lparr>exWal := Some (fold wal_run (seal_ops ''0b'' sB) (fold wal_run (seal_ops ''0a'' sA) ?w0)),
      exBuffers := [], exSealed := [''0b'', ''0a''], exLog := logB, exAcc := AddTip ''0b'' (hex_EncodeToString sB) 1 (exAcc e1),
      exCompactions := [Snapshot ?p, Scheduled]\<rparr>"
    using quiet_root_span [OF _ _ _ _ seeds(2), of e2] by (auto simp: e3_def plain_root_def e2 A(2))
  have step: "exp_step e0 e1" "exp_step e2 e3"
    using e0(1) q plain_root_step by (simp_all add: e1_def e3_def quiet_def)
  have "\<not> still_pending ?p (digest_tip ''0b'' sB)" "still_pending (PendingTips (exAcc e3)) (digest_tip ''0b'' sB)"
    using e0(5) by (simp_all add: still_pending_def PendingTips_member B(2) A(2) AddTip_def NewAccumulator_def)
  from that [OF step _ _ _ two_seals_view [OF A(1) B(1)] this] show thesis by (simp add: B(2) e2)
qed

text \<open>What a restart would read from the write-ahead log.\<close>

definition on_restart :: "exporter \<Rightarrow> (wal_error + (bytes \<times> AuditRecord list) list \<times> SealedTip list) option" where
  "on_restart e = map_option (\<lambda>w. Replay (wal_disk w)) (exWal e)"

text \<open>C13. The race, event by event, in a fresh exporter under a system that never fails. A trace is sealed (\<open>e1\<close>);
  the goroutine that its seal scheduled reads the pending tips (\<open>e2\<close>); a second trace is sealed (\<open>e3\<close>): its tip
  \<open>x\<close> is pending, is not in the snapshot, and a restart would read it from the write-ahead log. Now the goroutine
  compacts (\<open>e4\<close>): the accumulator still owes \<open>x\<close> a checkpoint, but a restart reads neither the tip nor a span of
  its trace, so that after a crash no checkpoint will ever cover it. It is the age of the snapshot alone: were
  it of the tips pending at \<open>e3\<close>, the same compaction would keep \<open>x\<close>.\<close>

theorem stale_compaction_loses_tip:
  "\<exists>e0 e1 e2 e3 e4 x p. Start toy_ed25519 toy_codec (ok_start ''k'') unset_config empty_disk = Inr e0 \<and>
     e1 = plain_root ''0a'' e0 \<and> exp_step e0 e1 \<and>
     e2 = compaction_step NoFault 0 e1 \<and> exp_step e1 e2 \<and> p = PendingTips (exAcc e1) \<and> exCompactions e2 = [Snapshot p] \<and>
     e3 = plain_root ''0b'' e2 \<and> exp_step e2 e3 \<and> exCompactions e3 = [Snapshot p, Scheduled] \<and>
     stTraceID x = ''0b'' \<and> still_pending (PendingTips (exAcc e3)) x \<and> \<not> still_pending p x \<and>
     (\<exists>m tips. on_restart e3 = Some (Inr (m, tips)) \<and> x \<in> set tips) \<and>
     e4 = compaction_step NoFault 0 e3 \<and> exp_step e3 e4 \<and> still_pending (PendingTips (exAcc e4)) x \<and>
     (\<exists>m tips. on_restart e4 = Some (Inr (m, tips)) \<and> x \<notin> set tips \<and> al_get m ''0b'' = []) \<and>
     (\<exists>m tips. on_restart (compaction_step NoFault 0 (e3\<lparr>exCompactions := [Snapshot (PendingTips (exAcc e3)), Scheduled]\<rparr>)) =
        Some (Inr (m, tips)) \<and> x \<in> set tips)"
proof -
  obtain e0 where e0: "Start toy_ed25519 toy_codec (ok_start ''k'') unset_config empty_disk = Inr e0"
    using fresh_start by blast
  define e1 where "e1 = plain_root ''0a'' e0"
  define e2 where "e2 = compaction_step NoFault 0 e1"
  define e3 where "e3 = plain_root ''0b'' e2"
  let ?p = "PendingTips (exAcc e1)"
  obtain w sA sB where r: "exp_step e0 e1" "exp_step e2 e3" "exCompactions e2 = [Snapshot ?p]"
    "exWal e3 = Some w" "exCompactions e3 = [Snapshot ?p, Scheduled]" "wal_ok w"
    "wal_view w = \<lparr>slSpans = [], slTips = [digest_tip ''0a'' sA, digest_tip ''0b'' sB]\<rparr>"
    "\<not> still_pending ?p (digest_tip ''0b'' sB)" "still_pending (PendingTips (exAcc e3)) (digest_tip ''0b'' sB)"
    unfolding e1_def e2_def e3_def by (rule race_state [OF e0])
  let ?x = "digest_tip ''0b'' sB"
  have read: "\<exists>m tips. on_restart e = Some (Inr (m, tips)) \<and> tips = slTips v \<and> (slSpans v = [] \<longrightarrow> al_get m ''0b'' = [])"
    if "exWal e = Some u" "reads_as (wal_disk u) v" for e u v
    using that by (auto simp: on_restart_def reads_as_def same_buffers_def)
  have compacted: "\<exists>m tips. on_restart (compaction_step NoFault 0 e) = Some (Inr (m, tips)) \<and>
      tips = filter (still_pending q) (slTips (wal_view w)) \<and> al_get m ''0b'' = []"
    if "exWal e = Some w" "exCompactions e = [Snapshot q, Scheduled]" for e q
    using read [OF compaction_from_snapshot(1,4)] that r(6,7) by fastforce
  have before: "\<exists>m tips. on_restart e3 = Some (Inr (m, tips)) \<and> ?x \<in> set tips"
    using read [OF r(4) reads_ok [OF r(6)]] r(7) by auto
  have after: "\<exists>m tips. on_restart (compaction_step NoFault 0 e3) = Some (Inr (m, tips)) \<and> ?x \<notin> set tips \<and> al_get m ''0b'' = []"
    using compacted [OF r(4,5)] r(7,8) by auto
  have fresh: "\<exists>m tips. on_restart (compaction_step NoFault 0 (e3\<lparr>exCompactions := [Snapshot (PendingTips (exAcc e3)), Scheduled]\<rparr>)) =
        Some (Inr (m, tips)) \<and> ?x \<in> set tips"
    using compacted [of "e3\<lparr>exCompactions := [Snapshot (PendingTips (exAcc e3)), Scheduled]\<rparr>"] r(4,7,9) by auto
  have "still_pending (PendingTips (exAcc (compaction_step NoFault 0 e3))) ?x" using r(9) compaction_frame(2) by simp
  then show ?thesis
    using e0 r(1-3,5,8,9) before after fresh exp_step.compaction
    by (intro exI [of _ e0] exI [of _ e1] exI [of _ e2] exI [of _ e3] exI [of _ "compaction_step NoFault 0 e3"]
        exI [of _ ?x] exI [of _ ?p]) (simp add: e1_def [symmetric] e2_def [symmetric] e3_def [symmetric], simp add: e1_def e2_def e3_def)
qed

end
