(* ===== verification/Exporter_Restart.thy ===== *)
theory Exporter_Restart
  imports Json_Glue Exporter_Compaction Verify_Reports
begin

text \<open>
  The ends of a process: what a \<open>Shutdown\<close> without errors leaves behind, and two ways in which the next
  start goes wrong: a checkpoint file that could not be read, and a write-ahead log whose last write
  was cut short.
\<close>

section \<open>Shutdown\<close>

lemma seal_all_buffers:
  "exBuffers (fold (\<lambda>trace e. case map_of (exBuffers e) trace of None \<Rightarrow> e
      | Some buf \<Rightarrow> sealTrace (io trace) trace buf (i e) e) order e) =
    filter (\<lambda>p. fst p \<notin> set order) (exBuffers e)"
proof (induction order arbitrary: e)
  case (Cons t order)
  let ?e = "case map_of (exBuffers e) t of None \<Rightarrow> e | Some buf \<Rightarrow> sealTrace (io t) t buf (i e) e"
  have "exBuffers ?e = filter (\<lambda>p. fst p \<noteq> t) (exBuffers e)"
  proof (cases "map_of (exBuffers e) t")
    case None
    then have "\<forall>p \<in> set (exBuffers e). fst p \<noteq> t" by (metis eq_fst_iff map_of_eq_None_iff image_eqI)
    with None show ?thesis by (simp add: filter_id_conv)
  next
    case (Some buf)
    then show ?thesis by (simp add: seal_buffers AList.delete_eq case_prod_beta' eq_commute [of t])
  qed
  then have "filter (\<lambda>p. fst p \<notin> set order) (exBuffers ?e) = filter (\<lambda>p. fst p \<notin> set (t # order)) (exBuffers e)"
    by (auto simp: conj_commute intro: filter_cong)
  then show ?case using Cons.IH [of ?e] by simp
qed simp

lemma checkpoint_clears_pending:
  assumes "writeCheckpoint io e = (None, e')"
  shows "PendingCount (exAcc e') = 0"
proof -
  let ?e = "e\<lparr>exLastCheckpointAttempt := Some (ciNow io)\<rparr>"
  obtain x where b: "write_checkpoint_body io ?e = (None, x)" "exAcc e' = exAcc x"
    using assms by (auto simp: writeCheckpoint_def Let_def split: prod.splits option.splits)
  obtain st where st: "Stage (ciTimestamp io) (exAcc e) = Inr st" "Commit st (exAcc e) = Inr (exAcc x)"
    using b(1) by (auto simp: write_checkpoint_body_def Let_def split: if_splits sum.splits)
  have "accPending (exAcc x) = drop (stTipCount st) (accPending (exAcc e))"
    using commit_succeeds [OF stage_succeeds(1) [OF st(1)]] st(2)
    by (metis Accumulator.select_convs(4) Accumulator.surjective Accumulator.update_convs(4) sum.inject(2))
  then show ?thesis using stage_succeeds(2) [OF st(1)] b(2) by (simp add: PendingCount_def)
qed

lemma waits_frame:
  "exBuffers (fold (\<lambda>(fault, i). compaction_step fault i) waits e) = exBuffers e \<and>
   exAcc (fold (\<lambda>(fault, i). compaction_step fault i) waits e) = exAcc e \<and>
   exCheckpointPoisoned (fold (\<lambda>(fault, i). compaction_step fault i) waits e) = exCheckpointPoisoned e \<and>
   exLogPoisoned (fold (\<lambda>(fault, i). compaction_step fault i) waits e) = exLogPoisoned e \<and>
   exPendingCapDropped (fold (\<lambda>(fault, i). compaction_step fault i) waits e) = exPendingCapDropped e"
proof (induction waits arbitrary: e)
  case (Cons x waits)
  have "exPendingCapDropped (compaction_step fault i e) = exPendingCapDropped e" for fault i
    by (auto simp: compaction_step_def Let_def split: compaction.split option.split prod.split)
  then show ?case
    using Cons compaction_frame(1,2,4) [where fault = "fst x" and i = "snd x" and e = e]
    by (simp add: same_frame_def split_beta)
qed simp

lemma close_frame:
  assumes "shutdown_close io e = (errs, e')"
  shows "exBuffers e' = exBuffers e \<and> exAcc e' = exAcc e \<and> exCheckpointPoisoned e' = exCheckpointPoisoned e \<and>
    exLogPoisoned e' = exLogPoisoned e \<and> exPendingCapDropped e' = exPendingCapDropped e \<and>
    \<not> exFilesOpen e' \<and> exWal e' = None"
  using assms by (auto simp: shutdown_close_def Let_def split: option.splits prod.splits)

lemma clean_lock_leaves_nothing:
  assumes "shutdown_locked io order e = ([], e')" and "fst ` set (exBuffers e) \<subseteq> set order"
  shows "exBuffers e' = [] \<and> PendingCount (exAcc e') = 0 \<and> \<not> exCheckpointPoisoned e' \<and> \<not> exLogPoisoned e' \<and>
    exPendingCapDropped e' = 0"
proof -
  let ?e1 = "fold (\<lambda>trace e. case map_of (exBuffers e) trace of None \<Rightarrow> e
      | Some buf \<Rightarrow> sealTrace (sdSeals io trace) trace buf (effectiveCheckpointInterval (exCfg e)) e) order e"
  obtain final e2 where f: "(if 0 < PendingCount (exAcc ?e1) then writeCheckpoint (sdCheck io) ?e1 else (None, ?e1)) = (final, e2)"
    by fastforce
  have n: "final = None" "e' = e2" "\<not> exCheckpointPoisoned e'" "\<not> exLogPoisoned e'" "exPendingCapDropped e' = 0"
    using assms(1) by (auto simp: shutdown_locked_def Let_def f split: option.splits if_splits)
  have "exBuffers ?e1 = []" unfolding seal_all_buffers using assms(2) by (auto simp: filter_empty_conv)
  then have "exBuffers e' = []"
    using f n(2) checkpoint_buffers [of "sdCheck io" ?e1] by (auto split: if_splits)
  moreover have "PendingCount (exAcc e') = 0"
    using f n(1,2) checkpoint_clears_pending [of "sdCheck io" ?e1 e2] by (auto split: if_splits)
  ultimately show ?thesis using n by simp
qed

text \<open>C14. A shutdown that reports no error has lost nothing: when \<open>Shutdown\<close> has sealed the buffers (in
  whatever order the map gives them), waited for the goroutines and closed the files, and its list of errors
  is empty, no buffer is left, no tip is waiting for a checkpoint, neither file is poisoned, no tip was
  ever dropped for the cap, and every file is closed.\<close>

theorem clean_shutdown_leaves_nothing:
  assumes "Shutdown io order waits e = ([], e')" and "fst ` set (exBuffers e) \<subseteq> set order"
  shows "exBuffers e' = [] \<and> PendingCount (exAcc e') = 0 \<and> \<not> exCheckpointPoisoned e' \<and> \<not> exLogPoisoned e' \<and>
    exPendingCapDropped e' = 0 \<and> \<not> exFilesOpen e' \<and> exWal e' = None"
proof -
  obtain e1 where l: "shutdown_locked io order e = ([], e1)"
      "shutdown_close io (fold (\<lambda>(fault, i). compaction_step fault i) waits e1) = ([], e')"
    using assms(1) by (auto simp: Shutdown_def split: prod.splits)
  show ?thesis
    using clean_lock_leaves_nothing [OF l(1) assms(2)] close_frame [OF l(2)] waits_frame [of waits e1] by simp
qed

definition ok_shutdown :: shutdown_io where
  "ok_shutdown = \<lparr>sdSeals = (\<lambda>_. ok_seal), sdCheck = ok_check, sdCloseLog = True, sdCloseCheck = True,
     sdCompact = NoFault, sdCloseWal = True\<rparr>"

lemma ok_close:
  assumes "exWal e = Some w" and "walFd w = FdOpen"
  shows "fst (shutdown_close ok_shutdown e) = []"
  using assms
  by (cases "walContent w") (auto simp: shutdown_close_def ok_shutdown_def Compact_def Close_def Let_def)

theorem clean_shutdown_leaves_nothing_witness:
  "\<exists>e0 e'. Start toy_ed25519 toy_codec (ok_start ''k'') unset_config empty_disk = Inr e0 \<and>
     PendingCount (exAcc (bufferSpan ok_span (SpanToRecord (plain_span ''0a'') 0) 0 100 e0)) = 1 \<and>
     Shutdown ok_shutdown [] [(NoFault, 0)] (bufferSpan ok_span (SpanToRecord (plain_span ''0a'') 0) 0 100 e0) = ([], e') \<and>
     exBuffers e' = [] \<and> PendingCount (exAcc e') = 0 \<and> exWal e' = None"
proof -
  let ?acc = "NewAccumulator (NewEd25519Signer toy_ed25519 ''k'') 0 ZeroPrevCheckpointHash"
  obtain e0 where e0: "Start toy_ed25519 toy_codec (ok_start ''k'') unset_config empty_disk = Inr e0"
    "quiet e0" "exWal e0 = Some \<lparr>walContent = Some [], walFd = FdOpen\<rparr>" "exSealed e0 = []" "exAcc e0 = ?acc"
    "exFilesOpen e0" "exPendingCapDropped e0 = 0" "exCompactions e0 = []"
    using fresh_start [of "''k''" unset_config] by (auto simp: quiet_def NewAccumulator_def)
  obtain seed where seed: "GenesisSeedForSchema ''0a'' SchemaVersion = Inr seed" using example_seeds by blast
  define e where "e = bufferSpan ok_span (SpanToRecord (plain_span ''0a'') 0) 0 100 e0"
  let ?w = "\<lambda>s. fold wal_run (seal_ops ''0a'' s) \<lparr>walContent = Some [], walFd = FdOpen\<rparr>"
  obtain sealed log s where e: "e = e0\<lparr>exWal := Some (?w s), exBuffers := [], exSealed := sealed, exLog := log,
      exAcc := AddTip ''0a'' (hex_EncodeToString s) 1 ?acc, exCompactions := [Scheduled]\<rparr>"
    using quiet_root_span [OF e0(2,3) _ _ seed] e0(4,5,8) unfolding e_def by auto
  have one: "PendingCount (exAcc e) = 1" by (simp add: e PendingCount_def AddTip_def NewAccumulator_def)
  obtain st where st: "Stage (ciTimestamp ok_check) (exAcc e) = Inr st"
    using toy_stage [of "ciTimestamp ok_check" "exAcc e"] by (auto simp: e AddTip_def NewAccumulator_def toy_signer_def)
  obtain a where a: "Commit st (exAcc e) = Inr a" using commit_succeeds [OF stage_succeeds(1) [OF st]] by blast
  have "\<not> exCheckpointPoisoned e" "exFilesOpen e" "\<not> exLogPoisoned e" "exPendingCapDropped e = 0" "exBuffers e = []"
    using e0 by (simp_all add: e quiet_def)
  then obtain x where x: "shutdown_locked ok_shutdown [] e = ([], x)" "exWal x = exWal e" "exCompactions x = exCompactions e"
    using st a one
    by (simp add: shutdown_locked_def ok_shutdown_def writeCheckpoint_def write_checkpoint_body_def ok_check_def Let_def)
  let ?y = "compaction_step NoFault 0 x"
  have "exWal ?y = Some (?w s)" using x(2,3) by (simp add: compaction_step_def e Let_def)
  moreover have "walFd (?w s) = FdOpen" by (simp add: AppendSpan_def MarkSealed_def appendEntry_def)
  ultimately have "fst (shutdown_close ok_shutdown ?y) = []" by (rule ok_close)
  then obtain e' where s: "Shutdown ok_shutdown [] [(NoFault, 0)] e = ([], e')"
    using x(1) by (cases "shutdown_close ok_shutdown ?y") (simp add: Shutdown_def)
  with clean_shutdown_leaves_nothing [OF this] \<open>exBuffers e = []\<close> show ?thesis
    using e0(1) one unfolding e_def by auto
qed

section \<open>A checkpoint file that could not be read\<close>

text \<open>C23. If the checkpoint file holds checkpoints but cannot be read when \<open>Start\<close> resumes the chain (it
  fails to open, or reading it fails), \<open>Start\<close> goes on with a chain that begins again at the zero hash.
  The next checkpoint committed is then one the verifier rejects: every report on the file it was
  appended to has a fatal finding, unless the hash of the last checkpoint is the zero hash itself.\<close>

theorem unreadable_checkpoint_breaks_chain:
  assumes "cks \<noteq> []" and "\<forall>c \<in> set cks. valid_checkpoint c \<and> short_line (Marshal_Checkpoint c)"
    and "out = ReadNotOpened \<or> out = ReadBroken"
    and "Stage ts (resume_accumulator signer (as_read out (Some (checkpoint_file cks))) pending) = Inr st"
    and "valid_checkpoint (stCheckpoint st)" and "short_line (Marshal_Checkpoint (stCheckpoint st))"
    and "VerifyLog ed log (Content (checkpoint_file (cks @ [stCheckpoint st]))) pub = Inr r"
  shows "FatalCount r \<noteq> 0 \<or> hex_EncodeToString (sha256 (CheckpointSigningPayload (last cks))) = ZeroPrevCheckpointHash"
proof (rule ccontr, clarsimp)
  assume ok: "FatalCount r = 0" and ne: "hex_EncodeToString (sha256 (CheckpointSigningPayload (last cks))) \<noteq> ZeroPrevCheckpointHash"
  let ?acc = "resume_accumulator signer (as_read out (Some (checkpoint_file cks))) pending"
  have "accPrevHash (fold (\<lambda>tip. AddTip (stTraceID tip) (stTipHash tip) (stEntryCount tip)) tips a) = accPrevHash a"
    for tips :: "SealedTip list" and a :: Accumulator
    by (induction tips arbitrary: a) (simp_all add: AddTip_def)
  then have "accPrevHash ?acc = ZeroPrevCheckpointHash"
    using assms(3) by (auto simp: resume_accumulator_def readLastCheckpoint_def NewAccumulator_def)
  then have prev: "cpPrevCheckpointHash (stCheckpoint st) = ZeroPrevCheckpointHash"
    using stage_succeeds(1) [OF assms(4)] by (simp add: succeeds_def)
  have "\<forall>c \<in> set (cks @ [stCheckpoint st]). valid_checkpoint c \<and> short_line (Marshal_Checkpoint c)"
    using assms(2,5,6) by auto
  from readCheckpoints_written [OF this] assms(7) obtain data where
    "r = verify_data ed pub data (cks @ [stCheckpoint st])"
    by (auto simp: VerifyLog_Inr)
  then have "log_sound ed pub data (cks @ [stCheckpoint st])" using ok by (simp add: FatalCount_verify_data)
  then have "linked ZeroPrevCheckpointHash (cks @ [stCheckpoint st])" by (auto simp: log_sound_def)
  then have "last_link ZeroPrevCheckpointHash cks = ZeroPrevCheckpointHash" using prev by (simp add: linked_append)
  then show False using ne last_link_last [OF assms(1)] by simp
qed

theorem unreadable_checkpoint_breaks_chain_witness:
  "\<exists>st r. Stage ''2026-06-22T00:00:00Z'' (resume_accumulator example_signer (as_read ReadBroken (Some (checkpoint_file [stCheckpoint st])))
        [\<lparr>stTraceID = ''01010101010101010101010101010101'', stTipHash = example_tip, stEntryCount = 1\<rparr>]) = Inr st \<and>
     VerifyLog toy_ed25519 (Content []) (Content (checkpoint_file ([stCheckpoint st] @ [stCheckpoint st])))
       (ed_public toy_ed25519 example_key) = Inr r \<and>
     (FatalCount r \<noteq> 0 \<or> hex_EncodeToString (sha256 (CheckpointSigningPayload (stCheckpoint st))) = ZeroPrevCheckpointHash)"
proof -
  let ?p = "[\<lparr>stTraceID = ''01010101010101010101010101010101'', stTipHash = example_tip, stEntryCount = 1\<rparr>]"
  obtain st where st: "Stage ''2026-06-22T00:00:00Z'' example_pending = Inr st"
      "valid_checkpoint (stCheckpoint st)" "short_line (Marshal_Checkpoint (stCheckpoint st))"
    using example_stage by blast
  let ?c = "[stCheckpoint st]"
  have "resume_accumulator example_signer (as_read ReadBroken (Some (checkpoint_file ?c))) ?p = example_pending"
    by (simp add: resume_accumulator_def readLastCheckpoint_def)
  then have s: "Stage ''2026-06-22T00:00:00Z'' (resume_accumulator example_signer (as_read ReadBroken (Some (checkpoint_file ?c))) ?p) = Inr st"
    using st(1) by (simp only:)
  have "\<forall>c \<in> set (?c @ ?c). valid_checkpoint c \<and> short_line (Marshal_Checkpoint c)" using st by simp
  from readCheckpoints_written [OF this] obtain r where r:
    "VerifyLog toy_ed25519 (Content []) (Content (checkpoint_file (?c @ ?c))) (ed_public toy_ed25519 example_key) = Inr r"
    using readLogEntries_written [of "[]"] by (simp add: VerifyLog_def)
  show ?thesis
    using unreadable_checkpoint_breaks_chain [OF _ _ _ s st(2,3) r] s r st(2,3) by (intro exI [of _ st] exI [of _ r]) simp
qed

section \<open>A torn write-ahead log\<close>

lemma glued_line:
  assumes "p \<noteq> []" and "hd p = CHR ''{''"
  shows "Unmarshal_walEntry (p @ Marshal_walEntry e) = None"
proof -
  have "glued (Marshal_walEntry e)"
    unfolding Marshal_walEntry_def
    by (rule render_glued [OF wf_walEntry_json]) (simp add: walEntry_json_def esc_plain plain_eq)
  moreover have "skip_ws p \<noteq> []" using assms by (cases p) simp_all
  ultimately show ?thesis by (simp add: Unmarshal_walEntry_def json_Unmarshal_def glued_not_parsed)
qed

text \<open>C24. A write of the write-ahead log that is cut short also swallows the next entry. Nothing repairs
  the file while the process runs: if an \<open>AppendSpan\<close> fails after any number of bytes of its line, all of it but
  the line feed included, the next one reports success, but a restart reads neither: the line it wrote
  continues the torn one, no continuation of a torn entry by a whole one parses, and \<open>Replay\<close> skips it.
  The two together are taken to be below the limit of the line scanner.\<close>

theorem torn_append_swallows_next:
  assumes "wal_ok w" and "0 < n" and "n \<le> length (Marshal_walEntry (span_entry (t, r)))"
    and "AppendSpan (WriteFails n) t r w = (err, w1)" and "AppendSpan WriteOK t' r' w1 = (err', w2)"
    and "n + length (Marshal_walEntry (span_entry (t', r'))) < wal_maxScanTokenSize"
  shows "err = Some WalWrite \<and> err' = None \<and> reads_as (wal_disk w2) (wal_view w)"
proof -
  from assms(1) obtain es where es: "walFd w = FdOpen" "walContent w = Some (wal_file es)" "list_all good_entry es"
      "wal_entries (wal_file es) = es" "wal_view w = entries_view es"
    by (rule wal_okE)
  let ?p = "take n (Marshal_walEntry (span_entry (t, r)))" and ?l = "Marshal_walEntry (span_entry (t', r'))"
  let ?g = "?p @ ?l"
  have p: "?p \<noteq> []" "hd ?p = CHR ''{''" "LF \<notin> set ?p" "length ?p = n"
    using wal_line(1,2,4) [of "span_entry (t, r)"] assms(2,3) by (auto dest: in_set_takeD)
  have w: "err = Some WalWrite" "err' = None" "walContent w2 = Some (terminate_lines (map Marshal_walEntry es @ [?g]))"
    using assms(3-5) es(1,2) by (auto simp: AppendSpan_def appendEntry_def span_entry_def Let_def)
  have "scannable wal_maxScanTokenSize ?g"
    using wal_line(1,3,4) [of "span_entry (t', r')"] p(3,4) assms(6) by (auto simp: scannable_def)
  then have "\<forall>l \<in> set (map Marshal_walEntry es @ [?g]). scannable wal_maxScanTokenSize l"
    using es(3) scannable_wal_line by (auto simp: list_all_iff good_entry_def)
  then have sc: "scan_lines wal_maxScanTokenSize (terminate_lines (map Marshal_walEntry es @ [?g])) = (map Marshal_walEntry es @ [?g], False)"
    using scan_terminated [of "map Marshal_walEntry es @ [?g]" wal_maxScanTokenSize "[]"]
    by (simp add: scannable_def wal_maxScanTokenSize_def)
  have "scan_lines wal_maxScanTokenSize (wal_file es) = (map Marshal_walEntry es, False)"
    using scan_terminated [of "map Marshal_walEntry es" wal_maxScanTokenSize "[]"] es(3) scannable_wal_line
    by (auto simp: scannable_def wal_maxScanTokenSize_def list_all_iff good_entry_def)
  moreover have "Unmarshal_walEntry ?g = None" using glued_line [OF p(1,2)] .
  moreover have "List.map_filter f (xs @ ys) = List.map_filter f xs @ List.map_filter f ys" for f :: "bytes \<Rightarrow> walEntry option" and xs ys
    by (simp add: List.map_filter_def)
  ultimately have "wal_entries (terminate_lines (map Marshal_walEntry es @ [?g])) = es"
    using es(4) unfolding wal_entries_def sc by (simp add: map_filter_simps)
  then show ?thesis
    using reads_entries [of "terminate_lines (map Marshal_walEntry es @ [?g])"] sc w es(5) by (simp add: wal_disk_def)
qed

text \<open>Two spans; of the line of the first only the line feed is missing.\<close>

theorem torn_append_swallows_next_witness:
  "\<exists>w1 w2. AppendSpan (WriteFails (length (Marshal_walEntry fixture_span))) ''t'' fixture_record
       \<lparr>walContent = Some [], walFd = FdOpen\<rparr> = (Some WalWrite, w1) \<and>
     AppendSpan WriteOK ''t'' fixture_record w1 = (None, w2) \<and> reads_as (wal_disk w2) \<lparr>slSpans = [], slTips = []\<rparr>"
proof -
  let ?w = "\<lparr>walContent = Some [], walFd = FdOpen\<rparr>" and ?n = "length (Marshal_walEntry fixture_span)"
  have w: "wal_ok ?w" "wal_view ?w = \<lparr>slSpans = [], slTips = []\<rparr>"
    using wal_okI [of "[]"] view_wal_file [of "[]"] by (simp_all add: entries_view_def)
  obtain err w1 err' w2 where a: "AppendSpan (WriteFails ?n) ''t'' fixture_record ?w = (err, w1)"
      "AppendSpan WriteOK ''t'' fixture_record w1 = (err', w2)" by fastforce
  have "?n < 1000" "0 < ?n"
    by (simp_all add: Marshal_walEntry_def walEntry_json_def span_entry_def entryTypeSpan_def fixture_simps)
  then show ?thesis
    using torn_append_swallows_next [OF w(1) _ _ a] a w(2) by (auto simp: wal_maxScanTokenSize_def)
qed

end
