(* ===== verification/Exporter_Crash.thy ===== *)
theory Exporter_Crash
  imports Exporter_Restart
begin

text \<open>
  The window between the write of a trace to the audit log and the mark in the write-ahead log that
  it is sealed. If the mark is missing, because the process stopped there or because \<open>MarkSealed\<close> failed
  (which \<open>sealTrace\<close> only logs), the next start replays the spans and seals the trace a second time.
\<close>

section \<open>The files a process leaves\<close>

definition left_by :: "exporter \<Rightarrow> disk" where
  "left_by e =
     \<lparr>dkLog = Some (exLog e), dkCheck = Some (exCheck e),
      dkWal = (case exWal e of None \<Rightarrow> None | Some w \<Rightarrow> walContent w), dkQuarantine = Some (exQuarantine e)\<rparr>"

abbreviation span_record :: AuditRecord where
  "span_record \<equiv> SpanToRecord (plain_span ''0a'') 0"

abbreviation k_signer :: Signer where
  "k_signer \<equiv> NewEd25519Signer toy_ed25519 ''k''"

definition lone_entry :: "bytes \<Rightarrow> LogEntry" where
  "lone_entry seed =
     (let payload = sigPayload span_record seed in
      \<lparr>leRecord = span_record,
       leSigned = \<lparr>seKeyID = hex_EncodeToString (sha256 ''k''), seAlgorithm = ''ed25519'',
                   seEntryHash = hex_EncodeToString (sha256 payload),
                   seSignature = b64_EncodeToString (sha256 (''k'' @ payload))\<rparr>\<rparr>)"

lemma number_lone: "number_records [span_record] = [span_record]"
  by (simp add: number_records_def SortRecords_def SpanToRecord_def)

lemma lone_chain:
  assumes "sealed_chain k_signer ''0a'' les" and "map leRecord les = [span_record]"
    and "GenesisSeedForSchema ''0a'' SchemaVersion = Inr seed"
  shows "les = [lone_entry seed]"
proof -
  from assms(1) obtain rs v s es where c: "rs \<noteq> []" "\<forall>r \<in> set rs. traceID r = ''0a'' \<and> schemaVersion r = v"
      "GenesisSeedForSchema ''0a'' v = Inr s" "BuildChain rs s k_signer = Inr es" "les = ToLogEntries es"
    by (auto simp: sealed_chain_def)
  have "rs = [span_record]" using BuildChain_chain(1) [OF c(4)] assms(2) by (simp add: c(5) ToLogEntries_records)
  then have "v = SchemaVersion" "rs = [span_record]" using c(2) by (simp_all add: SpanToRecord_def)
  then show ?thesis
    using c(3-5) assms(3)
    by (auto simp: BuildChain_def build_from_step NewEd25519Signer_def Ed25519Signer_Sign_def toy_ed25519_def
        ToLogEntries_def lone_entry_def Let_def)
qed

lemma lone_entry_fits: "valid_entry (lone_entry seed) \<and> short_line (MarshalLogEntry (lone_entry seed))"
proof
  have "op_fits (OpAppend ''0a'' span_record)" by (rule plain_span_fits) simp
  then have "valid_record span_record" by (simp add: op_fits_def good_entry_def valid_wal_entry_def span_entry_def)
  then show "valid_entry (lone_entry seed)"
    by (simp add: lone_entry_def valid_entry_def valid_signed_def plain_valid_utf8 Let_def)
  show "short_line (MarshalLogEntry (lone_entry seed))"
    by (simp add: lone_entry_def MarshalLogEntry_def LogEntry_json_def SignedEntry_json_def esc_plain plain_hex_Encode
        plain_b64_Encode short_line_def maxScanTokenSize_def SpanToRecord_def plain_span_def SchemaVersion_def
        inferAuditKind_def attributeAllowlist_def fixture_simps Let_def)
qed

lemma lone_log_verifies:
  assumes "sealed_chain k_signer ''0a'' [lone_entry seed]"
  shows "\<exists>r. VerifyLog toy_ed25519 (Content (log_file [lone_entry seed])) (Content []) (ed_public toy_ed25519 ''k'') = Inr r \<and>
    StatusLine r = ''Status: OK''"
proof -
  let ?s = "acc_start k_signer 0 ZeroPrevCheckpointHash"
  have s: "runAdded ?s = []" "runCommitted ?s = []" by (simp_all add: acc_start_def)
  have "writable (concat (map snd [(''0a'', [lone_entry seed])])) (runCommitted ?s)"
    using lone_entry_fits by (simp add: writable_def s)
  from chains_verify [OF toy_ed25519_correct _ _ acc_inv_start _ this] assms s obtain r where
      "VerifyLog toy_ed25519 (Content (log_file [lone_entry seed])) (Content []) (ed_public toy_ed25519 ''k'') = Inr r" "Errors r = []"
    by auto
  then show ?thesis by (auto simp: StatusLine_def FatalCount_def)
qed

section \<open>The first process\<close>

definition unmarked :: span_io where
  "unmarked = \<lparr>spAppend = WriteOK, spSeal = ok_seal\<lparr>siMark := WriteFails 0\<rparr>\<rparr>"

lemma unmarked_cover:
  assumes "quiet e" and "exWal e = Some \<lparr>walContent = Some s, walFd = FdOpen\<rparr>" and "length entries = 1"
  shows "cover_trace (spSeal unmarked) t entries 100 e =
    e\<lparr>exAcc := AddTip t (the (TipHash entries)) 1 (exAcc e), exCompactions := exCompactions e @ [Scheduled]\<rparr>"
proof -
  let ?h = "the (TipHash entries)"
  let ?a = "AddTip t ?h 1 (exAcc e)"
  have "TrimPending 1000 ?a = (0, ?a)" using assms(1) by (simp add: TrimPending_def AddTip_def quiet_def)
  then have tip: "add_tip_step 100 t ?h 1 e = e\<lparr>exAcc := ?a\<rparr>"
    using assms(1) by (simp add: add_tip_step_def quiet_def unset_config_simps)
  have not_due: "\<not> shouldCheckpoint 0 100 (e\<lparr>exAcc := ?a\<rparr>)"
    using assms(1) by (simp add: shouldCheckpoint_def PendingCount_def AddTip_def quiet_def)
  have io: "siNow (spSeal unmarked) = 0" "siMark (spSeal unmarked) = WriteFails 0" by (simp_all add: unmarked_def ok_seal_def)
  have mark: "MarkSealed (WriteFails 0) ok t h m \<lparr>walContent = Some s, walFd = FdOpen\<rparr> = (Some WalWrite, \<lparr>walContent = Some s, walFd = FdOpen\<rparr>)" for ok h m
    by (simp add: MarkSealed_def appendEntry_def)
  show ?thesis
    using assms(2,3) by (simp add: cover_trace_def tip not_due mark io scheduleWALCompact_def Let_def split: prod.split)
qed

lemma unmarked_seal:
  assumes "GenesisSeedForSchema ''0a'' SchemaVersion = Inr seed"
    and "Start toy_ed25519 toy_codec (ok_start ''k'') unset_config empty_disk = Inr e0"
  defines "e \<equiv> bufferSpan unmarked span_record 0 100 e0"
  shows "exLog e = log_file [lone_entry seed]" "exCheck e = []" "exp_step e0 e"
    "exWal e = Some \<lparr>walContent = Some (wal_file [span_entry (''0a'', span_record)]), walFd = FdOpen\<rparr>"
    "sealed_chain k_signer ''0a'' [lone_entry seed]"
proof -
  let ?w0 = "\<lparr>walContent = Some [], walFd = FdOpen\<rparr>"
  have f: "exSigner e0 = k_signer" "\<not> exLogPoisoned e0" "exBuffers e0 = []" "exSealed e0 = []" "exStartupSealed e0 = []"
    "exLog e0 = []" "exCheck e0 = []" "exWal e0 = Some ?w0" "exCfg e0 = unset_config" "\<not> exCheckpointPoisoned e0"
    "exAcc e0 = NewAccumulator k_signer 0 ZeroPrevCheckpointHash"
    using fresh_start [of "''k''" unset_config] assms(2) by auto
  have r: "traceID span_record = ''0a''" "schemaVersion span_record = SchemaVersion" "parentSpanID span_record = []"
    by (simp_all add: SpanToRecord_def plain_span_def)
  show "exp_step e0 e"
    using exp_step.span [of e0 unmarked "plain_span ''0a''" 0] f(9) by (simp add: e_def unset_config_simps)
  have io: "spAppend unmarked = WriteOK" "writes_ok (spSeal unmarked)" "siNow (spSeal unmarked) = 0" "siMark (spSeal unmarked) = WriteFails 0"
    by (simp_all add: unmarked_def writes_ok_def ok_seal_def)
  let ?buf = "buffer_of span_record 0 e0" and ?e = "after_buffering WriteOK span_record 0 e0"
  have buf: "tbRecords ?buf = [(spanID span_record, span_record)]" "tbHasRoot ?buf"
    by (simp_all add: buffer_of_def buffer_record_def new_buffer_def f(3) r(3))
  have e: "e = sealTrace (spSeal unmarked) ''0a'' ?buf 100 ?e"
    using f(4,5) r(1) buf(2) io(1) by (simp add: e_def bufferSpan_def Let_def buffer_of_def after_buffering_def)
  have e': "exSigner ?e = k_signer" "\<not> exLogPoisoned ?e" "exLog ?e = []" using f by (simp_all add: after_buffering_def)
  have "uniform ''0a'' SchemaVersion ?buf" "tbRecords ?buf \<noteq> []" using buf(1) r by (simp_all add: uniform_def)
  from seal_writes_chain [OF e'(1,2) this assms(1) io(2), of 100] obtain les where "sealed_chain k_signer ''0a'' les"
      "map leRecord les = [span_record]" "exLog e = log_file les"
    by (auto simp: e e'(1,3) buf(1) number_lone)
  with lone_chain [OF _ _ assms(1)] show "exLog e = log_file [lone_entry seed]" "sealed_chain k_signer ''0a'' [lone_entry seed]" by auto
  obtain entries where c: "e = cover_trace (spSeal unmarked) ''0a'' entries 100
      (e0\<lparr>exWal := map_option (\<lambda>w. snd (AppendSpan WriteOK ''0a'' span_record w)) (exWal e0), exBuffers := [],
        exSealed := [''0a''], exLog := log_file (ToLogEntries entries)\<rparr>)" "length entries = 1"
    using lone_root_span [OF f(1,2) _ _ _ f(3) r(3) _ io(2), of seed 0 100] assms(1) f(4-6) r by (auto simp: e_def io(1))
  let ?e0 = "e0\<lparr>exWal := Some \<lparr>walContent = Some (wal_file [span_entry (''0a'', span_record)]), walFd = FdOpen\<rparr>, exBuffers := [],
        exSealed := [''0a''], exLog := log_file (ToLogEntries entries)\<rparr>"
  have "e = cover_trace (spSeal unmarked) ''0a'' entries 100 ?e0"
    using c(1) f(8) by (simp add: AppendSpan_def appendEntry_def span_entry_def)
  moreover have "quiet ?e0" using f by (simp add: quiet_def NewAccumulator_def)
  ultimately have "e = ?e0\<lparr>exAcc := AddTip ''0a'' (the (TipHash entries)) 1 (exAcc ?e0), exCompactions := exCompactions ?e0 @ [Scheduled]\<rparr>"
    using unmarked_cover [OF _ _ c(2)] by simp
  then show "exCheck e = []"
    "exWal e = Some \<lparr>walContent = Some (wal_file [span_entry (''0a'', span_record)]), walFd = FdOpen\<rparr>"
    using f(7) by simp_all
qed

section \<open>The second process\<close>

lemma replay_unmarked: "Replay (Content (wal_file [span_entry (''0a'', span_record)])) = Inr ([(''0a'', [span_record])], [])"
proof -
  have "op_fits (OpAppend ''0a'' span_record)" by (rule plain_span_fits) simp
  then have "\<forall>e \<in> set [span_entry (''0a'', span_record)]. valid_wal_entry e \<and> short_entry e"
    by (simp add: op_fits_def good_entry_def span_entry_def)
  note read = read_wal_file [OF this, of "[]"]
  show ?thesis
    using read by (simp add: Replay_def replay_entry_def replay_start_def span_entry_def Let_def)
qed

definition restart_io :: start_io where
  "restart_io = (ok_start ''k'')\<lparr>snOrder := [''0a'']\<rparr>"

lemma restart_replays:
  assumes "d = \<lparr>dkLog = Some (log_file [x]), dkCheck = Some [], dkWal = Some (wal_file [span_entry (''0a'', span_record)]), dkQuarantine = q\<rparr>"
  shows "\<exists>e. Start toy_ed25519 toy_codec restart_io unset_config d = Inr e \<and> exSigner e = k_signer \<and>
    \<not> exLogPoisoned e \<and> exLog e = log_file [x] \<and> exCfg e = unset_config \<and> exCheck e = [] \<and>
    \<not> exCheckpointPoisoned e \<and> exAcc e = NewAccumulator k_signer 0 ZeroPrevCheckpointHash \<and>
    map_of (exBuffers e) ''0a'' = Some \<lparr>tbRecords = [(spanID span_record, span_record)], tbLastSeen = 0, tbHasRoot = True\<rparr>"
proof -
  define L W where "L = log_file [x]" and "W = wal_file [span_entry (''0a'', span_record)]"
  have repair: "repairTrailingPartialLine RepairOK (Some L) = (Inr no_repair, Some L)"
    "repairTrailingPartialLine RepairOK (Some []) = (Inr no_repair, Some [])"
    by (simp_all add: repairTrailingPartialLine_def L_def)
  have scan: "scan_lines n [] = ([], False)" for n by (simp add: scan_lines_def)
  have acc: "resume_accumulator k_signer (Content []) [] = NewAccumulator k_signer 0 ZeroPrevCheckpointHash"
    by (simp add: resume_accumulator_def readLastCheckpoint_def scan map_filter_simps Let_def)
  define b where "b = \<lparr>tbRecords = [(spanID span_record, span_record)], tbLastSeen = 0, tbHasRoot = True\<rparr>"
  have buf: "replay_buffer 0 [span_record] = b" unfolding b_def
    by (simp add: replay_buffer_def SpanToRecord_def plain_span_def)
  have version: "schemaVersion span_record = SchemaVersion" by (simp add: SpanToRecord_def)
  have restamp: "disposition_of (buffer_versions b) = Restamp" "restamp b = b"
    by (simp_all add: b_def buffer_versions_def restamp_def disposition_of_def version RestampableToCurrent_def
        restampableToCurrent_def SchemaVersion_def)
  have io: "snOrder restart_io = [''0a'']" "snKeyFile restart_io = snKeyFile (ok_start ''k'')" "snNow restart_io = 0"
    "snReadCheckpoint restart_io = ReadWhole" "snReplay restart_io = ReadWhole" "snRepairLog restart_io = RepairOK"
    "snRepairCheck restart_io = RepairOK" "snOpenLog restart_io" "snOpenCheck restart_io" "snOpenWal restart_io"
    by (simp_all add: restart_io_def ok_start_def)
  show ?thesis
    unfolding assms L_def [symmetric] W_def [symmetric] b_def [symmetric]
    by (simp add: Start_def io ok_start_key repair fatal_repair_def opened_def Open_def replay_unmarked [folded W_def]
        start_replayed_def replay_trace_def restamp acc buf Let_def)
qed

lemma cover_without_checkpoint:
  assumes "exCfg e = unset_config" and "\<not> exCheckpointPoisoned e" and "length (accPending (exAcc e)) < 50"
  shows "exCheck (cover_trace io t entries 100 e) = exCheck e"
proof -
  let ?a = "AddTip t (the (TipHash entries)) (int (length entries)) (exAcc e)"
  have "TrimPending 1000 ?a = (0, ?a)" using assms(3) by (simp add: TrimPending_def AddTip_def)
  then have tip: "add_tip_step 100 t (the (TipHash entries)) (int (length entries)) e = e\<lparr>exAcc := ?a\<rparr>"
    using assms(1,2) by (simp add: add_tip_step_def unset_config_simps)
  have "\<not> shouldCheckpoint now 100 (e\<lparr>exAcc := ?a\<rparr>)" for now
    using assms(3) by (simp add: shouldCheckpoint_def PendingCount_def AddTip_def)
  then show ?thesis by (simp add: cover_trace_def tip scheduleWALCompact_def Let_def split: option.split prod.split)
qed

lemma twice_in_log:
  assumes "valid_entry x \<and> short_line (MarshalLogEntry x)" and "traceID (leRecord x) = t"
  shows "\<exists>r. VerifyLog ed (Content (log_file [x, x])) (Content []) pub = Inr r \<and>
    Errors r = [verify_error t ''duplicate_trace_segment'' DuplicateSegment SeverityFatal] \<and> StatusLine r = ''Status: FAILED (1 error(s))''"
proof -
  have "FormatUint (Suc 0) = ''1''" by code_simp
  moreover have "log_data_of [x, x] None = ([(t, [x, x])], [t], None)"
    using assms(2) by (simp add: log_data_of_def al_group_def sort_entries_def al_get_def)
  moreover have "readLogEntries (Content (log_file [x, x])) = Inr (log_data_of [x, x] None)"
    using assms(1) by (intro readLogEntries_written) simp
  moreover have "readCheckpoints (Content []) = Inr []"
    by (simp add: readCheckpoints_def scan_lines_def raw_lines_def)
  ultimately show ?thesis
    by (simp add: VerifyLog_def verify_data_def verify_trace_eq trace_errors_def trace_start_def StatusLine_def FatalCount_def
        verify_error_def SeverityFatal_def SeverityAdvisory_def)
qed

text \<open>Had the mark reached the write-ahead log, a restart would read the tip and no span.\<close>

lemma marked_seal:
  assumes "Start toy_ed25519 toy_codec (ok_start ''k'') unset_config empty_disk = Inr e0"
  shows "\<exists>m x. on_restart (plain_root ''0a'' e0) = Some (Inr (m, [x])) \<and> al_get m ''0a'' = []"
proof -
  let ?w0 = "\<lparr>walContent = Some [], walFd = FdOpen\<rparr>"
  have e0: "quiet e0" "exWal e0 = Some ?w0" "exSealed e0 = []"
    using fresh_start [of "''k''" unset_config] assms by (auto simp: quiet_def NewAccumulator_def)
  obtain seed where seed: "GenesisSeedForSchema ''0a'' SchemaVersion = Inr seed" using example_seeds by blast
  obtain s where s: "length s = 32" "exWal (plain_root ''0a'' e0) = Some (fold wal_run (seal_ops ''0a'' s) ?w0)"
    using quiet_root_span [OF e0(1,2) _ _ seed] e0(3) by (auto simp: plain_root_def)
  have w0: "wal_ok ?w0" "wal_view ?w0 = \<lparr>slSpans = [], slTips = []\<rparr>"
    using wal_okI [of "[]"] view_wal_file [of "[]"] by (simp_all add: entries_view_def)
  have fits: "list_all op_fits (seal_ops ''0a'' s)" and hex: "hex_EncodeToString s \<noteq> []"
    using plain_span_fits mark_fits s(1) length_hex_Encode [of s] by force+
  have "wal_ok (fold wal_run (seal_ops ''0a'' s) ?w0)"
      "wal_view (fold wal_run (seal_ops ''0a'' s) ?w0) = \<lparr>slSpans = [], slTips = [digest_tip ''0a'' s]\<rparr>"
    using wal.runs [OF w0(1) fits] hex unfolding w0(2) by auto
  with reads_ok show ?thesis using s(2) by (fastforce simp: on_restart_def reads_as_def same_buffers_def)
qed

text \<open>The tick of the second process seals the trace again.\<close>

lemma sealed_again:
  assumes seed: "GenesisSeedForSchema ''0a'' SchemaVersion = Inr seed"
    and e1: "exSigner e1 = k_signer" "\<not> exLogPoisoned e1" "exLog e1 = log_file [lone_entry seed]" "exCfg e1 = unset_config"
      "exCheck e1 = []" "\<not> exCheckpointPoisoned e1" "exAcc e1 = NewAccumulator k_signer 0 ZeroPrevCheckpointHash"
      "map_of (exBuffers e1) ''0a'' = Some \<lparr>tbRecords = [(spanID span_record, span_record)], tbLastSeen = 0, tbHasRoot = True\<rparr>"
  defines "e2 \<equiv> sweep (\<lambda>_. ok_seal) (effectiveTraceTimeout unset_config) (effectiveTraceTimeout unset_config) [''0a''] e1"
  shows "exLog e2 = log_file ([lone_entry seed] @ [lone_entry seed])" "exCheck e2 = []"
proof -
  let ?x = "lone_entry seed"
  let ?buf = "\<lparr>tbRecords = [(spanID span_record, span_record)], tbLastSeen = 0, tbHasRoot = True\<rparr>"
  have e2: "e2 = sealTrace ok_seal ''0a'' ?buf 100 e1" by (simp add: e2_def sweep_def e1 unset_config_simps)
  have "uniform ''0a'' SchemaVersion ?buf" "tbRecords ?buf \<noteq> []" "writes_ok ok_seal"
    by (simp_all add: uniform_def SpanToRecord_def plain_span_def writes_ok_def ok_seal_def)
  from e1(1,2) this(1,2) seed this(3) obtain entries where c:
      "sealTrace ok_seal ''0a'' ?buf 100 e1 = cover_trace ok_seal ''0a'' entries 100 (e1\<lparr>exBuffers := AList.delete ''0a'' (exBuffers e1),
         exSealed := ''0a'' # exSealed e1, exLog := exLog e1 @ log_file (ToLogEntries entries)\<rparr>)"
      "length entries = length (tbRecords ?buf)" "sealed_chain (exSigner e1) ''0a'' (ToLogEntries entries)"
      "map leRecord (ToLogEntries entries) = number_records (map snd (tbRecords ?buf))"
    by (rule seal_reaches_cover)
  note c = c(1) [folded e2] c(3) [unfolded e1(1)] c(4) [simplified, unfolded number_lone]
  have "ToLogEntries entries = [?x]" by (rule lone_chain [OF c(2,3) seed])
  then show "exLog e2 = log_file ([?x] @ [?x])"
    using cover_frame by (simp add: c(1) same_frame_def e1(3))
  show "exCheck e2 = []"
    using cover_without_checkpoint e1(4-7) by (simp add: c(1) NewAccumulator_def)
qed

text \<open>C37. A trace can be sealed twice, event by event. A fresh exporter takes a lone root span and seals its trace;
  every write succeeds but the mark that the trace is sealed, which does not reach the write-ahead log (the
  process stops before it, or \<open>MarkSealed\<close> fails, which is only logged). The log holds one signed chain and
  verifies, but a restart reads the span and no tip, where it would read the tip and no span had the mark been
  written. The next \<open>Start\<close> on the files that were left puts the span into a buffer again (\<open>e1\<close>), and the tick at
  the trace timeout seals it again (\<open>e2\<close>): the log holds the same chain twice, and the report on it is the fatal
  finding of a duplicate segment for this trace.\<close>

theorem unmarked_seal_is_repeated:
  "\<exists>e0 e e1 e2 les r r'. Start toy_ed25519 toy_codec (ok_start ''k'') unset_config empty_disk = Inr e0 \<and>
     e = bufferSpan unmarked span_record 0 100 e0 \<and> exp_step e0 e \<and>
     exLog e = log_file les \<and> exCheck e = [] \<and> sealed_chain k_signer ''0a'' les \<and>
     VerifyLog toy_ed25519 (Content (exLog e)) (Content (exCheck e)) (ed_public toy_ed25519 ''k'') = Inr r \<and>
     StatusLine r = ''Status: OK'' \<and>
     on_restart e = Some (Inr ([(''0a'', [span_record])], [])) \<and>
     (\<exists>m x. on_restart (bufferSpan ok_span span_record 0 100 e0) = Some (Inr (m, [x])) \<and> al_get m ''0a'' = []) \<and>
     Start toy_ed25519 toy_codec restart_io unset_config (left_by e) = Inr e1 \<and> exLog e1 = exLog e \<and>
     map_option (map snd \<circ> tbRecords) (map_of (exBuffers e1) ''0a'') = Some [span_record] \<and>
     e2 = sweep (\<lambda>_. ok_seal) (effectiveTraceTimeout unset_config) (effectiveTraceTimeout unset_config) [''0a''] e1 \<and>
     exp_step e1 e2 \<and> exLog e2 = log_file (les @ les) \<and> exCheck e2 = [] \<and>
     VerifyLog toy_ed25519 (Content (exLog e2)) (Content (exCheck e2)) (ed_public toy_ed25519 ''k'') = Inr r' \<and>
     Errors r' = [verify_error ''0a'' ''duplicate_trace_segment'' DuplicateSegment SeverityFatal] \<and>
     StatusLine r' = ''Status: FAILED (1 error(s))''"
proof -
  obtain e0 where e0: "Start toy_ed25519 toy_codec (ok_start ''k'') unset_config empty_disk = Inr e0"
    using fresh_start by blast
  obtain seed where seed: "GenesisSeedForSchema ''0a'' SchemaVersion = Inr seed" using example_seeds by blast
  let ?x = "lone_entry seed" and ?timeout = "effectiveTraceTimeout unset_config"
  define e where "e = bufferSpan unmarked span_record 0 100 e0"
  note u = unmarked_seal [OF seed e0, folded e_def]
  have read: "on_restart e = Some (Inr ([(''0a'', [span_record])], []))"
    using u(4) replay_unmarked by (simp add: on_restart_def wal_disk_def)
  have "left_by e = \<lparr>dkLog = Some (log_file [?x]), dkCheck = Some [], dkWal = Some (wal_file [span_entry (''0a'', span_record)]),
      dkQuarantine = Some (exQuarantine e)\<rparr>"
    by (simp add: left_by_def u)
  from restart_replays [OF this] obtain e1 where e1: "Start toy_ed25519 toy_codec restart_io unset_config (left_by e) = Inr e1"
      "exSigner e1 = k_signer" "\<not> exLogPoisoned e1" "exLog e1 = log_file [?x]" "exCfg e1 = unset_config" "exCheck e1 = []"
      "\<not> exCheckpointPoisoned e1" "exAcc e1 = NewAccumulator k_signer 0 ZeroPrevCheckpointHash"
      "map_of (exBuffers e1) ''0a'' = Some \<lparr>tbRecords = [(spanID span_record, span_record)], tbLastSeen = 0, tbHasRoot = True\<rparr>"
    by blast
  define e2 where "e2 = sweep (\<lambda>_. ok_seal) ?timeout ?timeout [''0a''] e1"
  note again = sealed_again [OF seed e1(2-9), folded e2_def]
  have "traceID (leRecord ?x) = ''0a''" by (simp add: lone_entry_def SpanToRecord_def plain_span_def Let_def)
  from twice_in_log [OF lone_entry_fits this] obtain r' where
      "VerifyLog toy_ed25519 (Content (exLog e2)) (Content (exCheck e2)) (ed_public toy_ed25519 ''k'') = Inr r'"
      "Errors r' = [verify_error ''0a'' ''duplicate_trace_segment'' DuplicateSegment SeverityFatal]"
      "StatusLine r' = ''Status: FAILED (1 error(s))''"
    unfolding again append.simps by blast
  moreover obtain r where "VerifyLog toy_ed25519 (Content (exLog e)) (Content (exCheck e)) (ed_public toy_ed25519 ''k'') = Inr r"
      "StatusLine r = ''Status: OK''"
    using lone_log_verifies [OF u(5)] u(1,2) by auto
  moreover have "map_option (map snd \<circ> tbRecords) (map_of (exBuffers e1) ''0a'') = Some [span_record]" by (simp add: e1(9))
  moreover have "exp_step e1 e2" unfolding e2_def by (rule exp_step.tick)
  ultimately show ?thesis
    using e0 e_def e1(1,4) e2_def u(1,2,3,5) again read marked_seal [OF e0, unfolded plain_root_def]
    by (intro exI [of _ e0] exI [of _ e] exI [of _ e1] exI [of _ e2] exI [of _ "[?x]"] exI [of _ r] exI [of _ r']) simp
qed

end
