(* ===== verification/Worker.thy ===== *)
theory Worker
  imports Prelude
begin

text \<open>
  The background goroutine that the exporter and the processor run in the same way: started with a timeout, it
  makes a ticker of half the timeout, selects between the ticker and a stop channel, and closes a done channel
  when it returns. Channels carry no values here, only their being open or closed matters; a panic in
  any goroutine ends the process.
\<close>

section \<open>Channels and tickers\<close>

datatype chan = NilChan | OpenChan | ClosedChan

text \<open>\<open>close(ch)\<close> panics on a nil and on a closed channel: \<open>None\<close>.\<close>

definition close_chan :: "chan \<Rightarrow> chan option" where
  "close_chan ch = (if ch = OpenChan then Some ClosedChan else None)"

text \<open>\<open>time.NewTicker(d)\<close> panics when \<open>d\<close> is not positive.\<close>

definition NewTicker :: "int \<Rightarrow> int option" where
  "NewTicker d = (if 0 < d then Some d else None)"

section \<open>The goroutine\<close>

datatype phase = NotStarted | Spawned int | Ticking int | Exited | Crashed

record worker =
  wkPhase :: phase
  wkStop :: chan
  wkDone :: chan

text \<open>From the \<open>go\<close> statement to the first \<open>select\<close>.\<close>

definition worker_begin :: "worker \<Rightarrow> worker" where
  "worker_begin w =
     (case wkPhase w of
        Spawned timeout \<Rightarrow>
          (case NewTicker (timeout div 2) of
             None \<Rightarrow> w\<lparr>wkPhase := Crashed\<rparr>
           | Some d \<Rightarrow> w\<lparr>wkPhase := Ticking timeout\<rparr>)
      | _ \<Rightarrow> w)"

text \<open>The branch of the \<open>select\<close> for the stop channel, with the deferred \<open>close(doneCh)\<close>.\<close>

definition worker_exit :: "worker \<Rightarrow> worker" where
  "worker_exit w =
     (case wkPhase w of
        Ticking timeout \<Rightarrow>
          if wkStop w = ClosedChan then
            (case close_chan (wkDone w) of
               None \<Rightarrow> w\<lparr>wkPhase := Crashed\<rparr>
             | Some ch \<Rightarrow> w\<lparr>wkPhase := Exited, wkDone := ch\<rparr>)
          else w
      | _ \<Rightarrow> w)"

text \<open>The host closes the stop channel.\<close>

definition worker_stop :: "worker \<Rightarrow> worker" where
  "worker_stop w =
     (case close_chan (wkStop w) of None \<Rightarrow> w\<lparr>wkPhase := Crashed\<rparr> | Some ch \<Rightarrow> w\<lparr>wkStop := ch\<rparr>)"

section \<open>Its protocol\<close>

text \<open>The channels and the phase go together; \<open>t\<close> is the timeout the worker was started with.\<close>

definition worker_ok :: "int \<Rightarrow> worker \<Rightarrow> bool" where
  "worker_ok t w \<longleftrightarrow>
     (case wkPhase w of
        NotStarted \<Rightarrow> wkDone w \<noteq> ClosedChan
      | Spawned s \<Rightarrow> s = t \<and> wkStop w \<noteq> NilChan \<and> wkDone w = OpenChan
      | Ticking s \<Rightarrow> s = t \<and> wkStop w \<noteq> NilChan \<and> wkDone w = OpenChan
      | Exited \<Rightarrow> wkStop w = ClosedChan \<and> wkDone w = ClosedChan
      | Crashed \<Rightarrow> True)"

lemma worker_ok_steps:
  assumes "worker_ok t w"
  shows "worker_ok t (worker_begin w)" "worker_ok t (worker_exit w)" "worker_ok t (worker_stop w)"
  using assms
  by (auto simp: worker_ok_def worker_begin_def worker_exit_def worker_stop_def close_chan_def split: phase.splits option.splits if_splits)

lemma done_means_exited: "worker_ok t w \<Longrightarrow> wkDone w = ClosedChan \<Longrightarrow> wkPhase w = Exited \<or> wkPhase w = Crashed"
  by (auto simp: worker_ok_def split: phase.splits)

text \<open>
  What a component has to promise about the timeout it starts its worker with: then the worker never panics,
  whichever way its steps and the host's interleave, and once it is told to stop it can always do so.
\<close>

locale ticking_worker =
  fixes timeout :: "'cfg \<Rightarrow> int" and accepted_cfg :: "'cfg \<Rightarrow> bool"
  assumes two: "accepted_cfg cfg \<Longrightarrow> 2 \<le> timeout cfg"
begin

lemma ticker_made: "accepted_cfg cfg \<Longrightarrow> NewTicker (timeout cfg div 2) \<noteq> None"
  using two [of cfg] by (simp add: NewTicker_def)

lemma begin_safe:
  assumes "accepted_cfg cfg" and "worker_ok (timeout cfg) w" and "wkPhase w \<noteq> Crashed"
  shows "wkPhase (worker_begin w) \<noteq> Crashed"
  using assms two [OF assms(1)] by (auto simp: worker_begin_def worker_ok_def NewTicker_def split: phase.splits)

lemma exit_safe:
  assumes "worker_ok (timeout cfg) w" and "wkPhase w \<noteq> Crashed"
  shows "wkPhase (worker_exit w) \<noteq> Crashed"
  using assms by (auto simp: worker_exit_def worker_ok_def close_chan_def split: phase.splits)

lemma stops:
  assumes "accepted_cfg cfg" and "worker_ok (timeout cfg) w" and "wkStop w = ClosedChan"
    and "wkPhase w \<in> {Spawned (timeout cfg), Ticking (timeout cfg)}"
  shows "worker_exit (worker_begin w) = w\<lparr>wkPhase := Exited, wkDone := ClosedChan\<rparr>"
  using assms two [OF assms(1)]
  by (auto simp: worker_exit_def worker_begin_def worker_ok_def NewTicker_def close_chan_def split: phase.splits)

end

end
