(* ===== verification/Lifecycle.thy ===== *)
theory Lifecycle
  imports Worker Exporter_Recovery
begin

text \<open>
  The exporter as a running component: the constructor, what \<open>Start\<close> adds to a recovered state (channels and the
  background worker), calls of \<open>ConsumeTraces\<close> that overlap, the worker's ticks, the compaction goroutines, and
  \<open>Shutdown\<close> with its wait for the worker. Each of these is a step on one state, so that every interleaving the
  mutex allows is a run. The host is supposed to keep to the collector's discipline: it starts a component once,
  and hands over no spans once it has called \<open>Shutdown\<close>. A goroutine of compaction that outlives the
  context of \<open>Shutdown\<close> is not followed further.
\<close>

section \<open>The component\<close>

datatype closing = NotCalled | AwaitDone | Returned "shutdown_error list"

record component =
  cmCfg :: Config
  cmExporter :: "exporter option"
  cmWorker :: worker
  cmCalls :: "(int \<times> Span list) list"
  cmClosing :: closing

definition newAgentAuditExporter :: "Config \<Rightarrow> component" where
  "newAgentAuditExporter cfg =
     \<lparr>cmCfg = cfg, cmExporter = None, cmWorker = \<lparr>wkPhase = NotStarted, wkStop = NilChan, wkDone = NilChan\<rparr>,
      cmCalls = [], cmClosing = NotCalled\<rparr>"

text \<open>The constructor the factory hands to the collector; it cannot fail.\<close>

definition createTracesExporter :: "Config \<Rightarrow> component" where
  "createTracesExporter cfg = newAgentAuditExporter cfg"

text \<open>The end of \<open>Start\<close>: two channels and the worker, unless recovery has failed.\<close>

definition start_component :: "ed25519 \<Rightarrow> key_codec \<Rightarrow> start_io \<Rightarrow> disk \<Rightarrow> component \<Rightarrow> (start_error \<times> disk) option \<times> component" where
  "start_component ed kc io d c =
     (case Start ed kc io (cmCfg c) d of
        Inl err \<Rightarrow> (Some err, c)
      | Inr e \<Rightarrow>
          (None, c\<lparr>cmExporter := Some e,
             cmWorker := \<lparr>wkPhase = Spawned (effectiveTraceTimeout (cmCfg c)), wkStop = OpenChan, wkDone = OpenChan\<rparr>\<rparr>))"

text \<open>Steps 1 and 2 of \<open>Shutdown\<close>: nothing to do without a start; otherwise the stop channel is closed.\<close>

definition shutdown_begin :: "component \<Rightarrow> component" where
  "shutdown_begin c =
     (if wkStop (cmWorker c) = NilChan then c\<lparr>cmClosing := Returned []\<rparr>
      else c\<lparr>cmWorker := worker_stop (cmWorker c), cmClosing := AwaitDone\<rparr>)"

text \<open>Steps 3 to 8, once the worker has closed the done channel.\<close>

definition shutdown_finish :: "shutdown_io \<Rightarrow> bytes list \<Rightarrow> (compact_fault \<times> nat) list \<Rightarrow> component \<Rightarrow> component" where
  "shutdown_finish io order waits c =
     (case cmExporter c of
        None \<Rightarrow> c
      | Some e \<Rightarrow>
          (case Shutdown io order waits e of
             (errs, e') \<Rightarrow> c\<lparr>cmExporter := Some e', cmClosing := Returned errs\<rparr>))"

definition panicked :: "component \<Rightarrow> bool" where
  "panicked c \<longleftrightarrow> wkPhase (cmWorker c) = Crashed"

section \<open>Its steps\<close>

inductive live_step :: "component \<Rightarrow> exporter \<Rightarrow> component \<Rightarrow> bool" where
  enter: "wkPhase (cmWorker c) = Spawned t \<Longrightarrow> live_step c e (c\<lparr>cmWorker := worker_begin (cmWorker c)\<rparr>)"
| tick: "wkPhase (cmWorker c) = Ticking t \<Longrightarrow> live_step c e (c\<lparr>cmExporter := Some (sweep ios now t order e)\<rparr>)"
| exit: "wkPhase (cmWorker c) = Ticking t \<Longrightarrow> wkStop (cmWorker c) = ClosedChan \<Longrightarrow>
    live_step c e (c\<lparr>cmWorker := worker_exit (cmWorker c)\<rparr>)"
| call: "cmClosing c = NotCalled \<Longrightarrow> live_step c e (c\<lparr>cmCalls := cmCalls c @ [(now, concat (map concat td))]\<rparr>)"
| span: "cmCalls c = xs @ (now, sp # sps) # ys \<Longrightarrow>
    live_step c e (c\<lparr>cmExporter := Some (bufferSpan io (SpanToRecord sp 0) now (effectiveCheckpointInterval (exCfg e)) e),
      cmCalls := xs @ (now, sps) # ys\<rparr>)"
| return: "cmCalls c = xs @ (now, []) # ys \<Longrightarrow> live_step c e (c\<lparr>cmCalls := xs @ ys\<rparr>)"
| compaction: "live_step c e (c\<lparr>cmExporter := Some (compaction_step fault i e)\<rparr>)"
| shutdown: "cmClosing c = NotCalled \<Longrightarrow> cmCalls c = [] \<Longrightarrow> live_step c e (shutdown_begin c)"
| finish: "cmClosing c = AwaitDone \<Longrightarrow> wkDone (cmWorker c) = ClosedChan \<Longrightarrow>
    live_step c e (shutdown_finish io order waits c)"

text \<open>A step of a started component that has not panicked and whose \<open>Shutdown\<close> has not returned.\<close>

definition component_step :: "component \<Rightarrow> component \<Rightarrow> bool" where
  "component_step c c' \<longleftrightarrow>
     (\<exists>e. cmExporter c = Some e \<and> \<not> panicked c \<and> (\<forall>errs. cmClosing c \<noteq> Returned errs) \<and> live_step c e c')"

inductive_cases live_stepE: "live_step c e c'"

section \<open>Invariant\<close>

text \<open>
  Of every reachable state: the worker is in its protocol; the exporter's state is reached from the recovered
  one by steps of \<open>exp_step\<close>; and once \<open>Shutdown\<close> has returned, it is what \<open>Shutdown\<close> made of such a state.
\<close>

definition component_inv :: "Config \<Rightarrow> exporter \<Rightarrow> component \<Rightarrow> bool" where
  "component_inv cfg e0 c \<longleftrightarrow>
     cmCfg c = cfg \<and> worker_ok (effectiveTraceTimeout cfg) (cmWorker c) \<and> wkPhase (cmWorker c) \<noteq> NotStarted \<and>
     (case cmClosing c of
        NotCalled \<Rightarrow> (\<exists>e. cmExporter c = Some e \<and> exp_step\<^sup>*\<^sup>* e0 e) \<and> wkStop (cmWorker c) = OpenChan
      | AwaitDone \<Rightarrow> (\<exists>e. cmExporter c = Some e \<and> exp_step\<^sup>*\<^sup>* e0 e) \<and> wkStop (cmWorker c) = ClosedChan \<and> cmCalls c = []
      | Returned errs \<Rightarrow> (\<exists>e e' io order waits. cmExporter c = Some e' \<and> exp_step\<^sup>*\<^sup>* e0 e \<and> Shutdown io order waits e = (errs, e')) \<and>
          wkPhase (cmWorker c) = Exited \<and> cmCalls c = [])"

lemma started_inv:
  assumes "start_component ed kc io d (createTracesExporter cfg) = (None, c)"
  obtains e0 where "Start ed kc io cfg d = Inr e0" "component_inv cfg e0 c" "\<not> panicked c" "cmClosing c = NotCalled"
    "cmWorker c = \<lparr>wkPhase = Spawned (effectiveTraceTimeout cfg), wkStop = OpenChan, wkDone = OpenChan\<rparr>"
proof -
  obtain e0 where s: "Start ed kc io cfg d = Inr e0"
      "c = (createTracesExporter cfg)\<lparr>cmExporter := Some e0,
        cmWorker := \<lparr>wkPhase = Spawned (effectiveTraceTimeout cfg), wkStop = OpenChan, wkDone = OpenChan\<rparr>\<rparr>"
    using assms by (auto simp: start_component_def createTracesExporter_def newAgentAuditExporter_def split: sum.splits)
  show thesis
    by (rule that [OF s(1)]) (simp_all add: s(2) createTracesExporter_def newAgentAuditExporter_def component_inv_def worker_ok_def panicked_def)
qed

lemma inv_step:
  assumes "component_step c c'" and "component_inv cfg e0 c"
  shows "component_inv cfg e0 c'"
proof -
  obtain e where e: "cmExporter c = Some e" "\<not> panicked c" "\<forall>errs. cmClosing c \<noteq> Returned errs" "live_step c e c'"
    using assms(1) by (auto simp: component_step_def)
  have run: "exp_step\<^sup>*\<^sup>* e0 e" using assms(2) e(1,3) by (auto simp: component_inv_def split: closing.splits)
  have more: "exp_step e x \<Longrightarrow> exp_step\<^sup>*\<^sup>* e0 x" for x using run by (rule rtranclp.rtrancl_into_rtrancl)
  show ?thesis
    using e(4)
  proof cases
    case (enter t)
    have "worker_ok (effectiveTraceTimeout cfg) (worker_begin (cmWorker c))"
      using assms(2) by (simp add: component_inv_def worker_ok_steps)
    then show ?thesis using assms(2) e(3) enter
      by (auto simp: component_inv_def worker_begin_def split: closing.splits option.splits)
  next
    case (exit t)
    have "worker_ok (effectiveTraceTimeout cfg) (worker_exit (cmWorker c))"
      using assms(2) by (simp add: component_inv_def worker_ok_steps)
    then show ?thesis using assms(2) e(3) exit
      by (auto simp: component_inv_def worker_exit_def split: closing.splits option.splits)
  next
    case shutdown
    have "worker_ok (effectiveTraceTimeout cfg) (worker_stop (cmWorker c))"
      using assms(2) by (simp add: component_inv_def worker_ok_steps)
    then show ?thesis using assms(2) shutdown run e(1)
      by (auto simp: component_inv_def shutdown_begin_def worker_stop_def close_chan_def)
  next
    case (finish io order waits)
    obtain errs e' where s: "Shutdown io order waits e = (errs, e')" by fastforce
    have "wkPhase (cmWorker c) = Exited"
      using assms(2) finish(3) e(2) done_means_exited by (auto simp: component_inv_def panicked_def)
    then show ?thesis using assms(2) finish run e(1) s
      by (auto simp: component_inv_def shutdown_finish_def)
  qed (use assms(2) e(1,3) run more in \<open>auto simp: component_inv_def intro: exp_step.intros split: closing.splits\<close>)
qed

lemma inv_run: "component_step\<^sup>*\<^sup>* c c' \<Longrightarrow> component_inv cfg e0 c \<Longrightarrow> component_inv cfg e0 c'"
  by (induction rule: rtranclp_induct) (auto intro: inv_step)

section \<open>The worker's ticker\<close>

interpretation exporter_worker: ticking_worker effectiveTraceTimeout "\<lambda>cfg. Config_Validate cfg = None \<and> TraceTimeout cfg \<noteq> 1"
  by unfold_locales (auto simp: effectiveTraceTimeout_def)

text \<open>C17. The exporter's worker panics, and with it the collector, exactly when \<open>trace_timeout\<close> is one
  nanosecond, which \<open>Validate\<close> accepts: half of it is zero, and \<open>time.NewTicker\<close> panics on that. With any
  other accepted configuration the first step of the worker makes its ticker.\<close>

theorem ticker_panics_exactly:
  assumes "Config_Validate cfg = None" and "start_component ed kc io d (createTracesExporter cfg) = (None, c)"
  shows "panicked (c\<lparr>cmWorker := worker_begin (cmWorker c)\<rparr>) \<longleftrightarrow> TraceTimeout cfg = 1"
proof -
  obtain e0 where c: "cmWorker c = \<lparr>wkPhase = Spawned (effectiveTraceTimeout cfg), wkStop = OpenChan, wkDone = OpenChan\<rparr>"
    using started_inv [OF assms(2)] by blast
  show ?thesis
  proof (cases "TraceTimeout cfg = 1")
    case True
    then show ?thesis by (simp add: c panicked_def worker_begin_def effectiveTraceTimeout_def NewTicker_def)
  next
    case False
    then show ?thesis using exporter_worker.ticker_made [of cfg] assms(1)
      by (auto simp: c panicked_def worker_begin_def split: option.splits)
  qed
qed

definition hasty_config :: Config where
  "hasty_config = tight_config\<lparr>TraceTimeout := 1\<rparr>"

lemma hasty_accepted: "Config_Validate hasty_config = None"
  using tight_config_simps(1)
  by (simp add: hasty_config_def tight_config_def unset_config_def Config_Validate_def Let_def)

lemma fresh_component:
  "\<exists>c. start_component toy_ed25519 toy_codec (ok_start key) empty_disk (createTracesExporter cfg) = (None, c)"
  using fresh_start [of key cfg] by (auto simp: start_component_def createTracesExporter_def newAgentAuditExporter_def)

theorem ticker_panics_exactly_witness:
  "Config_Validate hasty_config = None \<and>
   (\<exists>c. start_component toy_ed25519 toy_codec (ok_start ''k'') empty_disk (createTracesExporter hasty_config) = (None, c) \<and>
      panicked (c\<lparr>cmWorker := worker_begin (cmWorker c)\<rparr>))"
proof -
  obtain c where c: "start_component toy_ed25519 toy_codec (ok_start ''k'') empty_disk (createTracesExporter hasty_config) = (None, c)"
    using fresh_component by blast
  then show ?thesis using ticker_panics_exactly [OF hasty_accepted c] hasty_accepted by (simp add: hasty_config_def)
qed

section \<open>Shutdown comes to an end\<close>

lemma never_panics:
  assumes "component_step c c'" and "component_inv cfg e0 c" and "\<not> panicked c"
    and "Config_Validate cfg = None \<and> TraceTimeout cfg \<noteq> 1"
  shows "\<not> panicked c'"
proof -
  obtain e where e: "cmExporter c = Some e" "live_step c e c'" "\<forall>errs. cmClosing c \<noteq> Returned errs"
    using assms(1) by (auto simp: component_step_def)
  have w: "worker_ok (effectiveTraceTimeout cfg) (cmWorker c)" "wkPhase (cmWorker c) \<noteq> Crashed"
    using assms(2,3) by (auto simp: component_inv_def panicked_def)
  note safe = exporter_worker.begin_safe [OF assms(4) w] exporter_worker.exit_safe [OF w]
  from e(2) show ?thesis
  proof cases
    case shutdown
    then show ?thesis using assms(2) w(2)
      by (auto simp: panicked_def shutdown_begin_def worker_stop_def close_chan_def component_inv_def)
  next
    case (finish io order waits)
    then show ?thesis using w(2) e(1) by (auto simp: panicked_def shutdown_finish_def split: prod.splits)
  qed (use safe assms(3) in \<open>simp_all add: panicked_def\<close>)
qed

lemma never_panics_run:
  assumes "component_step\<^sup>*\<^sup>* c c'" and "component_inv cfg e0 c" and "\<not> panicked c"
    and "Config_Validate cfg = None \<and> TraceTimeout cfg \<noteq> 1"
  shows "\<not> panicked c'"
  using assms(1)
  by (induction rule: rtranclp_induct) (use assms(2-4) never_panics inv_run in blast)+

text \<open>Calls in progress can be finished, then the worker stopped, then the rest of \<open>Shutdown\<close> done.\<close>

lemma calls_drain:
  assumes "component_inv cfg e0 c" and "\<not> panicked c" and "cmClosing c = NotCalled"
  shows "\<exists>c'. component_step\<^sup>*\<^sup>* c c' \<and> component_inv cfg e0 c' \<and> \<not> panicked c' \<and> cmClosing c' = NotCalled \<and> cmCalls c' = []"
  using assms
proof (induction "sum_list (map (\<lambda>call. Suc (length (snd call))) (cmCalls c))" arbitrary: c rule: less_induct)
  case less
  obtain e where e: "cmExporter c = Some e" using less.prems by (auto simp: component_inv_def)
  let ?size = "\<lambda>x. sum_list (map (\<lambda>call. Suc (length (snd call))) (cmCalls x))"
  have onward: "\<exists>c'. component_step\<^sup>*\<^sup>* c c' \<and> component_inv cfg e0 c' \<and> \<not> panicked c' \<and> cmClosing c' = NotCalled \<and> cmCalls c' = []"
    if "live_step c e x" and "\<not> panicked x" and "cmClosing x = NotCalled" and "?size x < ?size c" for x
  proof -
    note x = that
    have s: "component_step c x" using x(1) e less.prems(2,3) by (simp add: component_step_def)
    then obtain c' where "component_step\<^sup>*\<^sup>* x c'" "component_inv cfg e0 c'" "\<not> panicked c'" "cmClosing c' = NotCalled" "cmCalls c' = []"
      using less.hyps [OF x(4) inv_step [OF s less.prems(1)] x(2,3)] by blast
    then show ?thesis using s by (meson converse_rtranclp_into_rtranclp)
  qed
  show ?case
  proof (cases "cmCalls c")
    case Nil
    then show ?thesis using less.prems by blast
  next
    case (Cons call calls)
    obtain now sps where call: "call = (now, sps)" by (cases call)
    show ?thesis
    proof (cases sps)
      case Nil
      have "live_step c e (c\<lparr>cmCalls := [] @ calls\<rparr>)"
        by (rule live_step.return [of _ _ now]) (simp add: Cons call Nil)
      from onward [OF this] show ?thesis using less.prems by (simp add: panicked_def Cons)
    next
      case (Cons sp rest)
      let ?x = "c\<lparr>cmExporter := Some (bufferSpan undefined (SpanToRecord sp 0) now (effectiveCheckpointInterval (exCfg e)) e),
          cmCalls := [] @ (now, rest) # calls\<rparr>"
      have "live_step c e ?x"
        by (rule live_step.span) (simp add: \<open>cmCalls c = call # calls\<close> call Cons)
      from onward [OF this] show ?thesis using less.prems \<open>cmCalls c = call # calls\<close> by (simp add: panicked_def call Cons)
    qed
  qed
qed

lemma worker_stops:
  assumes "component_inv cfg e0 c" and "\<not> panicked c" and "cmClosing c = AwaitDone"
    and "Config_Validate cfg = None \<and> TraceTimeout cfg \<noteq> 1"
  shows "\<exists>c' errs. component_step\<^sup>*\<^sup>* c c' \<and> cmClosing c' = Returned errs"
proof -
  obtain e where e: "cmExporter c = Some e" using assms(1,3) by (auto simp: component_inv_def)
  have w: "worker_ok (effectiveTraceTimeout cfg) (cmWorker c)" "wkStop (cmWorker c) = ClosedChan"
    "wkPhase (cmWorker c) \<noteq> NotStarted" using assms(1,3) by (auto simp: component_inv_def)
  have finish: "\<exists>x' errs. component_step x x' \<and> cmClosing x' = Returned errs"
    if "cmExporter x = Some e" "\<not> panicked x" "cmClosing x = AwaitDone" "wkDone (cmWorker x) = ClosedChan" for x
  proof -
    have "live_step x e (shutdown_finish undefined [] [] x)" by (rule live_step.finish) (use that in auto)
    moreover obtain errs e' where "Shutdown undefined [] [] e = (errs, e')" by fastforce
    ultimately show ?thesis using that(1-3)
      by (intro exI [of _ "shutdown_finish undefined [] [] x"] exI [of _ errs]) (simp add: component_step_def shutdown_finish_def)
  qed
  have exit: "\<exists>x' errs. component_step\<^sup>*\<^sup>* x x' \<and> cmClosing x' = Returned errs"
    if x: "x = c\<lparr>cmWorker := v\<rparr>" "wkPhase v = Ticking (effectiveTraceTimeout cfg)" "wkStop v = ClosedChan" "wkDone v = OpenChan" for x v
  proof -
    let ?y = "x\<lparr>cmWorker := worker_exit (cmWorker x)\<rparr>"
    have "live_step x e ?y" by (rule live_step.exit) (use x in auto)
    then have s: "component_step x ?y" using x e assms(3) by (simp add: component_step_def panicked_def)
    have "worker_exit v = v\<lparr>wkPhase := Exited, wkDone := ClosedChan\<rparr>" using x by (simp add: worker_exit_def close_chan_def)
    then obtain x' errs where "component_step ?y x'" "cmClosing x' = Returned errs"
      using finish [of ?y] x(1) e assms(3) by (auto simp: panicked_def)
    then show ?thesis using s by (meson converse_rtranclp_into_rtranclp r_into_rtranclp)
  qed
  consider "wkPhase (cmWorker c) = Spawned (effectiveTraceTimeout cfg)" "wkDone (cmWorker c) = OpenChan"
    | "wkPhase (cmWorker c) = Ticking (effectiveTraceTimeout cfg)" "wkDone (cmWorker c) = OpenChan"
    | "wkDone (cmWorker c) = ClosedChan"
    using w assms(2) by (cases "wkPhase (cmWorker c)") (auto simp: worker_ok_def panicked_def)
  then show ?thesis
  proof cases
    case 1
    let ?x = "c\<lparr>cmWorker := worker_begin (cmWorker c)\<rparr>"
    have b: "worker_begin (cmWorker c) = (cmWorker c)\<lparr>wkPhase := Ticking (effectiveTraceTimeout cfg)\<rparr>"
      using 1 exporter_worker.ticker_made [OF assms(4)] by (auto simp: worker_begin_def split: option.splits)
    have "live_step c e ?x" by (rule live_step.enter) (use 1 in auto)
    then have "component_step c ?x" using e assms(2,3) by (simp add: component_step_def)
    moreover obtain x' errs where "component_step\<^sup>*\<^sup>* ?x x'" "cmClosing x' = Returned errs"
      using exit [OF refl, of "worker_begin (cmWorker c)"] w(2) 1 by (auto simp: b)
    ultimately show ?thesis by (meson converse_rtranclp_into_rtranclp)
  next
    case 2
    have "c = c\<lparr>cmWorker := cmWorker c\<rparr>" by simp
    from exit [OF this] 2 w(2) show ?thesis by blast
  next
    case 3
    from finish [OF e assms(2,3) 3] show ?thesis by blast
  qed
qed

lemma returns:
  assumes "component_inv cfg e0 c" and "\<not> panicked c" and "Config_Validate cfg = None \<and> TraceTimeout cfg \<noteq> 1"
  shows "\<exists>c' errs. component_step\<^sup>*\<^sup>* c c' \<and> cmClosing c' = Returned errs"
proof (cases "cmClosing c")
  case NotCalled
  obtain x where x: "component_step\<^sup>*\<^sup>* c x" "component_inv cfg e0 x" "\<not> panicked x" "cmClosing x = NotCalled" "cmCalls x = []"
    using calls_drain [OF assms(1,2) NotCalled] by blast
  obtain e where e: "cmExporter x = Some e" "wkStop (cmWorker x) = OpenChan" using x(2,4) by (auto simp: component_inv_def)
  have "live_step x e (shutdown_begin x)" by (rule live_step.shutdown) (use x in auto)
  then have y: "component_step x (shutdown_begin x)" using e x(3,4) by (simp add: component_step_def)
  have "cmClosing (shutdown_begin x) = AwaitDone" using e(2) by (simp add: shutdown_begin_def)
  from worker_stops [OF inv_step [OF y x(2)] never_panics [OF y x(2,3) assms(3)] this assms(3)] obtain c' errs where
      "component_step\<^sup>*\<^sup>* (shutdown_begin x) c'" "cmClosing c' = Returned errs" by blast
  then show ?thesis using x(1) y by (meson converse_rtranclp_into_rtranclp rtranclp_trans)
next
  case AwaitDone
  from worker_stops [OF assms(1,2) AwaitDone assms(3)] show ?thesis .
next
  case (Returned errs)
  then show ?thesis by blast
qed

text \<open>C16. \<open>Shutdown\<close> always returns: from every state that calls, ticks, compactions and a call of \<open>Shutdown\<close> can
  lead to, in any order, the calls in progress can be finished, \<open>Shutdown\<close> called unless it has been, the worker
  stopped and the wait for it ended; no step on the way panics. The configuration is one that
  \<open>Validate\<close> accepts and whose \<open>trace_timeout\<close> is not the one nanosecond of \<open>ticker_panics_exactly\<close>.\<close>

theorem shutdown_returns:
  assumes "Config_Validate cfg = None" and "TraceTimeout cfg \<noteq> 1"
    and "start_component ed kc io d (createTracesExporter cfg) = (None, c0)" and "component_step\<^sup>*\<^sup>* c0 c"
  shows "\<not> panicked c \<and> (\<exists>c' errs. component_step\<^sup>*\<^sup>* c c' \<and> cmClosing c' = Returned errs)"
proof -
  have ok: "Config_Validate cfg = None \<and> TraceTimeout cfg \<noteq> 1" using assms(1,2) by simp
  obtain e0 where s: "component_inv cfg e0 c0" "\<not> panicked c0" using started_inv [OF assms(3)] by blast
  have i: "component_inv cfg e0 c" "\<not> panicked c"
    using inv_run [OF assms(4) s(1)] never_panics_run [OF assms(4) s ok] by auto
  from returns [OF i ok] i(2) show ?thesis by blast
qed

theorem shutdown_returns_witness:
  "\<exists>c0 c' errs. start_component toy_ed25519 toy_codec (ok_start ''k'') empty_disk (createTracesExporter tight_config) = (None, c0) \<and>
     component_step\<^sup>*\<^sup>* c0 c' \<and> cmClosing c' = Returned errs"
proof -
  obtain c0 where c0: "start_component toy_ed25519 toy_codec (ok_start ''k'') empty_disk (createTracesExporter tight_config) = (None, c0)"
    using fresh_component by blast
  have "TraceTimeout tight_config \<noteq> 1" by (simp add: tight_config_def unset_config_def)
  from shutdown_returns [OF tight_config_simps(1) this c0, of c0] c0 show ?thesis by blast
qed

section \<open>The files of a running component\<close>

text \<open>What \<open>Shutdown\<close> leaves in the files is what steps of \<open>exp_step\<close> lead to: closing only compacts the
  write-ahead log.\<close>

lemma close_files:
  assumes "shutdown_close io e = (errs, e')"
  shows "exLog e' = exLog e \<and> exCheck e' = exCheck e \<and> exLogPoisoned e' = exLogPoisoned e \<and> exCheckpointPoisoned e' = exCheckpointPoisoned e"
  using assms by (auto simp: shutdown_close_def Let_def split: option.splits prod.splits)

lemma waits_run: "exp_step\<^sup>*\<^sup>* e (fold (\<lambda>(fault, i). compaction_step fault i) waits e)"
  by (induction waits arbitrary: e) (auto intro: converse_rtranclp_into_rtranclp exp_step.compaction)

lemma shutdown_files:
  assumes "Shutdown io order waits e = (errs, e')"
  obtains x where "exp_step\<^sup>*\<^sup>* e x" "exLog e' = exLog x" "exCheck e' = exCheck x"
    "exLogPoisoned e' = exLogPoisoned x" "exCheckpointPoisoned e' = exCheckpointPoisoned x"
proof -
  let ?y = "snd (shutdown_locked io order e)"
  let ?x = "fold (\<lambda>(fault, i). compaction_step fault i) waits ?y"
  have "exp_step\<^sup>*\<^sup>* e ?x" using exp_step.shutdown waits_run by (rule converse_rtranclp_into_rtranclp)
  moreover obtain errs' where "shutdown_close io ?x = (errs', e')"
    using assms by (auto simp: Shutdown_def split: prod.splits)
  ultimately show thesis using that close_files by blast
qed

text \<open>C1. The files of the running exporter verify. Take the files of earlier processes (whole chains \<open>cs0\<close>, their
  checkpoints \<open>cks0\<close>, a write-ahead log that belongs to them, or no files at all), and let \<open>Start\<close> be able to
  read the checkpoint file. However calls of \<open>ConsumeTraces\<close>, ticks of the worker, compaction goroutines and
  \<open>Shutdown\<close> interleave after it, whether \<open>Shutdown\<close> has returned yet or not, and with any writes cut short and any
  failing \<open>Seek\<close>, \<open>Sync\<close> or \<open>Truncate\<close>: the log is the chains \<open>cs0\<close> and new ones after them, each the chain
  that \<open>BuildChain\<close> makes, with the key of the exporter, of records of one trace numbered from zero on
  (\<open>seal_is_all_or_nothing\<close>: all that its buffer held); the checkpoint
  file is \<open>cks0\<close> and new checkpoints after them, in one sequence that is linked from the zero hash on, numbered without
  a gap and signed, and every tip they cover is the tip of one of the chains in the log, with its length. Anything
  else only follows once the file is poisoned. If moreover no trace was sealed twice, every string is valid
  UTF-8 and every line is below the line limit, \<open>VerifyLog\<close> finds nothing wrong with what was written and counts
  every chain and checkpoint.\<close>

theorem component_files_verify:
  assumes "ed25519_correct ed" and "LoadEd25519PrivateKeyPEM kc (snKeyFile io) = Inr priv"
    and "files_hold (NewEd25519Signer ed priv) cs0 cks0 d" and "wal_sound cs0 (wal_entries (opened (dkWal d)))"
    and "snReadCheckpoint io = ReadWhole"
    and "start_component ed kc io d (createTracesExporter cfg) = (None, c0)" and "component_step\<^sup>*\<^sup>* c0 c"
  shows "\<exists>e. cmExporter c = Some e \<and> (\<exists>cs cks rest rest'. let les = concat (map snd (cs0 @ cs)) in
    exLog e = log_file les @ rest \<and> (\<not> exLogPoisoned e \<longrightarrow> rest = []) \<and>
    exCheck e = checkpoint_file (cks0 @ cks) @ rest' \<and> (\<not> exCheckpointPoisoned e \<longrightarrow> rest' = []) \<and>
    (\<forall>(t, les) \<in> set (cs0 @ cs). sealed_chain (NewEd25519Signer ed priv) t les) \<and>
    checkpoint_chain (NewEd25519Signer ed priv) (cks0 @ cks) \<and>
    (\<forall>x \<in> set (covered_tips (cks0 @ cks)). tip_in (cs0 @ cs) x) \<and>
    (distinct (map fst (cs0 @ cs)) \<and> writable les (cks0 @ cks) \<longrightarrow>
       (\<exists>r. VerifyLog ed (Content (log_file les)) (Content (checkpoint_file (cks0 @ cks))) (ed_public ed priv) = Inr r \<and>
          StatusLine r = ''Status: OK'' \<and> TracesProcessed r = length (cs0 @ cs) \<and>
          CheckpointsProcessed r = length (cks0 @ cks))))"
proof -
  obtain e0 where e0: "Start ed kc io cfg d = Inr e0" "component_inv cfg e0 c0" using started_inv [OF assms(6)] by blast
  have inv: "component_inv cfg e0 c" using inv_run [OF assms(7) e0(2)] .
  obtain e x where e: "cmExporter c = Some e" "exp_step\<^sup>*\<^sup>* e0 x" "exLog e = exLog x" "exCheck e = exCheck x"
    "exLogPoisoned e = exLogPoisoned x" "exCheckpointPoisoned e = exCheckpointPoisoned x"
  proof (cases "cmClosing c")
    case (Returned errs)
    then obtain y e io order waits where y: "cmExporter c = Some e" "exp_step\<^sup>*\<^sup>* e0 y" "Shutdown io order waits y = (errs, e)"
      using inv by (auto simp: component_inv_def)
    show thesis by (rule shutdown_files [OF y(3)]) (use y(1,2) in \<open>blast intro: that rtranclp_trans\<close>)
  qed (use inv that in \<open>auto simp: component_inv_def\<close>)
  from exporter_files_verify [OF assms(1-5) e0(1) e(2)] show ?thesis
    unfolding e(3-6) [symmetric] using e(1) by blast
qed

theorem component_files_verify_witness:
  "\<exists>c0 c errs e. start_component toy_ed25519 toy_codec (ok_start ''k'') empty_disk (createTracesExporter tight_config) = (None, c0) \<and>
     component_step\<^sup>*\<^sup>* c0 c \<and> cmClosing c = Returned errs \<and> cmExporter c = Some e \<and>
     (\<exists>cs cks rest rest'.
        exLog e = log_file (concat (map snd cs)) @ rest \<and> (\<not> exLogPoisoned e \<longrightarrow> rest = []) \<and>
        exCheck e = checkpoint_file cks @ rest' \<and> (\<not> exCheckpointPoisoned e \<longrightarrow> rest' = []) \<and>
        (\<forall>(t, les) \<in> set cs. sealed_chain (NewEd25519Signer toy_ed25519 ''k'') t les) \<and>
        checkpoint_chain (NewEd25519Signer toy_ed25519 ''k'') cks \<and> (\<forall>x \<in> set (covered_tips cks). tip_in cs x))"
proof -
  let ?td = "[[[example_span]]]"
  obtain c0 where c0: "start_component toy_ed25519 toy_codec (ok_start ''k'') empty_disk (createTracesExporter tight_config) = (None, c0)"
    using fresh_component by blast
  obtain e0 where s: "component_inv tight_config e0 c0" "\<not> panicked c0" "cmClosing c0 = NotCalled"
    using started_inv [OF c0] by blast
  obtain e1 where e1: "cmExporter c0 = Some e1" using s(1,3) by (auto simp: component_inv_def)
  let ?c1 = "c0\<lparr>cmCalls := cmCalls c0 @ [(0, concat (map concat ?td))]\<rparr>"
  have "live_step c0 e1 ?c1" by (rule live_step.call) (rule s(3))
  then have 1: "component_step c0 ?c1" using e1 s by (simp add: component_step_def)
  let ?c2 = "?c1\<lparr>cmExporter := Some (bufferSpan \<lparr>spAppend = WriteOK, spSeal = ok_seal\<rparr> (SpanToRecord example_span 0) 0 (effectiveCheckpointInterval (exCfg e1)) e1),
      cmCalls := cmCalls c0 @ (0, []) # []\<rparr>"
  have "live_step ?c1 e1 ?c2" by (rule live_step.span) simp
  then have 2: "component_step ?c1 ?c2" using e1 s by (simp add: component_step_def panicked_def)
  have to2: "component_step\<^sup>*\<^sup>* c0 ?c2" using 1 2 by (meson converse_rtranclp_into_rtranclp r_into_rtranclp)
  have "Config_Validate tight_config = None \<and> TraceTimeout tight_config \<noteq> 1"
    using tight_config_simps(1) by (simp add: tight_config_def unset_config_def)
  from returns [OF inv_run [OF to2 s(1)] never_panics_run [OF to2 s(1,2) this] this] obtain c errs where
      "component_step\<^sup>*\<^sup>* ?c2 c" "cmClosing c = Returned errs" by blast
  with to2 have c: "component_step\<^sup>*\<^sup>* c0 c" "cmClosing c = Returned errs" by auto
  from component_files_verify [OF toy_ed25519_correct ok_start_key empty_disk_holds ok_start_fields(9) c0 c(1)] c0 c
  show ?thesis unfolding Let_def append_Nil by blast
qed

section \<open>A second call of Shutdown\<close>

text \<open>C40. The guard of \<open>Shutdown\<close> only recognises a component that was never started, for which any number of calls
  does nothing and returns no error. After \<open>Start\<close>, in every state that calls, ticks, compactions and
  \<open>Shutdown\<close> can lead to, the first call closes the stop channel and waits for the worker, and any call after it,
  whether the first has returned (with the files closed and set to nil, as if it could be called again) or is
  still waiting, closes the channel again, which panics.\<close>

theorem second_shutdown_panics:
  assumes "start_component ed kc io d (createTracesExporter cfg) = (None, c0)" and "component_step\<^sup>*\<^sup>* c0 c"
    and "\<not> panicked c"
  shows "(cmClosing c = NotCalled \<longrightarrow>
       \<not> panicked (shutdown_begin c) \<and> cmClosing (shutdown_begin c) = AwaitDone \<and> wkStop (cmWorker (shutdown_begin c)) = ClosedChan) \<and>
     (cmClosing c \<noteq> NotCalled \<longrightarrow> panicked (shutdown_begin c)) \<and>
     (\<forall>n. (shutdown_begin ^^ Suc n) (createTracesExporter cfg) = (createTracesExporter cfg)\<lparr>cmClosing := Returned []\<rparr>)"
proof (intro conjI impI allI)
  obtain e0 where e0: "component_inv cfg e0 c0" using started_inv [OF assms(1)] by blast
  note inv = inv_run [OF assms(2) e0]
  show "panicked (shutdown_begin c)" if "cmClosing c \<noteq> NotCalled"
  proof -
    have "wkStop (cmWorker c) = ClosedChan"
      using inv that by (auto simp: component_inv_def worker_ok_def split: closing.splits)
    then show ?thesis by (simp add: panicked_def shutdown_begin_def worker_stop_def close_chan_def)
  qed
  assume "cmClosing c = NotCalled"
  then have "wkStop (cmWorker c) = OpenChan" using inv by (auto simp: component_inv_def)
  then show "\<not> panicked (shutdown_begin c)" "cmClosing (shutdown_begin c) = AwaitDone" "wkStop (cmWorker (shutdown_begin c)) = ClosedChan"
    using assms(3) by (simp_all add: panicked_def shutdown_begin_def worker_stop_def close_chan_def)
next
  fix n
  have "wkStop (cmWorker (createTracesExporter cfg)) = NilChan"
    by (simp add: createTracesExporter_def newAgentAuditExporter_def)
  then show "(shutdown_begin ^^ Suc n) (createTracesExporter cfg) = (createTracesExporter cfg)\<lparr>cmClosing := Returned []\<rparr>"
    by (induction n) (simp_all add: shutdown_begin_def)
qed

theorem second_shutdown_panics_witness:
  "\<exists>c0 c errs. start_component toy_ed25519 toy_codec (ok_start ''k'') empty_disk (createTracesExporter tight_config) = (None, c0) \<and>
     component_step\<^sup>*\<^sup>* c0 c \<and> cmClosing c = Returned errs \<and> panicked (shutdown_begin c) \<and> \<not> panicked (shutdown_begin c0)"
proof -
  obtain c0 where c0: "start_component toy_ed25519 toy_codec (ok_start ''k'') empty_disk (createTracesExporter tight_config) = (None, c0)"
    using fresh_component by blast
  obtain e0 where s: "component_inv tight_config e0 c0" "\<not> panicked c0" "cmClosing c0 = NotCalled"
    using started_inv [OF c0] by blast
  have ok: "Config_Validate tight_config = None \<and> TraceTimeout tight_config \<noteq> 1"
    using tight_config_simps(1) by (simp add: tight_config_def unset_config_def)
  from returns [OF s(1,2) ok] obtain c errs where c: "component_step\<^sup>*\<^sup>* c0 c" "cmClosing c = Returned errs" by blast
  have "\<not> panicked c" using never_panics_run [OF c(1) s(1,2) ok] .
  with second_shutdown_panics [OF c0 c(1)] c(2) have "panicked (shutdown_begin c)" by simp
  moreover have "\<not> panicked (shutdown_begin c0)" using second_shutdown_panics [OF c0 rtranclp.rtrancl_refl s(2)] s(3) by simp
  ultimately show ?thesis using c0 c by blast
qed

end
