(* ===== verification/Select.thy ===== *)
theory Select
  imports Cli "HOL-Library.AList" "HOL-Library.Multiset"
begin

text \<open>
  The processor \<open>agentauditselect\<close>: it holds the spans of a trace until its root arrives or a timeout
  passes, and forwards each trace in a call of its own. The attribute values of pdata and their
  \<open>AsString\<close> are parameters, and so is the table of printable characters behind \<open>%q\<close>. The next consumer's
  answers and the order in which Go ranges over a map are arguments; times are nanoseconds.
\<close>

section \<open>Traces\<close>

record 'v ScopeSpans =
  ssSchemaUrl :: bytes
  ssName :: bytes
  ssVersion :: bytes
  ssAttrs :: "(bytes \<times> 'v) list"
  ssSpans :: "Span list"

record 'v ResourceSpans =
  rsSchemaUrl :: bytes
  rsAttrs :: "(bytes \<times> 'v) list"
  rsScopes :: "'v ScopeSpans list"

type_synonym 'v traces = "'v ResourceSpans list"

record 'v pdata =
  pdAsString :: "'v \<Rightarrow> bytes"
  pdIsPrint :: "nat \<Rightarrow> bool"

record 'v capturedSpan =
  csResourceAttrs :: "(bytes \<times> 'v) list"
  csResourceSchemaURL :: bytes
  csScopeName :: bytes
  csScopeVersion :: bytes
  csScopeSchemaURL :: bytes
  csScopeAttrs :: "(bytes \<times> 'v) list"
  csSpan :: Span

record 'v selBuffer =
  sbSpans :: "'v capturedSpan list"
  sbLastSeen :: int

record 'v selector =
  prBuffers :: "(bytes \<times> 'v selBuffer) list"
  prEmitted :: "(bytes \<times> int) list"

definition capture :: "'v ResourceSpans \<Rightarrow> 'v ScopeSpans \<Rightarrow> Span \<Rightarrow> 'v capturedSpan" where
  "capture rs ss span =
     \<lparr>csResourceAttrs = rsAttrs rs, csResourceSchemaURL = rsSchemaUrl rs, csScopeName = ssName ss,
      csScopeVersion = ssVersion ss, csScopeSchemaURL = ssSchemaUrl ss, csScopeAttrs = ssAttrs ss, csSpan = span\<rparr>"

section \<open>Keys\<close>

text \<open>\<open>%q\<close> of a string: \<open>strconv.Quote\<close>, which keeps the printable characters.\<close>

function quote_printable :: "(nat \<Rightarrow> bool) \<Rightarrow> bytes \<Rightarrow> bytes" where
  "quote_printable p [] = []"
| "quote_printable p (c # s) =
     (let w = utf8_width (c # s);
          r = rune_value (take w (c # s))
      in if w = 0 then BSL # ''x'' @ hex_digits 2 (byte c) @ quote_printable p s
         else (if r \<noteq> 34 \<and> r \<noteq> 92 \<and> 128 \<le> r \<and> p r then take w (c # s) else escape_rune r) @
           quote_printable p (drop (w - 1) s))"
  by pat_completeness auto
termination by (relation "measure (\<lambda>(p, s). length s)") auto

definition Quote :: "(nat \<Rightarrow> bool) \<Rightarrow> bytes \<Rightarrow> bytes" where
  "Quote p s = DQ # quote_printable p s @ [DQ]"

definition attrsMapKey :: "'v pdata \<Rightarrow> (bytes \<times> 'v) list \<Rightarrow> bytes" where
  "attrsMapKey pd attrs =
     (case sort (map (\<lambda>(k, v). Quote (pdIsPrint pd) k @ ''='' @ Quote (pdIsPrint pd) (pdAsString pd v)) attrs) of
        [] \<Rightarrow> []
      | x # xs \<Rightarrow> x @ concat (map (\<lambda>y. CHR 0x01 # y) xs))"

definition resourceAttrsKey :: "'v pdata \<Rightarrow> (bytes \<times> 'v) list \<Rightarrow> bytes \<Rightarrow> bytes" where
  "resourceAttrsKey pd attrs schemaURL = schemaURL @ CHR 0x00 # attrsMapKey pd attrs"

type_synonym scopeKey = "bytes \<times> bytes \<times> bytes \<times> bytes"

definition resource_key :: "'v pdata \<Rightarrow> 'v capturedSpan \<Rightarrow> bytes" where
  "resource_key pd cs = resourceAttrsKey pd (csResourceAttrs cs) (csResourceSchemaURL cs)"

definition scope_key :: "'v pdata \<Rightarrow> 'v capturedSpan \<Rightarrow> scopeKey" where
  "scope_key pd cs = (csScopeSchemaURL cs, csScopeName cs, csScopeVersion cs, attrsMapKey pd (csScopeAttrs cs))"

section \<open>buildTraces\<close>

text \<open>The maps from keys to entries are lists in the order in which the entries were appended.\<close>

fun put_scope :: "scopeKey \<Rightarrow> 'v capturedSpan \<Rightarrow> (scopeKey \<times> 'v ScopeSpans) list \<Rightarrow> (scopeKey \<times> 'v ScopeSpans) list" where
  "put_scope k cs [] =
     [(k, \<lparr>ssSchemaUrl = csScopeSchemaURL cs, ssName = csScopeName cs, ssVersion = csScopeVersion cs,
           ssAttrs = csScopeAttrs cs, ssSpans = [csSpan cs]\<rparr>)]"
| "put_scope k cs ((k', ss) # rest) =
     (if k' = k then (k', ss\<lparr>ssSpans := ssSpans ss @ [csSpan cs]\<rparr>) # rest else (k', ss) # put_scope k cs rest)"

type_synonym 'v rsEntry = "bytes \<times> (bytes \<times> (bytes \<times> 'v) list) \<times> (scopeKey \<times> 'v ScopeSpans) list"

fun put_span :: "bytes \<Rightarrow> scopeKey \<Rightarrow> 'v capturedSpan \<Rightarrow> 'v rsEntry list \<Rightarrow> 'v rsEntry list" where
  "put_span rk sk cs [] = [(rk, (csResourceSchemaURL cs, csResourceAttrs cs), put_scope sk cs [])]"
| "put_span rk sk cs ((rk', res, scs) # rest) =
     (if rk' = rk then (rk', res, put_scope sk cs scs) # rest else (rk', res, scs) # put_span rk sk cs rest)"

definition group_spans :: "'v pdata \<Rightarrow> 'v capturedSpan list \<Rightarrow> 'v rsEntry list" where
  "group_spans pd spans = fold (\<lambda>cs. put_span (resource_key pd cs) (scope_key pd cs) cs) spans []"

definition buildTraces :: "'v pdata \<Rightarrow> 'v selBuffer \<Rightarrow> 'v traces" where
  "buildTraces pd buf =
     map (\<lambda>(rk, (url, attrs), scs). \<lparr>rsSchemaUrl = url, rsAttrs = attrs, rsScopes = map snd scs\<rparr>)
       (group_spans pd (sbSpans buf))"

definition buildSingleSpanTraces :: "'v ResourceSpans \<Rightarrow> 'v ScopeSpans \<Rightarrow> Span \<Rightarrow> 'v traces" where
  "buildSingleSpanTraces rs ss span =
     [\<lparr>rsSchemaUrl = rsSchemaUrl rs, rsAttrs = rsAttrs rs,
       rsScopes = [\<lparr>ssSchemaUrl = ssSchemaUrl ss, ssName = ssName ss, ssVersion = ssVersion ss,
                    ssAttrs = ssAttrs ss, ssSpans = [span]\<rparr>]\<rparr>]"

section \<open>ConsumeTraces, the sweep and Shutdown\<close>

text \<open>The spans of a batch with their resource and scope, in the order of the three loops.\<close>

definition flatten :: "'v traces \<Rightarrow> ('v ResourceSpans \<times> 'v ScopeSpans \<times> Span) list" where
  "flatten td = concat (map (\<lambda>rs. concat (map (\<lambda>ss. map (\<lambda>s. (rs, ss, s)) (ssSpans ss)) (rsScopes rs))) td)"

definition select_span ::
  "int \<Rightarrow> 'v ResourceSpans \<times> 'v ScopeSpans \<times> Span \<Rightarrow> 'v selector \<times> 'v traces list \<times> bytes list \<Rightarrow>
     'v selector \<times> 'v traces list \<times> bytes list" where
  "select_span now x st =
     (case (x, st) of ((rs, ss, span), (p, passThrough, rootSeen)) \<Rightarrow>
        let trace = spanTraceID span in
        if map_of (prEmitted p) trace \<noteq> None then (p, passThrough @ [buildSingleSpanTraces rs ss span], rootSeen)
        else
          let buf = (case map_of (prBuffers p) trace of Some b \<Rightarrow> b | None \<Rightarrow> \<lparr>sbSpans = [], sbLastSeen = now\<rparr>);
              buf' = buf\<lparr>sbSpans := sbSpans buf @ [capture rs ss span], sbLastSeen := now\<rparr>
          in (p\<lparr>prBuffers := AList.update trace buf' (prBuffers p)\<rparr>, passThrough,
              if spanParentSpanID span = [] then trace # rootSeen else rootSeen))"

text \<open>A trace leaves its buffer, is marked as emitted, and joins the traces to be forwarded.\<close>

definition take_trace :: "'v pdata \<Rightarrow> int \<Rightarrow> bytes \<Rightarrow> 'v selector \<times> 'v traces list \<Rightarrow> 'v selector \<times> 'v traces list" where
  "take_trace pd now trace st =
     (case st of (p, out) \<Rightarrow>
        (case map_of (prBuffers p) trace of
           None \<Rightarrow> (p, out)
         | Some buf \<Rightarrow> (p\<lparr>prBuffers := AList.delete trace (prBuffers p), prEmitted := AList.update trace now (prEmitted p)\<rparr>,
                       out @ [buildTraces pd buf])))"

text \<open>The calls of the next consumer, stopping at the first error: what it accepted, and whether all were.\<close>

fun send :: "bool list \<Rightarrow> 'v traces list \<Rightarrow> 'v traces list \<times> bool" where
  "send oks [] = ([], True)"
| "send oks (t # ts) =
     (if oks \<noteq> [] \<and> \<not> hd oks then ([], False)
      else (case send (tl oks) ts of (acc, ok) \<Rightarrow> (t # acc, ok)))"

text \<open>Calls whose errors are only logged or collected.\<close>

fun send_all :: "bool list \<Rightarrow> 'v traces list \<Rightarrow> 'v traces list" where
  "send_all oks [] = []"
| "send_all oks (t # ts) =
     (if oks \<noteq> [] \<and> \<not> hd oks then send_all (tl oks) ts else t # send_all (tl oks) ts)"

definition select_batch :: "'v pdata \<Rightarrow> int \<Rightarrow> bytes list \<Rightarrow> 'v traces \<Rightarrow> 'v selector \<Rightarrow> 'v selector \<times> 'v traces list" where
  "select_batch pd now order td p =
     (case fold (select_span now) (flatten td) (p, [], []) of
        (p1, passThrough, rootSeen) \<Rightarrow>
          (case fold (take_trace pd now) (filter (\<lambda>t. List.member rootSeen t) order) (p1, []) of
             (p2, toForward) \<Rightarrow> (p2, passThrough @ toForward)))"

definition select_ConsumeTraces ::
  "'v pdata \<Rightarrow> int \<Rightarrow> bytes list \<Rightarrow> bool list \<Rightarrow> 'v traces \<Rightarrow> 'v selector \<Rightarrow> ('v traces list \<times> bool) \<times> 'v selector" where
  "select_ConsumeTraces pd now order oks td p =
     (case select_batch pd now order td p of (p', calls) \<Rightarrow> (send oks calls, p'))"

definition idle :: "int \<Rightarrow> int \<Rightarrow> 'v selector \<Rightarrow> bytes \<Rightarrow> bool" where
  "idle now timeout p trace =
     (case map_of (prBuffers p) trace of None \<Rightarrow> False | Some buf \<Rightarrow> timeout \<le> now - sbLastSeen buf)"

definition sweepTimedOut :: "'v pdata \<Rightarrow> int \<Rightarrow> int \<Rightarrow> bytes list \<Rightarrow> bool list \<Rightarrow> 'v selector \<Rightarrow> 'v traces list \<times> 'v selector" where
  "sweepTimedOut pd now timeout order oks p =
     (case fold (take_trace pd now) (filter (idle now timeout p) order) (p, []) of
        (p1, pending) \<Rightarrow>
          (send_all oks pending, p1\<lparr>prEmitted := filter (\<lambda>e. \<not> 2 * timeout \<le> now - snd e) (prEmitted p1)\<rparr>))"

definition select_Shutdown :: "'v pdata \<Rightarrow> bytes list \<Rightarrow> bool list \<Rightarrow> 'v selector \<Rightarrow> 'v traces list \<times> bool \<times> 'v selector" where
  "select_Shutdown pd order oks p =
     (case fold (\<lambda>trace (p, out). case map_of (prBuffers p) trace of
              None \<Rightarrow> (p, out)
            | Some buf \<Rightarrow> (p\<lparr>prBuffers := AList.delete trace (prBuffers p)\<rparr>, out @ [buildTraces pd buf])) order (p, []) of
        (p', toFlush) \<Rightarrow> (send_all oks toFlush, list_all id (take (length toFlush) oks), p'))"

section \<open>Configuration\<close>

definition minTraceTimeout :: int where "minTraceTimeout = 1000000"

definition select_traceTimeout :: "int \<Rightarrow> int" where
  "select_traceTimeout t = (if minTraceTimeout \<le> t then t else 30000000000)"

definition select_Validate :: "int \<Rightarrow> bool" where
  "select_Validate t \<longleftrightarrow> \<not> t < 0 \<and> \<not> (0 < t \<and> t < minTraceTimeout)"

text \<open>The default of the factory is accepted and is the timeout an unset one falls back to.\<close>

definition select_createDefaultConfig :: int where "select_createDefaultConfig = 30 * 10 ^ 9"

lemma select_defaults:
  "select_Validate select_createDefaultConfig" "select_traceTimeout select_createDefaultConfig = select_createDefaultConfig"
  "select_traceTimeout 0 = select_createDefaultConfig" "select_Validate t \<Longrightarrow> minTraceTimeout \<le> select_traceTimeout t"
  by (auto simp: select_Validate_def select_createDefaultConfig_def select_traceTimeout_def minTraceTimeout_def)

section \<open>Spans are neither lost nor repeated\<close>

definition spans_of_traces :: "'v traces \<Rightarrow> Span list" where
  "spans_of_traces td = map (\<lambda>(rs, ss, s). s) (flatten td)"

definition buffered :: "(bytes \<times> 'v selBuffer) list \<Rightarrow> Span list" where
  "buffered m = concat (map (\<lambda>(t, b). map csSpan (sbSpans b)) m)"

lemma spans_of_traces_eq: "spans_of_traces td = concat (map (\<lambda>rs. concat (map ssSpans (rsScopes rs))) td)"
  by (simp add: spans_of_traces_def flatten_def map_concat comp_def)

lemma put_scope_spans:
  "mset (concat (map (\<lambda>e. ssSpans (snd e)) (put_scope k cs scs))) =
     add_mset (csSpan cs) (mset (concat (map (\<lambda>e. ssSpans (snd e)) scs)))"
  by (induction k cs scs rule: put_scope.induct) auto

lemma put_span_spans:
  "mset (concat (map (\<lambda>e. concat (map (\<lambda>e. ssSpans (snd e)) (snd (snd e)))) (put_span rk sk cs es))) =
     add_mset (csSpan cs) (mset (concat (map (\<lambda>e. concat (map (\<lambda>e. ssSpans (snd e)) (snd (snd e)))) es)))"
proof (induction rk sk cs es rule: put_span.induct)
  case (1 rk sk cs)
  then show ?case using put_scope_spans [of sk cs "[]"] by simp
next
  case (2 rk sk cs rk' res scs rest)
  then show ?case using put_scope_spans [of sk cs scs] by simp
qed

lemma group_spans_mset:
  "mset (concat (map (\<lambda>e. concat (map (\<lambda>e. ssSpans (snd e)) (snd (snd e))))
      (fold (\<lambda>cs. put_span (resource_key pd cs) (scope_key pd cs) cs) spans es))) =
    mset (map csSpan spans) + mset (concat (map (\<lambda>e. concat (map (\<lambda>e. ssSpans (snd e)) (snd (snd e)))) es))"
  by (induction spans arbitrary: es) (simp_all add: put_span_spans)

lemma buildTraces_spans: "mset (spans_of_traces (buildTraces pd buf)) = mset (map csSpan (sbSpans buf))"
proof -
  have "spans_of_traces (buildTraces pd buf) =
      concat (map (\<lambda>e. concat (map (\<lambda>e. ssSpans (snd e)) (snd (snd e)))) (group_spans pd (sbSpans buf)))"
    by (simp add: spans_of_traces_eq buildTraces_def comp_def case_prod_beta')
  then show ?thesis using group_spans_mset [where spans = "sbSpans buf" and es = "[]"] by (simp add: group_spans_def)
qed

lemma single_span_spans: "spans_of_traces (buildSingleSpanTraces rs ss s) = [s]"
  by (simp add: spans_of_traces_eq buildSingleSpanTraces_def)

lemma delete_Cons: "AList.delete k (x # m) = (if fst x = k then AList.delete k m else x # AList.delete k m)"
  by (cases x) (simp add: AList.delete_eq)

lemma delete_absent: "map_of m k = None \<Longrightarrow> AList.delete k m = m"
  by (induction m) (auto simp: delete_Cons split: if_splits)

lemma buffered_Cons: "buffered (x # m) = map csSpan (sbSpans (snd x)) @ buffered m"
  by (cases x) (simp add: buffered_def)

lemma buffered_delete:
  assumes "distinct (map fst m)" and "map_of m t = Some b"
  shows "mset (buffered m) = mset (map csSpan (sbSpans b)) + mset (buffered (AList.delete t m))"
  using assms
proof (induction m)
  case (Cons x m)
  then have "fst x = t \<Longrightarrow> AList.delete t m = m" by (intro delete_absent) (simp add: map_of_eq_None_iff)
  with Cons show ?case by (cases x) (auto simp: delete_Cons buffered_Cons split: if_splits)
qed simp

lemma buffered_update:
  assumes "distinct (map fst m)"
  shows "mset (buffered (AList.update t b m)) = mset (map csSpan (sbSpans b)) + mset (buffered (AList.delete t m))"
  using assms
proof (induction m)
  case (Cons x m)
  then have "fst x = t \<Longrightarrow> AList.delete t m = m" by (intro delete_absent) (simp add: map_of_eq_None_iff)
  with Cons show ?case by (cases x) (auto simp: delete_Cons buffered_Cons split: if_splits)
qed (simp add: buffered_def)

text \<open>The buffers: one per trace, none empty, and only spans of that trace in each.\<close>

definition sel_inv :: "'v selector \<Rightarrow> bool" where
  "sel_inv p \<longleftrightarrow> distinct (map fst (prBuffers p)) \<and>
     (\<forall>(t, b) \<in> set (prBuffers p). sbSpans b \<noteq> [] \<and> (\<forall>cs \<in> set (sbSpans b). spanTraceID (csSpan cs) = t))"

definition one_trace :: "'v traces \<Rightarrow> bool" where
  "one_trace td \<longleftrightarrow> spans_of_traces td \<noteq> [] \<and> (\<exists>t. \<forall>s \<in> set (spans_of_traces td). spanTraceID s = t)"

lemma buildTraces_one_trace:
  assumes "sel_inv p" and "map_of (prBuffers p) t = Some b"
  shows "one_trace (buildTraces pd b)"
proof -
  have s: "set (spans_of_traces (buildTraces pd b)) = csSpan ` set (sbSpans b)"
    using mset_eq_setD [OF buildTraces_spans [of pd b]] by simp
  have "sbSpans b \<noteq> []" "\<forall>cs \<in> set (sbSpans b). spanTraceID (csSpan cs) = t"
    using assms map_of_SomeD [OF assms(2)] by (auto simp: sel_inv_def)
  then show ?thesis using s unfolding one_trace_def by (auto simp flip: set_empty)
qed

lemma in_update: "x \<in> set (AList.update k v m) \<Longrightarrow> x = (k, v) \<or> x \<in> set m"
  by (induction m) (auto split: if_splits)

lemma select_span_ok:
  assumes "sel_inv p" and "\<forall>td \<in> set out. one_trace td" and "select_span now x (p, out, roots) = (p', out', roots')"
  shows "sel_inv p' \<and> (\<forall>td \<in> set out'. one_trace td) \<and>
    mset (concat (map spans_of_traces out')) + mset (buffered (prBuffers p')) =
      add_mset (snd (snd x)) (mset (concat (map spans_of_traces out)) + mset (buffered (prBuffers p)))"
proof -
  obtain rs ss s where x: "x = (rs, ss, s)" by (cases x)
  let ?t = "spanTraceID s"
  show ?thesis
  proof (cases "map_of (prEmitted p) ?t")
    case (Some time)
    then have "p' = p" "out' = out @ [buildSingleSpanTraces rs ss s]" using assms(3) by (simp_all add: select_span_def x)
    then show ?thesis using assms(1,2) by (simp add: one_trace_def single_span_spans x)
  next
    case None
    let ?b = "case map_of (prBuffers p) ?t of Some b \<Rightarrow> b | None \<Rightarrow> \<lparr>sbSpans = [], sbLastSeen = now\<rparr>"
    let ?b' = "?b\<lparr>sbSpans := sbSpans ?b @ [capture rs ss s], sbLastSeen := now\<rparr>"
    have p': "prBuffers p' = AList.update ?t ?b' (prBuffers p)" "out' = out"
      using None assms(3) by (auto simp: select_span_def x Let_def)
    have d: "distinct (map fst (prBuffers p))" using assms(1) by (simp add: sel_inv_def)
    have b: "\<forall>cs \<in> set (sbSpans ?b). spanTraceID (csSpan cs) = ?t"
      using assms(1) by (auto simp: sel_inv_def dest: map_of_SomeD split: option.split)
    have "sel_inv p'"
      using assms(1) b distinct_update [OF d, of ?t ?b'] in_update [of _ ?t ?b' "prBuffers p"]
      by (fastforce simp: sel_inv_def p'(1) capture_def)
    moreover have "mset (buffered (prBuffers p')) = add_mset s (mset (buffered (prBuffers p)))"
      unfolding p'(1) buffered_update [OF d]
      using buffered_delete [OF d, of ?t] delete_absent [of "prBuffers p" ?t] by (auto simp: capture_def split: option.split)
    ultimately show ?thesis using assms(2) by (simp add: p'(2) x)
  qed
qed

lemma select_spans_ok:
  assumes "sel_inv p" and "\<forall>td \<in> set out. one_trace td"
    and "fold (select_span now) xs (p, out, roots) = (p', out', roots')"
  shows "sel_inv p' \<and> (\<forall>td \<in> set out'. one_trace td) \<and>
    mset (concat (map spans_of_traces out')) + mset (buffered (prBuffers p')) =
      mset (map (\<lambda>x. snd (snd x)) xs) + (mset (concat (map spans_of_traces out)) + mset (buffered (prBuffers p)))"
  using assms
proof (induction xs arbitrary: p out roots)
  case (Cons x xs)
  obtain p1 out1 roots1 where s: "select_span now x (p, out, roots) = (p1, out1, roots1)" by (metis prod_cases3)
  note ok = select_span_ok [OF Cons.prems(1,2) s]
  then show ?case using Cons.IH [of p1 out1 roots1] Cons.prems(3) s by (simp add: add_ac)
qed simp

lemma take_trace_ok:
  assumes "sel_inv p" and "\<forall>td \<in> set out. one_trace td" and "take_trace pd now t (p, out) = (p', out')"
  shows "sel_inv p' \<and> (\<forall>td \<in> set out'. one_trace td) \<and>
    mset (concat (map spans_of_traces out')) + mset (buffered (prBuffers p')) =
      mset (concat (map spans_of_traces out)) + mset (buffered (prBuffers p))"
proof (cases "map_of (prBuffers p) t")
  case (Some b)
  then have p': "prBuffers p' = AList.delete t (prBuffers p)" "out' = out @ [buildTraces pd b]"
    using assms(3) by (auto simp: take_trace_def)
  have d: "distinct (map fst (prBuffers p))" using assms(1) by (simp add: sel_inv_def)
  have "sel_inv p'"
    using assms(1) distinct_delete [OF d, of t] by (auto simp: sel_inv_def p'(1) AList.delete_eq)
  then show ?thesis
    using assms(2) buildTraces_one_trace [OF assms(1) Some] buffered_delete [OF d Some]
    by (simp add: p' buildTraces_spans)
qed (use assms in \<open>simp add: take_trace_def\<close>)

lemma take_traces_ok:
  assumes "sel_inv p" and "\<forall>td \<in> set out. one_trace td" and "fold (take_trace pd now) ts (p, out) = (p', out')"
  shows "sel_inv p' \<and> (\<forall>td \<in> set out'. one_trace td) \<and>
    mset (concat (map spans_of_traces out')) + mset (buffered (prBuffers p')) =
      mset (concat (map spans_of_traces out)) + mset (buffered (prBuffers p))"
  using assms
proof (induction ts arbitrary: p out)
  case (Cons t ts)
  obtain p1 out1 where s: "take_trace pd now t (p, out) = (p1, out1)" by fastforce
  note ok = take_trace_ok [OF Cons.prems(1,2) s]
  then show ?case using Cons.IH [of p1 out1] Cons.prems(3) s by simp
qed simp

lemma select_batch_ok:
  assumes "sel_inv p" and "select_batch pd now order td p = (p', calls)"
  shows "sel_inv p' \<and> (\<forall>c \<in> set calls. one_trace c) \<and>
    mset (concat (map spans_of_traces calls)) + mset (buffered (prBuffers p')) =
      mset (spans_of_traces td) + mset (buffered (prBuffers p))"
proof -
  obtain p1 pass roots where f: "fold (select_span now) (flatten td) (p, [], []) = (p1, pass, roots)" by (metis prod_cases3)
  obtain p2 fwd where t: "fold (take_trace pd now) (filter (\<lambda>t. List.member roots t) order) (p1, []) = (p2, fwd)" by fastforce
  have "p' = p2" "calls = pass @ fwd" using assms(2) unfolding select_batch_def f prod.case t by simp_all
  moreover note s = select_spans_ok [OF assms(1) _ f] 
  moreover have "map (\<lambda>x. snd (snd x)) (flatten td) = spans_of_traces td" by (simp add: spans_of_traces_def case_prod_beta')
  ultimately show ?thesis using take_traces_ok [OF _ _ t] by (auto simp: add.assoc)
qed

lemma send_accepting: "send [] ts = (ts, True)" "send_all [] ts = ts"
  by (induction ts) simp_all

text \<open>The flush of \<open>Shutdown\<close> is the taking of traces without marking them.\<close>

lemma flush_ok:
  assumes "sel_inv p" and "\<forall>td \<in> set out. one_trace td"
    and "fold (\<lambda>trace (p, out). case map_of (prBuffers p) trace of None \<Rightarrow> (p, out)
      | Some buf \<Rightarrow> (p\<lparr>prBuffers := AList.delete trace (prBuffers p)\<rparr>, out @ [buildTraces pd buf])) ts (p, out) = (p', out')"
  shows "sel_inv p' \<and> (\<forall>td \<in> set out'. one_trace td) \<and>
    mset (concat (map spans_of_traces out')) + mset (buffered (prBuffers p')) =
      mset (concat (map spans_of_traces out)) + mset (buffered (prBuffers p))"
  using assms
proof (induction ts arbitrary: p out)
  case (Cons t ts)
  show ?case
  proof (cases "map_of (prBuffers p) t")
    case (Some b)
    let ?p = "p\<lparr>prBuffers := AList.delete t (prBuffers p)\<rparr>"
    let ?q = "p\<lparr>prBuffers := AList.delete t (prBuffers p), prEmitted := AList.update t 0 (prEmitted p)\<rparr>"
    have "take_trace pd 0 t (p, out) = (?q, out @ [buildTraces pd b])" by (simp add: take_trace_def Some)
    from take_trace_ok [OF Cons.prems(1,2) this] show ?thesis
      using Cons.IH [of ?p "out @ [buildTraces pd b]"] Cons.prems(3) Some by (simp add: sel_inv_def)
  qed (use Cons in simp)
qed simp

section \<open>Runs\<close>

text \<open>A run with a next consumer that accepts everything: the processor, the spans it was given, the calls it made.\<close>

inductive sel_step ::
  "'v pdata \<Rightarrow> 'v selector \<times> Span list \<times> 'v traces list \<Rightarrow> 'v selector \<times> Span list \<times> 'v traces list \<Rightarrow> bool"
  for pd :: "'v pdata" where
  batch: "select_ConsumeTraces pd now order [] td p = ((acc, ok), p') \<Longrightarrow>
    sel_step pd (p, given, calls) (p', given @ spans_of_traces td, calls @ acc)"
| tick: "sweepTimedOut pd now timeout order [] p = (acc, p') \<Longrightarrow> sel_step pd (p, given, calls) (p', given, calls @ acc)"
| shutdown: "select_Shutdown pd order [] p = (acc, ok, p') \<Longrightarrow> sel_step pd (p, given, calls) (p', given, calls @ acc)"

definition conserved :: "'v selector \<times> Span list \<times> 'v traces list \<Rightarrow> bool" where
  "conserved st = (case st of (p, given, calls) \<Rightarrow> sel_inv p \<and> (\<forall>c \<in> set calls. one_trace c) \<and>
     mset given = mset (concat (map spans_of_traces calls)) + mset (buffered (prBuffers p)))"

lemma conserved_step:
  assumes "sel_step pd st st'" and "conserved st"
  shows "conserved st'"
  using assms
proof (induction rule: sel_step.induct)
  case (batch now order td p acc ok p' given calls)
  then have "select_batch pd now order td p = (p', acc)"
    by (auto simp: select_ConsumeTraces_def send_accepting split: prod.splits)
  from select_batch_ok [OF _ this] batch.prems show ?case by (auto simp: conserved_def add_ac)
next
  case (tick now timeout order p acc p' given calls)
  obtain p1 out where t: "fold (take_trace pd now) (filter (idle now timeout p) order) (p, []) = (p1, out)" by fastforce
  then have "acc = out" "prBuffers p' = prBuffers p1"
    using tick.hyps by (auto simp: sweepTimedOut_def send_accepting)
  with take_traces_ok [OF _ _ t] tick.prems show ?case by (auto simp: conserved_def sel_inv_def add_ac)
next
  case (shutdown order p acc ok p' given calls)
  then have "fold (\<lambda>trace (p, out). case map_of (prBuffers p) trace of None \<Rightarrow> (p, out)
      | Some buf \<Rightarrow> (p\<lparr>prBuffers := AList.delete trace (prBuffers p)\<rparr>, out @ [buildTraces pd buf])) order (p, []) = (p', acc)"
    by (auto simp: select_Shutdown_def send_accepting split: prod.splits)
  from flush_ok [OF _ _ this] shutdown.prems show ?case by (auto simp: conserved_def add_ac)
qed

lemma conserved_run: "(sel_step pd)\<^sup>*\<^sup>* st st' \<Longrightarrow> conserved st \<Longrightarrow> conserved st'"
  by (induction rule: rtranclp_induct) (auto intro: conserved_step)

abbreviation new_selector :: "'v selector" where
  "new_selector \<equiv> \<lparr>prBuffers = [], prEmitted = []\<rparr>"

text \<open>The processor neither loses nor repeats a span: along every run of batches, ticks and shutdowns
  with a next consumer that accepts its calls, the spans it was given are, with multiplicities,
  those of the calls it made and those still buffered; and every call carries spans, all of one trace.\<close>

theorem select_conserves_spans:
  assumes "(sel_step pd)\<^sup>*\<^sup>* (new_selector, [], []) (p, given, calls)"
  shows "mset given = mset (concat (map spans_of_traces calls)) + mset (buffered (prBuffers p)) \<and>
    (\<forall>c \<in> set calls. spans_of_traces c \<noteq> [] \<and> (\<exists>t. \<forall>s \<in> set (spans_of_traces c). spanTraceID s = t))"
  using conserved_run [OF assms] by (simp add: conserved_def sel_inv_def buffered_def one_trace_def)

definition text_pdata :: "bytes pdata" where
  "text_pdata = \<lparr>pdAsString = (\<lambda>v. v), pdIsPrint = (\<lambda>_. True)\<rparr>"

definition one_span_batch :: "Span \<Rightarrow> bytes traces" where
  "one_span_batch s =
     [\<lparr>rsSchemaUrl = [], rsAttrs = [(''service.name'', ''api'')],
       rsScopes = [\<lparr>ssSchemaUrl = [], ssName = ''lib'', ssVersion = ''1'', ssAttrs = [], ssSpans = [s]\<rparr>]\<rparr>]"

theorem select_conserves_spans_witness:
  "\<exists>p calls. (sel_step text_pdata)\<^sup>*\<^sup>* (new_selector, [], []) (p, [example_span], calls) \<and>
     mset [example_span] = mset (concat (map spans_of_traces calls)) + mset (buffered (prBuffers p))"
proof -
  let ?td = "one_span_batch example_span"
  obtain acc ok p where c: "select_ConsumeTraces text_pdata 0 [''0a''] [] ?td new_selector = ((acc, ok), p)" by (metis prod_cases3 prod.collapse)
  have "spans_of_traces ?td = [example_span]" by (simp add: spans_of_traces_eq one_span_batch_def)
  then have "sel_step text_pdata (new_selector, [], []) (p, [example_span], acc)"
    using sel_step.batch [OF c, of "[]" "[]"] by simp
  then have run: "(sel_step text_pdata)\<^sup>*\<^sup>* (new_selector, [], []) (p, [example_span], acc)" by (rule r_into_rtranclp)
  with select_conserves_spans [OF run] show ?thesis by blast
qed

section \<open>Grouping\<close>

text \<open>Where a span ends up: in a scope and a resource that were created by a span with the same keys.\<close>

definition placed :: "'v pdata \<Rightarrow> 'v traces \<Rightarrow> 'v capturedSpan \<Rightarrow> bool" where
  "placed pd td cs \<longleftrightarrow> (\<exists>rs \<in> set td. \<exists>ss \<in> set (rsScopes rs). csSpan cs \<in> set (ssSpans ss) \<and>
     resourceAttrsKey pd (rsAttrs rs) (rsSchemaUrl rs) = resource_key pd cs \<and>
     (ssSchemaUrl ss, ssName ss, ssVersion ss, attrsMapKey pd (ssAttrs ss)) = scope_key pd cs)"

lemma put_scope_keeps:
  assumes "(k', ss) \<in> set scs" and "x \<in> set (ssSpans ss)"
  shows "\<exists>ss'. (k', ss') \<in> set (put_scope k cs scs) \<and> x \<in> set (ssSpans ss')"
  using assms(1)
proof (induction scs)
  case (Cons e scs)
  obtain k1 ss1 where e: "e = (k1, ss1)" by fastforce
  show ?case
  proof (cases "(k', ss) = (k1, ss1)")
    case True
    then show ?thesis
      using assms(2) by (intro exI [of _ "if k1 = k then ss1\<lparr>ssSpans := ssSpans ss1 @ [csSpan cs]\<rparr> else ss1"]) (simp add: e)
  next
    case False
    then obtain ss' where "(k', ss') \<in> set (put_scope k cs scs)" "x \<in> set (ssSpans ss')" using Cons e by auto
    moreover have "(k', ss) \<in> set scs" using False Cons.prems e by auto
    ultimately show ?thesis using assms(2) e by (cases "k1 = k") auto
  qed
qed simp

text \<open>Every entry is filed under the key of its own metadata.\<close>

definition ss_key :: "'v pdata \<Rightarrow> 'v ScopeSpans \<Rightarrow> scopeKey" where
  "ss_key pd ss = (ssSchemaUrl ss, ssName ss, ssVersion ss, attrsMapKey pd (ssAttrs ss))"

definition rs_key :: "'v pdata \<Rightarrow> bytes \<times> (bytes \<times> 'v) list \<Rightarrow> bytes" where
  "rs_key pd res = resourceAttrsKey pd (snd res) (fst res)"

definition keyed :: "'v pdata \<Rightarrow> 'v rsEntry list \<Rightarrow> bool" where
  "keyed pd es \<longleftrightarrow> (\<forall>e \<in> set es. fst e = rs_key pd (fst (snd e)) \<and> (\<forall>s \<in> set (snd (snd e)). fst s = ss_key pd (snd s)))"

lemma put_scope_keyed:
  assumes "\<forall>s \<in> set scs. fst s = ss_key pd (snd s)"
  shows "\<forall>s \<in> set (put_scope (scope_key pd cs) cs scs). fst s = ss_key pd (snd s)"
  using assms
proof (induction scs)
  case (Cons e scs)
  have "ss_key pd (ss\<lparr>ssSpans := x\<rparr>) = ss_key pd ss" for ss :: "'a ScopeSpans" and x by (simp add: ss_key_def)
  then show ?case using Cons by (cases e) auto
qed (simp add: scope_key_def ss_key_def)

lemma keyed_Cons: "keyed pd ((rk, res, scs) # es) \<longleftrightarrow>
    rk = rs_key pd res \<and> (\<forall>s \<in> set scs. fst s = ss_key pd (snd s)) \<and> keyed pd es"
  by (simp add: keyed_def)

lemma put_span_keyed: "keyed pd es \<Longrightarrow> keyed pd (put_span (resource_key pd cs) (scope_key pd cs) cs es)"
proof (induction es)
  case Nil
  then show ?case using put_scope_keyed [of "[]" pd cs] by (simp add: keyed_def resource_key_def rs_key_def)
next
  case (Cons e es)
  obtain rk res scs where e: "e = (rk, res, scs)" by (metis prod_cases3)
  show ?case
    using Cons put_scope_keyed [of scs pd cs] unfolding e put_span.simps by (cases "rk = resource_key pd cs") (simp_all add: keyed_Cons)
qed

lemma group_spans_keyed: "keyed pd (group_spans pd spans)"
proof -
  have "keyed pd es \<Longrightarrow> keyed pd (fold (\<lambda>cs. put_span (resource_key pd cs) (scope_key pd cs) cs) spans es)" for es
    by (induction spans arbitrary: es) (simp_all add: put_span_keyed)
  moreover have "keyed pd []" by (simp add: keyed_def)
  ultimately show ?thesis unfolding group_spans_def by blast
qed

definition entered :: "'v pdata \<Rightarrow> 'v rsEntry list \<Rightarrow> 'v capturedSpan \<Rightarrow> bool" where
  "entered pd es cs \<longleftrightarrow> (\<exists>res scs ss. (resource_key pd cs, res, scs) \<in> set es \<and> (scope_key pd cs, ss) \<in> set scs \<and>
     csSpan cs \<in> set (ssSpans ss))"

lemma enteredI:
  "(resource_key pd cs, res, scs) \<in> set es \<Longrightarrow> (scope_key pd cs, ss) \<in> set scs \<Longrightarrow> csSpan cs \<in> set (ssSpans ss) \<Longrightarrow>
     entered pd es cs"
  unfolding entered_def by blast

lemma entered_Cons: "entered pd es cs \<Longrightarrow> entered pd (e # es) cs"
  unfolding entered_def by (metis list.set_intros(2))

lemma put_scope_enters: "\<exists>ss. (k, ss) \<in> set (put_scope k cs scs) \<and> csSpan cs \<in> set (ssSpans ss)"
  by (induction k cs scs rule: put_scope.induct) auto

lemma put_span_enters: "entered pd (put_span (resource_key pd cs) (scope_key pd cs) cs es) cs"
proof (induction es)
  case Nil
  obtain ss where "(scope_key pd cs, ss) \<in> set (put_scope (scope_key pd cs) cs [])" "csSpan cs \<in> set (ssSpans ss)"
    using put_scope_enters by blast
  then show ?case
    by (rule enteredI [where res = "(csResourceSchemaURL cs, csResourceAttrs cs)" and ss = ss, rotated]) simp
next
  case (Cons e es)
  obtain rk res scs where e: "e = (rk, res, scs)" by (metis prod_cases3)
  obtain ss where ss: "(scope_key pd cs, ss) \<in> set (put_scope (scope_key pd cs) cs scs)" "csSpan cs \<in> set (ssSpans ss)"
    using put_scope_enters by blast
  show ?case
  proof (cases "rk = resource_key pd cs")
    case True
    then have "(resource_key pd cs, res, put_scope (scope_key pd cs) cs scs) \<in> set (put_span (resource_key pd cs) (scope_key pd cs) cs (e # es))"
      by (simp add: e)
    then show ?thesis using ss by (rule enteredI)
  next
    case False
    then show ?thesis using Cons.IH by (simp add: e entered_Cons)
  qed
qed

lemma put_span_keeps:
  assumes "entered pd es cs"
  shows "entered pd (put_span rk sk cs' es) cs"
  using assms
proof (induction es)
  case (Cons e es)
  obtain rk' res scs where e: "e = (rk', res, scs)" by (metis prod_cases3)
  show ?case
  proof (cases "entered pd es cs")
    case True
    then show ?thesis using Cons.IH by (cases "rk' = rk") (simp_all add: e entered_Cons)
  next
    case False
    then obtain ss where ss: "rk' = resource_key pd cs" "(scope_key pd cs, ss) \<in> set scs" "csSpan cs \<in> set (ssSpans ss)"
      using Cons.prems unfolding entered_def e by fastforce
    from put_scope_keeps [OF ss(2,3), of sk cs'] obtain ss' where
      "(scope_key pd cs, ss') \<in> set (put_scope sk cs' scs)" "csSpan cs \<in> set (ssSpans ss')" by blast
    moreover have "(resource_key pd cs, res, if rk' = rk then put_scope sk cs' scs else scs) \<in> set (put_span rk sk cs' (e # es))"
      using ss(1) by (simp add: e)
    ultimately show ?thesis using ss(2,3) by (cases "rk' = rk") (auto dest: enteredI simp del: put_span.simps)
  qed
qed (simp add: entered_def)

lemma group_spans_enters:
  assumes "cs \<in> set spans"
  shows "entered pd (group_spans pd spans) cs"
proof -
  let ?f = "\<lambda>cs. put_span (resource_key pd cs) (scope_key pd cs) cs"
  have keep: "entered pd es cs \<Longrightarrow> entered pd (fold ?f xs es) cs" for es xs
    by (induction xs arbitrary: es) (simp_all add: put_span_keeps)
  have "entered pd (fold ?f spans es) cs" for es
    using assms by (induction spans arbitrary: es) (auto intro: keep put_span_enters)
  then show ?thesis by (simp add: group_spans_def)
qed

lemma put_scope_keys: "map fst (put_scope k cs scs) = (if k \<in> fst ` set scs then map fst scs else map fst scs @ [k])"
  by (induction k cs scs rule: put_scope.induct) auto

lemma put_span_keys:
  "map fst (put_span rk sk cs es) = (if rk \<in> fst ` set es then map fst es else map fst es @ [rk])"
  by (induction rk sk cs es rule: put_span.induct) (auto split: if_splits)

lemma put_span_scopes_distinct:
  assumes "\<forall>e \<in> set es. distinct (map fst (snd (snd e)))"
  shows "\<forall>e \<in> set (put_span rk sk cs es). distinct (map fst (snd (snd e)))"
  using assms by (induction rk sk cs es rule: put_span.induct) (auto simp: put_scope_keys simp flip: set_map)

lemma group_spans_distinct:
  "distinct (map fst (group_spans pd spans)) \<and> (\<forall>e \<in> set (group_spans pd spans). distinct (map fst (snd (snd e))))"
proof -
  have "distinct (map fst es) \<and> (\<forall>e \<in> set es. distinct (map fst (snd (snd e)))) \<Longrightarrow>
      (let es' = fold (\<lambda>cs. put_span (resource_key pd cs) (scope_key pd cs) cs) spans es
       in distinct (map fst es') \<and> (\<forall>e \<in> set es'. distinct (map fst (snd (snd e)))))" for es
  proof (induction spans arbitrary: es)
    case (Cons cs spans)
    let ?es = "put_span (resource_key pd cs) (scope_key pd cs) cs es"
    have "distinct (map fst ?es)" using Cons.prems by (auto simp: put_span_keys simp flip: set_map)
    moreover have "\<forall>e \<in> set ?es. distinct (map fst (snd (snd e)))" using Cons.prems put_span_scopes_distinct by blast
    ultimately have "distinct (map fst ?es) \<and> (\<forall>e \<in> set ?es. distinct (map fst (snd (snd e))))" ..
    from Cons.IH [OF this] show ?case by (simp only: fold_Cons comp_apply)
  qed (simp add: Let_def)
  from this [of "[]"] show ?thesis by (simp add: group_spans_def Let_def)
qed

text \<open>The keys of the resources and scopes of the result are the keys they were filed under.\<close>

lemma buildTraces_keys:
  "map (\<lambda>rs. resourceAttrsKey pd (rsAttrs rs) (rsSchemaUrl rs)) (buildTraces pd buf) = map fst (group_spans pd (sbSpans buf))"
  "list_all (\<lambda>rs. distinct (map (ss_key pd) (rsScopes rs))) (buildTraces pd buf)"
proof -
  have k: "\<forall>e \<in> set (group_spans pd (sbSpans buf)). fst e = rs_key pd (fst (snd e)) \<and>
      (\<forall>s \<in> set (snd (snd e)). fst s = ss_key pd (snd s))"
    using group_spans_keyed unfolding keyed_def .
  then show "map (\<lambda>rs. resourceAttrsKey pd (rsAttrs rs) (rsSchemaUrl rs)) (buildTraces pd buf) = map fst (group_spans pd (sbSpans buf))"
    unfolding buildTraces_def by (auto simp: rs_key_def)
  have "map (ss_key pd) (map snd (snd (snd e))) = map fst (snd (snd e))" if "e \<in> set (group_spans pd (sbSpans buf))" for e
    using bspec [OF k that] by simp
  then have "distinct (map (ss_key pd) (map snd (snd (snd e))))" if "e \<in> set (group_spans pd (sbSpans buf))" for e
    using group_spans_distinct [of pd "sbSpans buf"] that by metis
  then show "list_all (\<lambda>rs. distinct (map (ss_key pd) (rsScopes rs))) (buildTraces pd buf)"
    by (auto simp: buildTraces_def list_all_iff)
qed

text \<open>C33. \<open>buildTraces\<close> groups the spans of a buffer by the keys of their metadata: the spans of the
  result are those of the buffer with multiplicities, each stands in a scope and a resource whose own
  keys are those it was captured with, and no two resources, and no two scopes of one resource, have
  the same key.\<close>

theorem buildTraces_groups:
  "mset (spans_of_traces (buildTraces pd buf)) = mset (map csSpan (sbSpans buf)) \<and>
   list_all (placed pd (buildTraces pd buf)) (sbSpans buf) \<and>
   distinct (map (\<lambda>rs. resourceAttrsKey pd (rsAttrs rs) (rsSchemaUrl rs)) (buildTraces pd buf)) \<and>
   list_all (\<lambda>rs. distinct (map (ss_key pd) (rsScopes rs))) (buildTraces pd buf)"
proof -
  have "placed pd (buildTraces pd buf) cs" if "cs \<in> set (sbSpans buf)" for cs
  proof -
    from group_spans_enters [OF that, of pd] obtain res scs ss where
      e0: "(resource_key pd cs, res, scs) \<in> set (group_spans pd (sbSpans buf))" "(scope_key pd cs, ss) \<in> set scs"
        "csSpan cs \<in> set (ssSpans ss)" unfolding entered_def by blast
    obtain url attrs where res: "res = (url, attrs)" by fastforce
    note e = e0 [unfolded res]
    let ?rs = "\<lparr>rsSchemaUrl = url, rsAttrs = attrs, rsScopes = map snd scs\<rparr>"
    have k0: "resource_key pd cs = rs_key pd (url, attrs) \<and> (\<forall>s \<in> set scs. fst s = ss_key pd (snd s))"
      using bspec [OF group_spans_keyed [unfolded keyed_def] e(1)] by simp
    have k: "resource_key pd cs = resourceAttrsKey pd attrs url"
      "scope_key pd cs = (ssSchemaUrl ss, ssName ss, ssVersion ss, attrsMapKey pd (ssAttrs ss))"
      using k0 bspec [OF k0 [THEN conjunct2] e(2)] by (simp_all add: rs_key_def ss_key_def)
    have "?rs \<in> set (buildTraces pd buf)" using e(1) by (force simp: buildTraces_def)
    moreover have "ss \<in> set (rsScopes ?rs)" using e(2) by force
    ultimately show ?thesis
      unfolding placed_def using e(3) k by (intro bexI [of _ ?rs] bexI [of _ ss]) simp_all
  qed
  then have "list_all (placed pd (buildTraces pd buf)) (sbSpans buf)" by (simp add: list_all_iff)
  moreover have "distinct (map fst (group_spans pd (sbSpans buf)))" using group_spans_distinct by blast
  ultimately show ?thesis using buildTraces_spans [of pd buf] buildTraces_keys [of pd buf] by (simp only: simp_thms)
qed

text \<open>The key of an attribute set does not keep the types of its values apart. Two spans whose
  resources differ only in one attribute, with values that print the same (the string \<open>"1"\<close> and the
  number 1), are put into one resource, which carries the attribute of the first; the other value is
  not forwarded.\<close>

theorem attrs_key_conflates:
  assumes "pdAsString pd v = pdAsString pd v'" and "csResourceAttrs c = [(k, v)]"
  shows "buildTraces pd \<lparr>sbSpans = [c, c\<lparr>csResourceAttrs := [(k, v')], csSpan := s\<rparr>], sbLastSeen = n\<rparr> =
    [\<lparr>rsSchemaUrl = csResourceSchemaURL c, rsAttrs = [(k, v)],
      rsScopes = [\<lparr>ssSchemaUrl = csScopeSchemaURL c, ssName = csScopeName c, ssVersion = csScopeVersion c,
                   ssAttrs = csScopeAttrs c, ssSpans = [csSpan c, s]\<rparr>]\<rparr>]"
  using assms
  by (simp add: buildTraces_def group_spans_def resource_key_def scope_key_def resourceAttrsKey_def attrsMapKey_def)

definition sum_pdata :: "(nat + bytes) pdata" where
  "sum_pdata = \<lparr>pdAsString = case_sum FormatUint (\<lambda>s. s), pdIsPrint = (\<lambda>_. True)\<rparr>"

definition sum_span :: "nat + bytes \<Rightarrow> (nat + bytes) capturedSpan" where
  "sum_span v = \<lparr>csResourceAttrs = [(''shard'', v)], csResourceSchemaURL = [], csScopeName = [], csScopeVersion = [],
     csScopeSchemaURL = [], csScopeAttrs = [], csSpan = example_span\<rparr>"

theorem attrs_key_conflates_witness:
  "map rsAttrs (buildTraces sum_pdata \<lparr>sbSpans = [sum_span (Inl 1), sum_span (Inr ''1'')], sbLastSeen = 0\<rparr>) = [[(''shard'', Inl 1)]]"
proof -
  have "pdAsString sum_pdata (Inl 1) = pdAsString sum_pdata (Inr ''1'')"
    by (simp add: sum_pdata_def FormatUint.simps digit_char_def chr_eq_iff)
  from attrs_key_conflates [OF this, of "sum_span (Inl 1)" "''shard''" example_span 0] show ?thesis
    by (simp add: sum_span_def)
qed

section \<open>Failures and timeouts\<close>

lemma select_spans_facts:
  assumes "fold (select_span now) xs (p, out, roots) = (p', out', roots')"
  shows "prEmitted p' = prEmitted p \<and> set roots \<subseteq> set roots' \<and>
    (map_of (prBuffers p) t \<noteq> None \<longrightarrow> map_of (prBuffers p') t \<noteq> None) \<and>
    (\<forall>x \<in> set xs. spanTraceID (snd (snd x)) = t \<and> spanParentSpanID (snd (snd x)) = [] \<and> map_of (prEmitted p) t = None \<longrightarrow>
       t \<in> set roots' \<and> map_of (prBuffers p') t \<noteq> None)"
  using assms
proof (induction xs arbitrary: p out roots)
  case (Cons x xs)
  obtain p1 out1 roots1 where s: "select_span now x (p, out, roots) = (p1, out1, roots1)" by (metis prod_cases3)
  have one: "prEmitted p1 = prEmitted p \<and> set roots \<subseteq> set roots1 \<and>
      (map_of (prBuffers p) t \<noteq> None \<longrightarrow> map_of (prBuffers p1) t \<noteq> None) \<and>
      (spanTraceID (snd (snd x)) = t \<and> spanParentSpanID (snd (snd x)) = [] \<and> map_of (prEmitted p) t = None \<longrightarrow>
         t \<in> set roots1 \<and> map_of (prBuffers p1) t \<noteq> None)"
    using s by (cases x) (auto simp: select_span_def Let_def update_conv' split: if_splits)
  have "fold (select_span now) xs (p1, out1, roots1) = (p', out', roots')" using Cons.prems s by simp
  note rest = Cons.IH [OF this]
  show ?case using one rest by auto
qed simp

lemma take_traces_facts:
  assumes "fold (take_trace pd now) ts (p, out) = (p', out')"
  shows "(map_of (prBuffers p) t = None \<longrightarrow> map_of (prBuffers p') t = None \<and> map_of (prEmitted p') t = map_of (prEmitted p) t) \<and>
    (t \<in> set ts \<and> map_of (prBuffers p) t \<noteq> None \<longrightarrow>
       map_of (prBuffers p') t = None \<and> map_of (prEmitted p') t = Some now \<and> length out < length out') \<and>
    length out \<le> length out' \<and> (t \<notin> set ts \<longrightarrow> map_of (prBuffers p') t = map_of (prBuffers p) t)"
  using assms
proof (induction ts arbitrary: p out)
  case (Cons x ts)
  obtain p1 out1 where s: "take_trace pd now x (p, out) = (p1, out1)" by fastforce
  have "fold (take_trace pd now) ts (p1, out1) = (p', out')" using Cons.prems s by simp
  note rest = Cons.IH [OF this]
  show ?case
  proof (cases "map_of (prBuffers p) x")
    case None
    then have "p1 = p" "out1 = out" using s by (simp_all add: take_trace_def)
    then show ?thesis using rest None by auto
  next
    case (Some b)
    then have "prBuffers p1 = AList.delete x (prBuffers p)" "prEmitted p1 = AList.update x now (prEmitted p)" "length out1 = Suc (length out)"
      using s by (auto simp: take_trace_def)
    then show ?thesis using rest Some by (cases "x = t") (auto simp: delete_conv' update_conv')
  qed
qed simp

text \<open>C34. One failing call loses the complete traces behind it. If a batch brings the root of a trace of
  which spans are already buffered, and the first call of the next consumer fails, \<open>ConsumeTraces\<close>
  returns an error after accepting nothing; but the buffer is gone and the trace is marked as emitted,
  so that neither a retry of the batch nor a later sweep forwards the spans buffered before.\<close>

theorem failed_forward_loses_trace:
  assumes "map_of (prEmitted p) t = None" and "t \<in> set order" and "s \<in> set (spans_of_traces td)"
    and "spanTraceID s = t" and "spanParentSpanID s = []"
    and "select_ConsumeTraces pd now order (False # oks) td p = ((acc, ok), p')"
  shows "acc = [] \<and> \<not> ok \<and> map_of (prBuffers p') t = None \<and> map_of (prEmitted p') t = Some now"
proof -
  obtain p1 pass roots where f: "fold (select_span now) (flatten td) (p, [], []) = (p1, pass, roots)" by (metis prod_cases3)
  obtain p2 fwd where k: "fold (take_trace pd now) (filter (\<lambda>t. List.member roots t) order) (p1, []) = (p2, fwd)" by fastforce
  have c: "send (False # oks) (pass @ fwd) = (acc, ok)" "p' = p2"
    using assms(6) unfolding select_ConsumeTraces_def select_batch_def f prod.case k by simp_all
  obtain x where "x \<in> set (flatten td)" "snd (snd x) = s" using assms(3) by (auto simp: spans_of_traces_def)
  then have "t \<in> set roots" "map_of (prBuffers p1) t \<noteq> None" using select_spans_facts [OF f, of t] assms(1,4,5) by auto
  then have "map_of (prBuffers p2) t = None" "map_of (prEmitted p2) t = Some now" "fwd \<noteq> []"
    using take_traces_facts [OF k, of t] assms(2) by auto
  then show ?thesis using c by (cases "pass @ fwd") auto
qed

theorem failed_forward_loses_trace_witness:
  "\<exists>p p'. map_of (prBuffers p) ''0a'' = Some \<lparr>sbSpans = [sum_span (Inl 1)], sbLastSeen = 0\<rparr> \<and>
     select_ConsumeTraces sum_pdata 5 [''0a''] [False]
       [\<lparr>rsSchemaUrl = [], rsAttrs = [], rsScopes = [\<lparr>ssSchemaUrl = [], ssName = [], ssVersion = [], ssAttrs = [], ssSpans = [example_span]\<rparr>]\<rparr>] p =
       (([], False), p') \<and> map_of (prBuffers p') ''0a'' = None \<and> map_of (prEmitted p') ''0a'' = Some 5"
proof -
  let ?td = "[\<lparr>rsSchemaUrl = [], rsAttrs = [], rsScopes = [\<lparr>ssSchemaUrl = [], ssName = [], ssVersion = [], ssAttrs = [], ssSpans = [example_span]\<rparr>]\<rparr>]
    :: (nat + bytes) traces"
  let ?p = "\<lparr>prBuffers = [(''0a'', \<lparr>sbSpans = [sum_span (Inl 1)], sbLastSeen = 0\<rparr>)], prEmitted = []\<rparr>"
  obtain acc ok p' where c: "select_ConsumeTraces sum_pdata 5 [''0a''] [False] ?td ?p = ((acc, ok), p')" by (metis prod.collapse)
  have "example_span \<in> set (spans_of_traces ?td)" "spanTraceID example_span = ''0a''" "spanParentSpanID example_span = []"
    by (simp_all add: spans_of_traces_eq example_span_def)
  from failed_forward_loses_trace [OF _ _ this c] c show ?thesis by (intro exI [of _ ?p] exI [of _ p']) simp
qed

text \<open>A tick bounds both maps: after a sweep over all buffers none is left that has been idle for the
  timeout, the others are untouched, and no trace id stays marked as emitted for twice the timeout or
  longer.\<close>

theorem sweep_bounds_state:
  assumes "sweepTimedOut pd now timeout order oks p = (acc, p')" and "fst ` set (prBuffers p) \<subseteq> set order"
  shows "(\<forall>t b. map_of (prBuffers p') t = Some b \<longrightarrow> map_of (prBuffers p) t = Some b \<and> now - sbLastSeen b < timeout) \<and>
    (\<forall>(t, time) \<in> set (prEmitted p'). now - time < 2 * timeout)"
proof (intro conjI allI impI)
  obtain p1 out where k: "fold (take_trace pd now) (filter (idle now timeout p) order) (p, []) = (p1, out)" by fastforce
  have p': "prBuffers p' = prBuffers p1" "prEmitted p' = filter (\<lambda>e. \<not> 2 * timeout \<le> now - snd e) (prEmitted p1)"
    using assms(1) by (auto simp: sweepTimedOut_def k)
  show "\<forall>(t, time) \<in> set (prEmitted p'). now - time < 2 * timeout" by (auto simp: p'(2))
  fix t b assume b: "map_of (prBuffers p') t = Some b"
  note facts = take_traces_facts [OF k, of t]
  have "t \<notin> set (filter (idle now timeout p) order)" "map_of (prBuffers p) t \<noteq> None"
    using facts b p'(1) by auto
  then have m: "map_of (prBuffers p) t = Some b" using facts b p'(1) by simp
  then have "t \<in> set order" using assms(2) map_of_SomeD [OF m] by force
  with \<open>t \<notin> set (filter (idle now timeout p) order)\<close> m show "map_of (prBuffers p) t = Some b" "now - sbLastSeen b < timeout"
    by (auto simp: idle_def)
qed

theorem sweep_bounds_state_witness:
  "\<exists>acc p'. sweepTimedOut sum_pdata 40 30 [''0a''] []
      \<lparr>prBuffers = [(''0a'', \<lparr>sbSpans = [sum_span (Inl 1)], sbLastSeen = 0\<rparr>)], prEmitted = []\<rparr> = (acc, p') \<and>
     map_of (prBuffers p') ''0a'' = None"
proof -
  let ?p = "\<lparr>prBuffers = [(''0a'', \<lparr>sbSpans = [sum_span (Inl 1)], sbLastSeen = 0\<rparr>)], prEmitted = []\<rparr>"
  obtain acc p' where s: "sweepTimedOut sum_pdata 40 30 [''0a''] [] ?p = (acc, p')" by fastforce
  have "map_of (prBuffers p') ''0a'' = Some b \<Longrightarrow> False" for b
    using sweep_bounds_state [OF s] by (auto split: if_splits)
  then show ?thesis using s by (intro exI [of _ acc] exI [of _ p']) (cases "map_of (prBuffers p') ''0a''"; auto)
qed

end
