(* ===== verification/Select_Lifecycle.thy ===== *)
theory Select_Lifecycle
  imports Worker Select "HOL-Library.Multiset"
begin

text \<open>
  The processor as a running component: constructor, \<open>Start\<close>, its worker, overlapping calls of
  \<open>ConsumeTraces\<close>, and \<open>Shutdown\<close>. The mutex covers the buffers only: what a call, the sweep or \<open>Shutdown\<close> has taken
  from them is forwarded after the lock is released, one call of the next consumer at a time, and these calls
  interleave. The host starts the component at most once and before \<open>Shutdown\<close>, and hands over
  nothing once it has called \<open>Shutdown\<close>; it may call \<open>Shutdown\<close> again after it has returned.
\<close>

section \<open>The component\<close>

datatype sel_closing = SelOpen | SelWaiting | SelFlushing | SelReturned

record 'v sel_component =
  slTimeout :: int
  slSelector :: "'v selector"
  slWorker :: worker
  slOnce :: bool
  slCalls :: "'v traces list list"
  slSweep :: "'v traces list"
  slFlush :: "'v traces list"
  slClosing :: sel_closing

definition newProcessor :: "int \<Rightarrow> 'v sel_component" where
  "newProcessor cfgTimeout =
     \<lparr>slTimeout = cfgTimeout, slSelector = new_selector,
      slWorker = \<lparr>wkPhase = NotStarted, wkStop = OpenChan, wkDone = OpenChan\<rparr>,
      slOnce = False, slCalls = [], slSweep = [], slFlush = [], slClosing = SelOpen\<rparr>"

text \<open>The constructor the factory hands to the collector; it cannot fail.\<close>

definition createTracesProcessor :: "int \<Rightarrow> 'v sel_component" where
  "createTracesProcessor cfgTimeout = newProcessor cfgTimeout"

definition select_Start :: "'v sel_component \<Rightarrow> 'v sel_component" where
  "select_Start c = c\<lparr>slWorker := (slWorker c)\<lparr>wkPhase := Spawned (select_traceTimeout (slTimeout c))\<rparr>\<rparr>"

text \<open>\<open>Shutdown\<close> up to its \<open>select\<close>: the stop channel is closed by the first call only.\<close>

definition select_shutdown_begin :: "'v sel_component \<Rightarrow> 'v sel_component" where
  "select_shutdown_begin c =
     (if slOnce c then c else c\<lparr>slOnce := True, slWorker := worker_stop (slWorker c)\<rparr>)\<lparr>slClosing := SelWaiting\<rparr>"

text \<open>Its locked part, with what it is going to send: the calls of \<open>select_Shutdown\<close> if none is refused.\<close>

definition select_shutdown_flush :: "'v pdata \<Rightarrow> bytes list \<Rightarrow> 'v sel_component \<Rightarrow> 'v sel_component" where
  "select_shutdown_flush pd order c =
     (case select_Shutdown pd order [] (slSelector c) of
        (toFlush, ok, p) \<Rightarrow> c\<lparr>slSelector := p, slFlush := toFlush, slClosing := SelFlushing\<rparr>)"

text \<open>One round of the worker up to the release of the lock, with what it is going to send.\<close>

definition sweep_round :: "'v pdata \<Rightarrow> int \<Rightarrow> int \<Rightarrow> bytes list \<Rightarrow> 'v sel_component \<Rightarrow> 'v sel_component" where
  "sweep_round pd now timeout order c =
     (case sweepTimedOut pd now timeout order [] (slSelector c) of
        (pending, p) \<Rightarrow> c\<lparr>slSelector := p, slSweep := pending\<rparr>)"

text \<open>A call of \<open>ConsumeTraces\<close> up to the release of the lock.\<close>

definition enter_call :: "'v pdata \<Rightarrow> int \<Rightarrow> bytes list \<Rightarrow> 'v traces \<Rightarrow> 'v sel_component \<Rightarrow> 'v sel_component" where
  "enter_call pd now order td c =
     (case select_batch pd now order td (slSelector c) of
        (p, calls) \<Rightarrow> c\<lparr>slSelector := p, slCalls := slCalls c @ [calls]\<rparr>)"

section \<open>Its steps\<close>

text \<open>
  A state of a run: the component, the spans it was given, and the calls the next consumer has accepted.
  \<open>deadline\<close> says that the context of \<open>Shutdown\<close> may expire, \<open>refusing\<close> that the next consumer may return errors.
\<close>

type_synonym 'v sel_run = "'v sel_component \<times> Span list \<times> 'v traces list"

inductive select_live :: "'v pdata \<Rightarrow> bool \<Rightarrow> bool \<Rightarrow> 'v sel_run \<Rightarrow> 'v sel_run \<Rightarrow> bool"
  for pd :: "'v pdata" and deadline :: bool and refusing :: bool where
  start: "wkPhase (slWorker c) = NotStarted \<Longrightarrow> slClosing c = SelOpen \<Longrightarrow>
    select_live pd deadline refusing (c, given, out) (select_Start c, given, out)"
| enter: "wkPhase (slWorker c) = Spawned t \<Longrightarrow>
    select_live pd deadline refusing (c, given, out) (c\<lparr>slWorker := worker_begin (slWorker c)\<rparr>, given, out)"
| tick: "wkPhase (slWorker c) = Ticking t \<Longrightarrow> slSweep c = [] \<Longrightarrow>
    select_live pd deadline refusing (c, given, out) (sweep_round pd now t order c, given, out)"
| exit: "wkPhase (slWorker c) = Ticking t \<Longrightarrow> slSweep c = [] \<Longrightarrow> wkStop (slWorker c) = ClosedChan \<Longrightarrow>
    select_live pd deadline refusing (c, given, out) (c\<lparr>slWorker := worker_exit (slWorker c)\<rparr>, given, out)"
| sweep_sent: "slSweep c = x # xs \<Longrightarrow>
    select_live pd deadline refusing (c, given, out) (c\<lparr>slSweep := xs\<rparr>, given, out @ [x])"
| sweep_refused: "refusing \<Longrightarrow> slSweep c = x # xs \<Longrightarrow>
    select_live pd deadline refusing (c, given, out) (c\<lparr>slSweep := xs\<rparr>, given, out)"
| call: "slClosing c = SelOpen \<Longrightarrow>
    select_live pd deadline refusing (c, given, out) (enter_call pd now order td c, given @ spans_of_traces td, out)"
| call_sent: "slCalls c = us @ (x # xs) # vs \<Longrightarrow>
    select_live pd deadline refusing (c, given, out) (c\<lparr>slCalls := us @ xs # vs\<rparr>, given, out @ [x])"
| call_refused: "refusing \<Longrightarrow> slCalls c = us @ (x # xs) # vs \<Longrightarrow>
    select_live pd deadline refusing (c, given, out) (c\<lparr>slCalls := us @ vs\<rparr>, given, out)"
| call_returns: "slCalls c = us @ [] # vs \<Longrightarrow>
    select_live pd deadline refusing (c, given, out) (c\<lparr>slCalls := us @ vs\<rparr>, given, out)"
| shutdown: "slClosing c \<in> {SelOpen, SelReturned} \<Longrightarrow> slCalls c = [] \<Longrightarrow>
    select_live pd deadline refusing (c, given, out) (select_shutdown_begin c, given, out)"
| flush: "slClosing c = SelWaiting \<Longrightarrow> wkDone (slWorker c) = ClosedChan \<or> deadline \<Longrightarrow>
    fst ` set (prBuffers (slSelector c)) \<subseteq> set order \<Longrightarrow>
    select_live pd deadline refusing (c, given, out) (select_shutdown_flush pd order c, given, out)"
| flush_sent: "slFlush c = x # xs \<Longrightarrow>
    select_live pd deadline refusing (c, given, out) (c\<lparr>slFlush := xs\<rparr>, given, out @ [x])"
| flush_refused: "refusing \<Longrightarrow> slFlush c = x # xs \<Longrightarrow>
    select_live pd deadline refusing (c, given, out) (c\<lparr>slFlush := xs\<rparr>, given, out)"
| returned: "slClosing c = SelFlushing \<Longrightarrow> slFlush c = [] \<Longrightarrow>
    select_live pd deadline refusing (c, given, out) (c\<lparr>slClosing := SelReturned\<rparr>, given, out)"

section \<open>The worker\<close>

text \<open>Whatever the configured timeout, the one the worker is started with is at least a millisecond.\<close>

interpretation processor_worker: ticking_worker select_traceTimeout "\<lambda>t. True"
  by unfold_locales (simp add: select_traceTimeout_def minTraceTimeout_def)

lemma default_processor_waits:
  "slWorker (select_Start (createTracesProcessor select_createDefaultConfig)) =
     \<lparr>wkPhase = Spawned (30 * 10 ^ 9), wkStop = OpenChan, wkDone = OpenChan\<rparr>"
  by (simp add: createTracesProcessor_def newProcessor_def select_Start_def select_defaults(2))
    (simp add: select_createDefaultConfig_def)

text \<open>Worker, channels and the progress of \<open>Shutdown\<close> go together.\<close>

definition protocol_inv :: "bool \<Rightarrow> 'v sel_component \<Rightarrow> bool" where
  "protocol_inv deadline c \<longleftrightarrow>
     worker_ok (select_traceTimeout (slTimeout c)) (slWorker c) \<and> wkPhase (slWorker c) \<noteq> Crashed \<and>
     wkStop (slWorker c) = (if slOnce c then ClosedChan else OpenChan) \<and> wkDone (slWorker c) \<noteq> NilChan \<and>
     (slClosing c = SelOpen \<longleftrightarrow> \<not> slOnce c) \<and> (slOnce c \<longrightarrow> slCalls c = []) \<and>
     (slSweep c \<noteq> [] \<longrightarrow> (\<exists>t. wkPhase (slWorker c) = Ticking t)) \<and> (slFlush c \<noteq> [] \<longrightarrow> slClosing c = SelFlushing) \<and>
     (slClosing c \<in> {SelFlushing, SelReturned} \<longrightarrow> prBuffers (slSelector c) = [] \<and> (deadline \<or> wkPhase (slWorker c) = Exited))"

lemma new_protocol_inv: "protocol_inv deadline (newProcessor t)"
  by (simp add: protocol_inv_def newProcessor_def worker_ok_def)

lemma flush_empties:
  assumes "fold (\<lambda>trace (p, out). case map_of (prBuffers p) trace of None \<Rightarrow> (p, out)
      | Some buf \<Rightarrow> (p\<lparr>prBuffers := AList.delete trace (prBuffers p)\<rparr>, out @ [buildTraces pd buf])) ts (p, out) = (p', out')"
    and "fst ` set (prBuffers p) \<subseteq> set ts"
  shows "prBuffers p' = []"
  using assms
proof (induction ts arbitrary: p out)
  case (Cons t ts)
  show ?case
  proof (cases "map_of (prBuffers p) t")
    case None
    then have "fst ` set (prBuffers p) \<subseteq> set ts" using Cons.prems(2) by (auto simp: map_of_eq_None_iff)
    from Cons.IH [OF _ this] Cons.prems(1) None show ?thesis by simp
  next
    case (Some b)
    have "fst ` set (AList.delete t (prBuffers p)) \<subseteq> set ts" using Cons.prems(2) by (auto simp: AList.delete_eq)
    then show ?thesis using Cons.IH Cons.prems(1) Some by simp
  qed
qed simp

lemma protocol_step:
  assumes "select_live pd deadline refusing (c, given, out) (c', given', out')" and "protocol_inv deadline c"
  shows "protocol_inv deadline c'"
proof -
  have w: "worker_ok (select_traceTimeout (slTimeout c)) (slWorker c)" "wkPhase (slWorker c) \<noteq> Crashed"
    using assms(2) by (auto simp: protocol_inv_def)
  note ok = worker_ok_steps [OF w(1)] processor_worker.begin_safe [OF TrueI w] processor_worker.exit_safe [OF w]
  from assms(1) show ?thesis
  proof cases
    case start
    then show ?thesis using assms(2) by (cases "wkDone (slWorker c)") (auto simp: protocol_inv_def select_Start_def worker_ok_def)
  next
    case (enter t)
    then show ?thesis using assms(2) ok
      by (auto simp: protocol_inv_def worker_begin_def worker_ok_def split: option.splits)
  next
    case (tick t now order)
    obtain pending p where p: "sweepTimedOut pd now t order [] (slSelector c) = (pending, p)" by fastforce
    have "prBuffers p = []" if "prBuffers (slSelector c) = []"
    proof -
      have "filter (idle now t (slSelector c)) order = []" using that by (simp add: idle_def filter_empty_conv)
      then show ?thesis using p that by (auto simp: sweepTimedOut_def)
    qed
    then show ?thesis using assms(2) tick p by (auto simp: protocol_inv_def sweep_round_def)
  next
    case (exit t)
    then show ?thesis using assms(2) ok
      by (auto simp: protocol_inv_def worker_exit_def worker_ok_def close_chan_def split: option.splits)
  next
    case (call now order td)
    then show ?thesis using assms(2) by (auto simp: protocol_inv_def enter_call_def split: prod.splits)
  next
    case shutdown
    then show ?thesis using assms(2) ok(3)
      by (auto simp: protocol_inv_def select_shutdown_begin_def worker_stop_def close_chan_def)
  next
    case (flush order)
    obtain out ok p where s: "select_Shutdown pd order [] (slSelector c) = (out, ok, p)" by (metis prod_cases3)
    from s obtain toFlush where "fold (\<lambda>trace (p, out). case map_of (prBuffers p) trace of None \<Rightarrow> (p, out)
        | Some buf \<Rightarrow> (p\<lparr>prBuffers := AList.delete trace (prBuffers p)\<rparr>, out @ [buildTraces pd buf])) order (slSelector c, []) = (p, toFlush)"
      unfolding select_Shutdown_def by (simp split: prod.splits)
    from flush_empties [OF this flush(6)] have "prBuffers p = []" .
    moreover have "deadline \<or> wkPhase (slWorker c) = Exited"
      using flush(5) done_means_exited [OF w(1)] w(2) by blast
    ultimately show ?thesis using assms(2) flush s by (auto simp: protocol_inv_def select_shutdown_flush_def)
  qed (use assms(2) in \<open>auto simp: protocol_inv_def\<close>)
qed

lemma protocol_run:
  assumes "(select_live pd deadline refusing)\<^sup>*\<^sup>* (c, given, out) (c', given', out')" and "protocol_inv deadline c"
  shows "protocol_inv deadline c'"
  using assms by (induction rule: rtranclp_induct2) (auto intro: protocol_step)

section \<open>No span is lost or repeated\<close>

abbreviation spans_in :: "'v traces list \<Rightarrow> Span multiset" where
  "spans_in ts \<equiv> mset (concat (map spans_of_traces ts))"

text \<open>Every span is in a forwarded call, on its way to one, or buffered.\<close>

definition in_hand :: "'v sel_component \<Rightarrow> 'v traces list" where
  "in_hand c = concat (slCalls c) @ slSweep c @ slFlush c"

definition live_balance :: "'v sel_run \<Rightarrow> Span multiset" where
  "live_balance st = (case st of (c, given, out) \<Rightarrow>
     spans_in out + spans_in (in_hand c) + mset (buffered (prBuffers (slSelector c))))"

definition live_conserved :: "bool \<Rightarrow> 'v sel_run \<Rightarrow> bool" where
  "live_conserved refusing st \<longleftrightarrow> (case st of (c, given, out) \<Rightarrow>
     sel_inv (slSelector c) \<and> (\<forall>td \<in> set out \<union> set (in_hand c). one_trace td) \<and>
     live_balance st \<subseteq># mset given \<and> (\<not> refusing \<longrightarrow> live_balance st = mset given))"

lemma live_conserved_keep:
  assumes "live_conserved refusing (c, given, out)" and "sel_inv (slSelector c')"
    and "\<forall>td \<in> set out' \<union> set (in_hand c'). one_trace td"
    and "live_balance (c', given', out') + lost = live_balance (c, given, out) + mset new" and "given' = given @ new"
    and "\<not> refusing \<Longrightarrow> lost = {#}"
  shows "live_conserved refusing (c', given', out')"
proof -
  have b: "live_balance (c, given, out) + mset new \<subseteq># mset given'"
    using assms(1,5) by (simp add: live_conserved_def)
  have "live_balance (c', given', out') \<subseteq># mset given'"
    using b assms(4) by (metis mset_subset_eq_add_left subset_mset.order_trans)
  moreover have "live_balance (c', given', out') = mset given'" if "\<not> refusing"
    using assms(1,4,5,6) that by (simp add: live_conserved_def)
  ultimately show ?thesis using assms(2,3) by (simp add: live_conserved_def)
qed

lemma sweep_round_ok:
  assumes "sel_inv (slSelector c)" and "slSweep c = []" and "\<forall>td \<in> set (in_hand c). one_trace td"
  shows "sel_inv (slSelector (sweep_round pd now t order c)) \<and> (\<forall>td \<in> set (in_hand (sweep_round pd now t order c)). one_trace td) \<and>
    live_balance (sweep_round pd now t order c, given, out) = live_balance (c, given, out)"
proof -
  obtain p out' where f: "fold (take_trace pd now) (filter (idle now t (slSelector c)) order) (slSelector c, []) = (p, out')" by fastforce
  let ?p = "p\<lparr>prEmitted := filter (\<lambda>e. \<not> 2 * t \<le> now - snd e) (prEmitted p)\<rparr>"
  have "sweep_round pd now t order c = c\<lparr>slSelector := ?p, slSweep := out'\<rparr>"
    by (simp add: sweep_round_def sweepTimedOut_def f send_accepting)
  then show ?thesis using take_traces_ok [OF assms(1) _ f] assms(2,3)
    by (auto simp: in_hand_def live_balance_def sel_inv_def add_ac)
qed

lemma enter_call_ok:
  assumes "sel_inv (slSelector c)" and "\<forall>td \<in> set (in_hand c). one_trace td"
  shows "sel_inv (slSelector (enter_call pd now order td c)) \<and> (\<forall>td \<in> set (in_hand (enter_call pd now order td c)). one_trace td) \<and>
    live_balance (enter_call pd now order td c, given', out) = live_balance (c, given, out) + mset (spans_of_traces td)"
proof -
  obtain p calls where f: "select_batch pd now order td (slSelector c) = (p, calls)" by fastforce
  have "enter_call pd now order td c = c\<lparr>slSelector := p, slCalls := slCalls c @ [calls]\<rparr>"
    by (simp add: enter_call_def f)
  then show ?thesis using select_batch_ok [OF assms(1) f] assms(2)
    by (auto simp: in_hand_def live_balance_def add_ac)
qed

lemma flush_step_ok:
  assumes "sel_inv (slSelector c)" and "slFlush c = []" and "\<forall>td \<in> set (in_hand c). one_trace td"
  shows "sel_inv (slSelector (select_shutdown_flush pd order c)) \<and> (\<forall>td \<in> set (in_hand (select_shutdown_flush pd order c)). one_trace td) \<and>
    live_balance (select_shutdown_flush pd order c, given, out) = live_balance (c, given, out)"
proof -
  obtain p out' where f: "fold (\<lambda>trace (p, out). case map_of (prBuffers p) trace of None \<Rightarrow> (p, out)
      | Some buf \<Rightarrow> (p\<lparr>prBuffers := AList.delete trace (prBuffers p)\<rparr>, out @ [buildTraces pd buf])) order (slSelector c, []) = (p, out')"
    by fastforce
  have "select_shutdown_flush pd order c = c\<lparr>slSelector := p, slFlush := out', slClosing := SelFlushing\<rparr>"
    unfolding select_shutdown_flush_def select_Shutdown_def f by (simp add: send_accepting)
  then show ?thesis using flush_ok [OF assms(1) _ f] assms(2,3)
    by (auto simp: in_hand_def live_balance_def add_ac)
qed

lemma live_conserved_step:
  assumes "select_live pd deadline refusing (c, given, out) (c', given', out')"
    and "live_conserved refusing (c, given, out)" and "protocol_inv deadline c"
  shows "live_conserved refusing (c', given', out')"
proof -
  have i: "sel_inv (slSelector c)" "\<forall>td \<in> set (in_hand c). one_trace td" "\<forall>td \<in> set out. one_trace td"
    using assms(2) by (auto simp: live_conserved_def)
  note keep = live_conserved_keep [OF assms(2)]
  from assms(1) show ?thesis
  proof cases
    case (tick t now order)
    then show ?thesis
      using keep [where c' = c' and out' = out and lost = "{#}" and new = "[]"] sweep_round_ok [OF i(1) tick(5) i(2), of pd now t order given out] i(3) by auto
  next
    case (call now order td)
    then show ?thesis
      using keep [where c' = c' and out' = out and lost = "{#}" and new = "spans_of_traces td"] enter_call_ok [OF i(1,2), of pd now order td given' out given] i(3) by auto
  next
    case (flush order)
    have "slFlush c = []" using assms(3) flush(4) by (auto simp: protocol_inv_def)
    then show ?thesis
      using keep [where c' = c' and out' = out and lost = "{#}" and new = "[]"] flush flush_step_ok [OF i(1) _ i(2), of pd order given out] i(3) by (simp add: ball_Un)
  next
    case (sweep_refused x xs)
    then show ?thesis using keep [where c' = c' and out' = out and lost = "mset (spans_of_traces x)" and new = "[]"] i
      by (auto simp: in_hand_def live_balance_def)
  next
    case (flush_refused x xs)
    then show ?thesis using keep [where c' = c' and out' = out and lost = "mset (spans_of_traces x)" and new = "[]"] i
      by (auto simp: in_hand_def live_balance_def)
  next
    case (call_refused us x xs vs)
    then show ?thesis using keep [where c' = c' and out' = out and lost = "spans_in (x # xs)" and new = "[]"] i
      by (simp add: in_hand_def live_balance_def add_ac ball_Un)
  next
    case start
    then show ?thesis using keep [where c' = c' and out' = out and lost = "{#}" and new = "[]"] i by (simp add: in_hand_def live_balance_def ball_Un select_Start_def)
  next
    case shutdown
    then show ?thesis using keep [where c' = c' and out' = out and lost = "{#}" and new = "[]"] i by (simp add: in_hand_def live_balance_def ball_Un select_shutdown_begin_def)
  qed (use keep [where c' = c' and out' = out' and lost = "{#}" and new = "[]"] i in \<open>simp_all add: in_hand_def live_balance_def add_ac ball_Un\<close>)
qed

lemma live_conserved_run:
  assumes "(select_live pd deadline refusing)\<^sup>*\<^sup>* (newProcessor t, [], []) (c, given, out)"
  shows "live_conserved refusing (c, given, out) \<and> protocol_inv deadline c"
  using assms
proof (induction rule: rtranclp_induct2)
  case refl
  show ?case
    by (simp add: live_conserved_def live_balance_def in_hand_def newProcessor_def sel_inv_def buffered_def
        protocol_inv_def worker_ok_def)
next
  case (step c x c' x')
  then show ?case using live_conserved_step protocol_step by (cases x; cases x') blast
qed

section \<open>Shutdown comes to an end\<close>

text \<open>Whatever is on its way can be forwarded.\<close>

lemma sweep_forwarded: "\<exists>out'. (select_live pd deadline refusing)\<^sup>*\<^sup>* (c, given, out) (c\<lparr>slSweep := []\<rparr>, given, out')"
proof (induction "slSweep c" arbitrary: c out)
  case Nil
  then have "c\<lparr>slSweep := []\<rparr> = c" by simp
  then show ?case by (metis rtranclp.rtrancl_refl)
next
  case (Cons x xs)
  have "select_live pd deadline refusing (c, given, out) (c\<lparr>slSweep := xs\<rparr>, given, out @ [x])"
    by (rule select_live.sweep_sent) (simp add: Cons(2) [symmetric])
  then show ?case using Cons(1) [of "c\<lparr>slSweep := xs\<rparr>" "out @ [x]"] by (auto intro: converse_rtranclp_into_rtranclp)
qed

lemma flush_forwarded: "\<exists>out'. (select_live pd deadline refusing)\<^sup>*\<^sup>* (c, given, out) (c\<lparr>slFlush := []\<rparr>, given, out')"
proof (induction "slFlush c" arbitrary: c out)
  case Nil
  then have "c\<lparr>slFlush := []\<rparr> = c" by simp
  then show ?case by (metis rtranclp.rtrancl_refl)
next
  case (Cons x xs)
  have "select_live pd deadline refusing (c, given, out) (c\<lparr>slFlush := xs\<rparr>, given, out @ [x])"
    by (rule select_live.flush_sent) (simp add: Cons(2) [symmetric])
  then show ?case using Cons(1) [of "c\<lparr>slFlush := xs\<rparr>" "out @ [x]"] by (auto intro: converse_rtranclp_into_rtranclp)
qed

lemma flush_returns:
  assumes "slClosing c = SelWaiting" and "wkDone (slWorker c) = ClosedChan \<or> deadline"
  shows "\<exists>c' out'. (select_live pd deadline refusing)\<^sup>*\<^sup>* (c, given, out) (c', given, out') \<and> slClosing c' = SelReturned"
proof -
  let ?x = "select_shutdown_flush pd (map fst (prBuffers (slSelector c))) c"
  let ?y = "?x\<lparr>slFlush := []\<rparr>"
  have "select_live pd deadline refusing (c, given, out) (?x, given, out)"
    by (rule select_live.flush) (use assms in auto)
  moreover obtain out' where "(select_live pd deadline refusing)\<^sup>*\<^sup>* (?x, given, out) (?y, given, out')"
    using sweep_forwarded flush_forwarded by blast
  moreover have "select_live pd deadline refusing (?y, given, out') (?y\<lparr>slClosing := SelReturned\<rparr>, given, out')"
    by (rule select_live.returned) (auto simp: select_shutdown_flush_def split: prod.splits)
  ultimately have "(select_live pd deadline refusing)\<^sup>*\<^sup>* (c, given, out) (?y\<lparr>slClosing := SelReturned\<rparr>, given, out')"
    by (meson converse_rtranclp_into_rtranclp rtranclp.rtrancl_into_rtrancl)
  then show ?thesis by fastforce
qed

text \<open>A started worker that has been told to stop closes its done channel, after what it has yet to forward.\<close>

lemma worker_finishes:
  assumes "protocol_inv deadline c" and "slClosing c = SelWaiting" and "wkPhase (slWorker c) \<noteq> NotStarted"
  shows "\<exists>c' out'. (select_live pd deadline refusing)\<^sup>*\<^sup>* (c, given, out) (c', given, out') \<and>
    slClosing c' = SelWaiting \<and> wkDone (slWorker c') = ClosedChan"
proof -
  let ?run = "(select_live pd deadline refusing)\<^sup>*\<^sup>*"
  let ?t = "select_traceTimeout (slTimeout c)"
  have w: "worker_ok ?t (slWorker c)" "wkPhase (slWorker c) \<noteq> Crashed" "wkStop (slWorker c) = ClosedChan"
    using assms(1,2) by (auto simp: protocol_inv_def)
  have exit: "\<exists>x' out'. ?run (x, given, out) (x', given, out') \<and> slClosing x' = SelWaiting \<and> wkDone (slWorker x') = ClosedChan"
    if x: "slWorker x = v" "wkPhase v = Ticking ?t" "wkStop v = ClosedChan" "wkDone v = OpenChan" "slClosing x = SelWaiting" for x v
  proof -
    let ?y = "x\<lparr>slSweep := []\<rparr>"
    obtain out' where "?run (x, given, out) (?y, given, out')" using sweep_forwarded by blast
    moreover have "select_live pd deadline refusing (?y, given, out') (?y\<lparr>slWorker := worker_exit (slWorker ?y)\<rparr>, given, out')"
      by (rule select_live.exit) (use x in auto)
    ultimately have "?run (x, given, out) (?y\<lparr>slWorker := worker_exit (slWorker ?y)\<rparr>, given, out')" by (rule rtranclp.rtrancl_into_rtrancl)
    then show ?thesis using x by (fastforce simp: worker_exit_def close_chan_def)
  qed
  consider "wkPhase (slWorker c) = Spawned ?t" "wkDone (slWorker c) = OpenChan"
    | "wkPhase (slWorker c) = Ticking ?t" "wkDone (slWorker c) = OpenChan" | "wkDone (slWorker c) = ClosedChan"
    using w(1,2) assms(3) by (cases "wkPhase (slWorker c)") (auto simp: worker_ok_def)
  then show ?thesis
  proof cases
    case 1
    let ?x = "c\<lparr>slWorker := worker_begin (slWorker c)\<rparr>"
    have b: "worker_begin (slWorker c) = (slWorker c)\<lparr>wkPhase := Ticking ?t\<rparr>"
      using 1 processor_worker.ticker_made [OF TrueI] by (auto simp: worker_begin_def split: option.splits)
    have "select_live pd deadline refusing (c, given, out) (?x, given, out)" by (rule select_live.enter) (rule 1(1))
    moreover obtain x' out' where "?run (?x, given, out) (x', given, out')" "slClosing x' = SelWaiting" "wkDone (slWorker x') = ClosedChan"
      using exit [of ?x, OF refl] 1 w(3) assms(2) by (auto simp: b)
    ultimately show ?thesis by (meson converse_rtranclp_into_rtranclp)
  next
    case 2
    from exit [OF refl 2(1) w(3) 2(2) assms(2)] show ?thesis .
  next
    case 3
    then show ?thesis using assms(2) by blast
  qed
qed

lemma never_started_waits:
  assumes "(select_live pd False refusing)\<^sup>*\<^sup>* (c, x) (c', x')" and "protocol_inv False c"
    and "slClosing c = SelWaiting" and "wkPhase (slWorker c) = NotStarted"
  shows "slClosing c' = SelWaiting \<and> wkPhase (slWorker c') = NotStarted \<and> protocol_inv False c'"
  using assms(1)
proof (induction rule: rtranclp_induct2)
  case refl
  then show ?case using assms(2-4) by blast
next
  case (step c1 x1 c2 x2)
  obtain given out given' out' where x: "x1 = (given, out)" "x2 = (given', out')" by (cases x1; cases x2)
  have s: "select_live pd False refusing (c1, given, out) (c2, given', out')" using step.hyps(2) by (simp add: x)
  have "wkDone (slWorker c1) \<noteq> ClosedChan" using step.IH by (auto simp: protocol_inv_def worker_ok_def)
  with s step.IH have "slClosing c2 = SelWaiting \<and> wkPhase (slWorker c2) = NotStarted"
    by cases (auto simp: protocol_inv_def)
  then show ?case using protocol_step [OF s] step.IH by blast
qed

text \<open>C18. \<open>Shutdown\<close> of the processor comes to an end exactly when the component was started or the context can expire.
  From every reachable state in which it waits for the worker, a started component lets it return, after what the
  worker has yet to forward; for one that was never started nothing closes the done channel, and no
  continuation returns. The exporter has a guard for that case, \<open>stopCh == nil\<close>; here the channels are
  made by the constructor.\<close>

theorem select_shutdown_returns_iff:
  assumes "(select_live pd deadline refusing)\<^sup>*\<^sup>* (newProcessor t, [], []) (c, given, out)" and "slClosing c = SelWaiting"
  shows "(\<exists>c' given' out'. (select_live pd deadline refusing)\<^sup>*\<^sup>* (c, given, out) (c', given', out') \<and> slClosing c' = SelReturned) \<longleftrightarrow>
    deadline \<or> wkPhase (slWorker c) \<noteq> NotStarted"
proof -
  have inv: "protocol_inv deadline c" using live_conserved_run [OF assms(1)] by blast
  have "slClosing c' = SelWaiting"
    if "\<not> deadline" "wkPhase (slWorker c) = NotStarted" "(select_live pd deadline refusing)\<^sup>*\<^sup>* (c, given, out) (c', given', out')" for c' given' out'
    using never_started_waits [of pd refusing c "(given, out)" c' "(given', out')"] inv assms(2) that by simp
  moreover have "\<exists>c' given' out'. (select_live pd deadline refusing)\<^sup>*\<^sup>* (c, given, out) (c', given', out') \<and> slClosing c' = SelReturned" if "deadline"
    using flush_returns [OF assms(2)] that by blast
  moreover have "\<exists>c' given' out'. (select_live pd deadline refusing)\<^sup>*\<^sup>* (c, given, out) (c', given', out') \<and> slClosing c' = SelReturned"
    if s: "wkPhase (slWorker c) \<noteq> NotStarted"
  proof -
    obtain x out' where x: "(select_live pd deadline refusing)\<^sup>*\<^sup>* (c, given, out) (x, given, out')" "slClosing x = SelWaiting" "wkDone (slWorker x) = ClosedChan"
      using worker_finishes [OF inv assms(2) s] by blast
    then show ?thesis using flush_returns [OF x(2)] by (meson rtranclp_trans)
  qed
  ultimately show ?thesis by (metis sel_closing.distinct(9))
qed

text \<open>A processor that is shut down without having been started.\<close>

theorem select_shutdown_returns_iff_witness:
  "\<not> (\<exists>c' given' out'. (select_live text_pdata False False)\<^sup>*\<^sup>* (select_shutdown_begin (newProcessor 0), [], []) (c', given', out') \<and>
     slClosing c' = SelReturned)"
proof -
  let ?new = "newProcessor 0 :: bytes sel_component"
  have s: "slClosing ?new = SelOpen" "slCalls ?new = []" "slOnce ?new = False" by (simp_all add: newProcessor_def)
  have "select_live text_pdata False False (?new, [], []) (select_shutdown_begin ?new, [], [])"
    by (rule select_live.shutdown) (simp_all add: s)
  then have run: "(select_live text_pdata False False)\<^sup>*\<^sup>* (?new, [], []) (select_shutdown_begin ?new, [], [])" by blast
  have "slClosing (select_shutdown_begin ?new) = SelWaiting" "wkPhase (slWorker (select_shutdown_begin ?new)) = NotStarted"
    by (simp_all add: select_shutdown_begin_def newProcessor_def worker_stop_def close_chan_def)
  then show ?thesis using select_shutdown_returns_iff [OF run] by simp
qed

text \<open>C15. The running processor neither loses nor repeats a span. However calls, rounds of the worker and
  \<open>Shutdown\<close> interleave with each other and with the forwarding they do outside the lock, no span reaches the
  next consumer more often than it was given; and if no call is refused, every span given is in an accepted
  call, on its way to one, or buffered. When \<open>Shutdown\<close> has then returned, without its context expiring,
  everything given has been forwarded. Every call carries spans, all of one trace.\<close>

theorem running_processor_conserves:
  assumes "(select_live pd deadline refusing)\<^sup>*\<^sup>* (newProcessor t, [], []) (c, given, out)"
  shows "spans_in out \<subseteq># mset given \<and>
    (\<not> refusing \<longrightarrow> mset given = spans_in out + spans_in (in_hand c) + mset (buffered (prBuffers (slSelector c)))) \<and>
    (\<not> refusing \<and> \<not> deadline \<and> slClosing c = SelReturned \<longrightarrow> mset given = spans_in out) \<and>
    (\<forall>td \<in> set out. spans_of_traces td \<noteq> [] \<and> (\<exists>t. \<forall>s \<in> set (spans_of_traces td). spanTraceID s = t))"
proof -
  have l: "live_conserved refusing (c, given, out)" "protocol_inv deadline c" using live_conserved_run [OF assms] by auto
  have "in_hand c = [] \<and> prBuffers (slSelector c) = []" if "\<not> deadline" "slClosing c = SelReturned"
    using l(2) that by (auto simp: protocol_inv_def in_hand_def)
  moreover have "spans_in out \<subseteq># live_balance (c, given, out)" by (simp add: live_balance_def)
  then have "spans_in out \<subseteq># mset given"
    using l(1) subset_mset.order_trans by (auto simp: live_conserved_def)
  ultimately show ?thesis
    using l(1) by (auto simp: live_conserved_def live_balance_def buffered_def one_trace_def)
qed


text \<open>A span that the processor forwards, up to the return of \<open>Shutdown\<close>.\<close>

lemma calls_forwarded: "\<exists>out'. (select_live pd deadline refusing)\<^sup>*\<^sup>* (c, given, out) (c\<lparr>slCalls := []\<rparr>, given, out')"
proof (induction "sum_list (map (\<lambda>ts. Suc (length ts)) (slCalls c))" arbitrary: c out rule: less_induct)
  case less
  let ?size = "\<lambda>c. sum_list (map (\<lambda>ts. Suc (length ts)) (slCalls c))"
  have onward: "\<exists>out'. (select_live pd deadline refusing)\<^sup>*\<^sup>* (c, given, out) (c\<lparr>slCalls := []\<rparr>, given, out')"
    if s: "select_live pd deadline refusing (c, given, out) (c\<lparr>slCalls := calls\<rparr>, given, out1)"
      "?size (c\<lparr>slCalls := calls\<rparr>) < ?size c" for calls out1
    using less [OF s(2), of out1] s(1) by (auto intro: converse_rtranclp_into_rtranclp)
  show ?case
  proof (cases "slCalls c")
    case Nil
    then have "c\<lparr>slCalls := []\<rparr> = c" by simp
    then show ?thesis by (metis rtranclp.rtrancl_refl)
  next
    case calls: (Cons ts vs)
    show ?thesis
    proof (cases ts)
      case Nil
      have "select_live pd deadline refusing (c, given, out) (c\<lparr>slCalls := [] @ vs\<rparr>, given, out)"
        by (rule select_live.call_returns) (simp add: calls Nil)
      from onward [OF this] show ?thesis by (simp add: calls)
    next
      case (Cons x xs)
      have "select_live pd deadline refusing (c, given, out) (c\<lparr>slCalls := [] @ xs # vs\<rparr>, given, out @ [x])"
        by (rule select_live.call_sent) (simp add: calls Cons)
      from onward [OF this] show ?thesis by (simp add: calls Cons)
    qed
  qed
qed

lemma enter_call_frame:
  "slClosing (enter_call pd now order td c) = slClosing c" "slOnce (enter_call pd now order td c) = slOnce c"
  "slWorker (enter_call pd now order td c) = slWorker c"
  by (simp_all add: enter_call_def split: prod.splits)

theorem running_processor_conserves_witness:
  "\<exists>c out. (select_live text_pdata False False)\<^sup>*\<^sup>* (newProcessor 0, [], []) (c, [example_span], out) \<and>
     slClosing c = SelReturned \<and> mset [example_span] = mset (concat (map spans_of_traces out))"
proof -
  let ?new = "newProcessor 0 :: bytes sel_component"
  let ?run = "(select_live text_pdata False False)\<^sup>*\<^sup>*"
  let ?x = "enter_call text_pdata 0 [''0a''] (one_span_batch example_span) (select_Start ?new)"
  let ?y = "?x\<lparr>slCalls := []\<rparr>"
  have "select_live text_pdata False False (?new, [], []) (select_Start ?new, [], [])"
    by (rule select_live.start) (simp_all add: newProcessor_def)
  moreover have "select_live text_pdata False False (select_Start ?new, [], []) (?x, [] @ spans_of_traces (one_span_batch example_span), [])"
    by (rule select_live.call) (simp add: select_Start_def newProcessor_def)
  moreover have "spans_of_traces (one_span_batch example_span) = [example_span]" by (simp add: spans_of_traces_eq one_span_batch_def)
  ultimately have "?run (?new, [], []) (?x, [example_span], [])"
    using converse_rtranclp_into_rtranclp [OF _ r_into_rtranclp] by fastforce
  moreover obtain out where "?run (?x, [example_span], []) (?y, [example_span], out)" using calls_forwarded by blast
  moreover have "select_live text_pdata False False (?y, [example_span], out) (select_shutdown_begin ?y, [example_span], out)"
    by (rule select_live.shutdown) (simp_all add: enter_call_frame select_Start_def newProcessor_def)
  ultimately have z: "?run (?new, [], []) (select_shutdown_begin ?y, [example_span], out)"
    by (meson rtranclp.rtrancl_into_rtrancl rtranclp_trans)
  have w: "slClosing (select_shutdown_begin ?y) = SelWaiting" "wkPhase (slWorker (select_shutdown_begin ?y)) \<noteq> NotStarted"
    by (simp_all add: select_shutdown_begin_def enter_call_frame select_Start_def newProcessor_def worker_stop_def close_chan_def)
  have "protocol_inv False (select_shutdown_begin ?y)" using live_conserved_run [OF z] by blast
  from worker_finishes [OF this w] obtain v out1 where v: "?run (select_shutdown_begin ?y, [example_span], out) (v, [example_span], out1)"
    "slClosing v = SelWaiting" "wkDone (slWorker v) = ClosedChan" by blast
  moreover obtain c out2 where "?run (v, [example_span], out1) (c, [example_span], out2)" and c: "slClosing c = SelReturned"
    using flush_returns [OF v(2)] v(3) by blast
  ultimately have "?run (?new, [], []) (c, [example_span], out2)" using z by (meson rtranclp_trans)
  then show ?thesis using running_processor_conserves [of text_pdata False False 0 c "[example_span]" out2] c by blast
qed

end
