(* ===== verification/Pipeline.thy ===== *)
theory Pipeline
  imports Exporter_Compaction Select
begin

text \<open>
  The processor \<open>agentauditselect\<close> in front of the exporter: a call the processor makes is a batch the
  exporter consumes. The processor forwards a trace as one call so that the exporter sees it whole;
  the exporter seals a trace at its root, span by span. Two results: a forwarded trace is sealed whole
  if its root stands last in the call, and every span behind the root in the call is dropped, which
  happens although the root arrived last, because \<open>buildTraces\<close> groups the spans by resource.
\<close>

section \<open>A call as the batch of the exporter\<close>

definition exporter_batch :: "'v traces \<Rightarrow> Span list list list" where
  "exporter_batch td = map (\<lambda>rs. map ssSpans (rsScopes rs)) td"

abbreviation consume :: "(nat \<Rightarrow> span_io) \<Rightarrow> int \<Rightarrow> int \<Rightarrow> nat \<Rightarrow> Span list \<Rightarrow> exporter \<Rightarrow> exporter" where
  "consume io now i n spans e \<equiv>
     fold (\<lambda>(k, s). bufferSpan (io k) (SpanToRecord s 0) now i) (enumerate n spans) e"

lemma ConsumeTraces_batch:
  "ConsumeTraces io now (exporter_batch td) e = consume io now (effectiveCheckpointInterval (exCfg e)) 0 (spans_of_traces td) e"
  by (simp add: ConsumeTraces_def exporter_batch_def spans_of_traces_eq comp_def)

lemma record_of_span [simp]:
  "traceID (SpanToRecord s 0) = spanTraceID s" "spanID (SpanToRecord s 0) = spanSpanID s"
  "parentSpanID (SpanToRecord s 0) = spanParentSpanID s" "schemaVersion (SpanToRecord s 0) = SchemaVersion"
  by (simp_all add: SpanToRecord_def)

section \<open>What stands behind the root\<close>

lemma seal_sealed:
  "exSealed (sealTrace io t buf i e) = t # exSealed e"
  "exStartupSealed (sealTrace io t buf i e) = exStartupSealed e"
proof -
  let ?e = "e\<lparr>exBuffers := AList.delete t (exBuffers e), exSealed := t # exSealed e\<rparr>"
  let ?f = "\<lambda>e. (exSealed e, exStartupSealed e)"
  have q: "?f (snd (quarantine_trace io t recs reason x)) = ?f x" for recs reason x
    using quarantine_trace_frame [of io t recs reason x] by (simp add: same_frame_def)
  have p: "?f (rollbackLog io n safe x) = ?f x" for n safe x
    by (auto simp: rollbackLog_def poisonLog_def repairOrPoisonLog_def Let_def split: prod.split sum.split)
  have l: "?f (log_trace io t entries i x) = ?f x" for entries x
    using p cover_frame by (auto simp: log_trace_def same_frame_def Let_def split: prod.split bool.split)
  have "?f (sealTrace io t buf i e) = ?f ?e"
    using l [of _ ?e] q [of _ _ ?e]
    by (auto simp: sealTrace_def Let_def scheduleWALCompact_def split_beta split: sum.split)
  then show "exSealed (sealTrace io t buf i e) = t # exSealed e" "exStartupSealed (sealTrace io t buf i e) = exStartupSealed e"
    by simp_all
qed

definition closed_trace :: "bytes \<Rightarrow> exporter \<Rightarrow> bool" where
  "closed_trace t e \<longleftrightarrow> t = [] \<or> t \<in> set (exStartupSealed e) \<or> t \<in> set (exSealed e)"

lemma closed_ignores: "closed_trace (traceID r) e \<Longrightarrow> bufferSpan io r now i e = e"
  by (auto simp: closed_trace_def bufferSpan_def Let_def)

lemma open_buffers:
  "\<not> closed_trace (traceID r) e \<Longrightarrow> bufferSpan io r now i e =
     (if tbHasRoot (buffer_of r now e)
      then sealTrace (spSeal io) (traceID r) (buffer_of r now e) i (after_buffering (spAppend io) r now e)
      else after_buffering (spAppend io) r now e)"
  by (simp add: closed_trace_def bufferSpan_def Let_def buffer_of_def after_buffering_def)

lemma root_closes:
  assumes "parentSpanID r = []"
  shows "closed_trace (traceID r) (bufferSpan io r now i e)"
proof (cases "closed_trace (traceID r) e")
  case False
  have "tbHasRoot (buffer_of r now e)" using assms by (simp add: buffer_of_def buffer_record_def)
  then show ?thesis by (simp add: open_buffers [OF False] closed_trace_def seal_sealed)
qed (simp add: closed_ignores)

lemma closed_tail: "\<forall>s \<in> set ss. closed_trace (spanTraceID s) e \<Longrightarrow> consume io now i n ss e = e"
  by (induction ss arbitrary: n) (simp_all add: closed_ignores)

lemma consume_append:
  "consume io now i n (xs @ ys) e = consume io now i (n + length xs) ys (consume io now i n xs e)"
  by (simp add: enumerate_append_eq)

text \<open>C10. In one call of the exporter every span behind the root of its trace is dropped: the state is the
  one the call without them gives, whatever the state before, the outcome of every write, and the spans
  before the root.\<close>

theorem spans_behind_root_dropped:
  assumes "spans_of_traces td = before @ [root] @ behind" and "spanParentSpanID root = []"
    and "\<forall>s \<in> set behind. spanTraceID s = spanTraceID root"
  shows "ConsumeTraces io now (exporter_batch td) e = ConsumeTraces io now [[before @ [root]]] e"
proof -
  let ?i = "effectiveCheckpointInterval (exCfg e)"
  let ?e = "consume io now ?i 0 before e"
  have one: "consume io now ?i n [root] x = bufferSpan (io n) (SpanToRecord root 0) now ?i x" for n x by simp
  have "closed_trace (spanTraceID root) (consume io now ?i (length before) [root] ?e)"
    unfolding one using root_closes [of "SpanToRecord root 0"] assms(2) by simp
  then have "consume io now ?i (length before + length [root]) behind (consume io now ?i (length before) [root] ?e) =
      consume io now ?i (length before) [root] ?e"
    using assms(3) by (intro closed_tail) simp
  then have "consume io now ?i 0 (before @ [root] @ behind) e = consume io now ?i 0 (before @ [root]) e"
    by (simp only: consume_append add_0)
  then show ?thesis unfolding ConsumeTraces_batch assms(1) by (simp add: ConsumeTraces_def)
qed

text \<open>Three spans of one trace in the order of their arrival, the root last; the second is of another resource.\<close>

definition pipeline_span :: "bytes \<Rightarrow> bytes \<Rightarrow> Span" where
  "pipeline_span sid parent = (plain_span ''0a'')\<lparr>spanSpanID := sid, spanParentSpanID := parent\<rparr>"

definition pipeline_resource :: "bytes \<Rightarrow> Span list \<Rightarrow> bytes ResourceSpans" where
  "pipeline_resource name spans =
     \<lparr>rsSchemaUrl = [], rsAttrs = [(''service.name'', name)],
      rsScopes = [\<lparr>ssSchemaUrl = [], ssName = [], ssVersion = [], ssAttrs = [], ssSpans = spans\<rparr>]\<rparr>"

theorem spans_behind_root_dropped_witness:
  "\<exists>c1 c2 root p td.
     (sel_step text_pdata)\<^sup>*\<^sup>* (new_selector, [], []) (p, [c1, c2, root], [td]) \<and>
     spanParentSpanID c1 \<noteq> [] \<and> spanParentSpanID c2 \<noteq> [] \<and> spanParentSpanID root = [] \<and>
     spans_of_traces td = [c1, root, c2] \<and>
     (\<forall>io now e. ConsumeTraces io now (exporter_batch td) e = ConsumeTraces io now [[[c1, root]]] e)"
proof -
  let ?c1 = "pipeline_span ''02'' ''01''" and ?c2 = "pipeline_span ''03'' ''01''" and ?root = "pipeline_span ''01'' []"
  let ?in = "[pipeline_resource ''a'' [?c1], pipeline_resource ''b'' [?c2], pipeline_resource ''a'' [?root]]"
  let ?td = "[pipeline_resource ''a'' [?c1, ?root], pipeline_resource ''b'' [?c2]]"
  have q: "Quote (pdIsPrint text_pdata) ''a'' \<noteq> Quote (pdIsPrint text_pdata) ''b''"
    by (simp add: Quote_def rune_value_def escape_rune_def text_pdata_def)
  obtain p where p: "select_ConsumeTraces text_pdata 0 [''0a''] [] ?in new_selector = (([?td], True), p)"
    using q
    by (simp add: select_ConsumeTraces_def select_batch_def flatten_def select_span_def take_trace_def capture_def
        buildTraces_def group_spans_def resource_key_def scope_key_def resourceAttrsKey_def attrsMapKey_def
        pipeline_resource_def pipeline_span_def plain_span_def text_pdata_def Let_def)
  have s: "spans_of_traces ?in = [?c1, ?c2, ?root]" "spans_of_traces ?td = [?c1] @ [?root] @ [?c2]"
    by (simp_all add: spans_of_traces_eq pipeline_resource_def)
  have "sel_step text_pdata (new_selector, [], []) (p, [?c1, ?c2, ?root], [?td])"
    using sel_step.batch [OF p, of "[]" "[]"] s(1) by simp
  moreover have r: "spanParentSpanID ?root = []" "\<forall>s \<in> set [?c2]. spanTraceID s = spanTraceID ?root"
    "spanParentSpanID ?c1 \<noteq> []" "spanParentSpanID ?c2 \<noteq> []"
    by (simp_all add: pipeline_span_def plain_span_def)
  moreover note spans_behind_root_dropped [OF s(2) r(1,2)]
  ultimately show ?thesis
    using s(2) by (intro exI [of _ ?c1] exI [of _ ?c2] exI [of _ ?root] exI [of _ p] exI [of _ ?td]) auto
qed

section \<open>A forwarded trace with its root last\<close>

definition open_records :: "exporter \<Rightarrow> bytes \<Rightarrow> (bytes \<times> AuditRecord) list" where
  "open_records e t = (case map_of (exBuffers e) t of None \<Rightarrow> [] | Some b \<Rightarrow> tbRecords b)"

definition rootless :: "exporter \<Rightarrow> bytes \<Rightarrow> bool" where
  "rootless e t \<longleftrightarrow> (case map_of (exBuffers e) t of None \<Rightarrow> True | Some b \<Rightarrow> \<not> tbHasRoot b)"

lemma update_fresh: "k \<notin> fst ` set m \<Longrightarrow> AList.update k v m = m @ [(k, v)]"
  by (induction m) auto

lemma buffer_of_facts:
  assumes "spanID r \<notin> fst ` set (open_records e (traceID r))"
  shows "tbRecords (buffer_of r now e) = open_records e (traceID r) @ [(spanID r, r)]"
    "tbHasRoot (buffer_of r now e) \<longleftrightarrow> \<not> rootless e (traceID r) \<or> parentSpanID r = []"
  using update_fresh [OF assms, of r]
  by (auto simp: buffer_of_def buffer_record_def open_records_def rootless_def new_buffer_def split: option.split)

text \<open>What holds while the children of a trace are buffered: nothing but its buffer and the write-ahead log changes.\<close>

definition gathered :: "Signer \<Rightarrow> (bytes \<times> LogEntry list) list \<Rightarrow> Checkpoint list \<Rightarrow> bytes \<Rightarrow> Span list \<Rightarrow> exporter \<Rightarrow> exporter \<Rightarrow> bool" where
  "gathered signer cs0 cks0 t spans e e' \<longleftrightarrow> exp_inv signer cs0 cks0 e' \<and> exLog e' = exLog e \<and>
     exLogPoisoned e' = exLogPoisoned e \<and> exSealed e' = exSealed e \<and> exStartupSealed e' = exStartupSealed e \<and>
     rootless e' t \<and> open_records e' t = open_records e t @ map (\<lambda>s. (spanSpanID s, SpanToRecord s 0)) spans"

lemma children_gathered:
  assumes "exp_inv signer cs0 cks0 e" and "\<not> closed_trace t e" and "rootless e t"
    and "\<forall>s \<in> set spans. spanTraceID s = t \<and> spanParentSpanID s \<noteq> []"
    and "distinct (map fst (open_records e t) @ map spanSpanID spans)"
  shows "gathered signer cs0 cks0 t spans e (consume io now i 0 spans e)"
  using assms(4,5)
proof (induction spans rule: rev_induct)
  case Nil
  then show ?case using assms(1,3) by (simp add: gathered_def)
next
  case (snoc s spans)
  let ?e = "consume io now i 0 spans e" and ?r = "SpanToRecord s 0" and ?io = "io (length spans)"
  have IH: "gathered signer cs0 cks0 t spans e ?e" using snoc by auto
  have t: "spanTraceID s = t" "spanParentSpanID s \<noteq> []" using snoc.prems(1) by auto
  have "spanSpanID s \<notin> fst ` set (open_records ?e t)"
  proof -
    have "map fst (open_records ?e t) = map fst (open_records e t) @ map spanSpanID spans"
      using IH by (simp add: gathered_def comp_def)
    then have "spanSpanID s \<notin> set (map fst (open_records ?e t))" using snoc.prems(2) by auto
    then show ?thesis by simp
  qed
  note b = buffer_of_facts [of ?r ?e now, unfolded record_of_span t(1), OF this]
  have opn: "\<not> closed_trace (traceID ?r) ?e" using assms(2) IH t(1) by (simp add: gathered_def closed_trace_def)
  have root: "\<not> tbHasRoot (buffer_of ?r now ?e)" using b(2) t(2) IH by (simp add: gathered_def)
  have step: "consume io now i 0 (spans @ [s]) e = after_buffering (spAppend ?io) ?r now ?e"
    using open_buffers [OF opn] root by (simp add: enumerate_append_eq)
  have "exp_inv signer cs0 cks0 (after_buffering (spAppend ?io) ?r now ?e)"
    using files.buffering [of signer cs0 cks0 ?e ?r] IH opn by (simp add: gathered_def closed_trace_def)
  moreover have "map_of (exBuffers (after_buffering (spAppend ?io) ?r now ?e)) t = Some (buffer_of ?r now ?e)"
    using buffered [of "spAppend ?io" ?r now ?e] t(1) by simp
  ultimately show ?case
    unfolding step using IH b(1) root by (simp add: gathered_def after_buffering_def open_records_def rootless_def)
qed

text \<open>With one resource and one scope, \<open>buildTraces\<close> keeps the order of arrival.\<close>

lemma group_spans_one:
  assumes "\<forall>cs \<in> set (c # rest). resource_key pd cs = rk \<and> scope_key pd cs = sk"
  shows "\<exists>res ss. group_spans pd (c # rest) = [(rk, res, [(sk, ss)])] \<and> ssSpans ss = map csSpan (c # rest)"
proof -
  have "\<forall>cs \<in> set rest. resource_key pd cs = rk \<and> scope_key pd cs = sk \<Longrightarrow>
      \<exists>ss'. fold (\<lambda>cs. put_span (resource_key pd cs) (scope_key pd cs) cs) rest [(rk, res, [(sk, ss)])] = [(rk, res, [(sk, ss')])] \<and>
        ssSpans ss' = ssSpans ss @ map csSpan rest" for res and ss :: "'a ScopeSpans"
  proof (induction rest arbitrary: ss)
    case (Cons a rest)
    then show ?case using Cons.IH [of "ss\<lparr>ssSpans := ssSpans ss @ [csSpan a]\<rparr>"] by auto
  qed simp
  then show ?thesis using assms by (fastforce simp: group_spans_def)
qed

lemma buildTraces_one_group:
  assumes "\<forall>cs \<in> set (sbSpans buf). resource_key pd cs = rk \<and> scope_key pd cs = sk"
  shows "spans_of_traces (buildTraces pd buf) = map csSpan (sbSpans buf)"
proof (cases "sbSpans buf")
  case Nil
  then show ?thesis by (simp add: buildTraces_def group_spans_def spans_of_traces_eq)
next
  case (Cons c rest)
  then obtain res ss where "group_spans pd (sbSpans buf) = [(rk, res, [(sk, ss)])]" "ssSpans ss = map csSpan (sbSpans buf)"
    using group_spans_one [of c rest pd rk sk] assms by auto
  then show ?thesis by (auto simp: buildTraces_def spans_of_traces_eq split: prod.split)
qed

text \<open>C9. The pipeline seals a trace whole when its root stands last: if the spans of a buffer of the
  processor share one resource and scope, only the last is a root, and their ids are distinct, then in
  any state of the exporter with the invariant of its files and no trace of that id, a call with what
  \<open>buildTraces\<close> made of the buffer, under writes that succeed, appends one whole chain to the log whose
  records are those of the spans of the buffer, all of them, sorted and numbered.\<close>

theorem pipeline_seals_whole_trace:
  assumes "exp_inv (NewEd25519Signer ed priv) cs0 cks0 e" and "\<not> exLogPoisoned e"
    and "\<not> closed_trace t e" and "map_of (exBuffers e) t = None" and "GenesisSeedForSchema t SchemaVersion = Inr seed"
    and "\<forall>cs \<in> set (sbSpans buf). resource_key pd cs = rk \<and> scope_key pd cs = sk"
    and "map csSpan (sbSpans buf) = children @ [root]" and "\<forall>s \<in> set (children @ [root]). spanTraceID s = t"
    and "\<forall>s \<in> set children. spanParentSpanID s \<noteq> []" and "spanParentSpanID root = []"
    and "distinct (map spanSpanID (children @ [root]))" and "writes_ok (spSeal (io (length children)))"
  shows "\<exists>les. sealed_chain (NewEd25519Signer ed priv) t les \<and>
    exLog (ConsumeTraces io now (exporter_batch (buildTraces pd buf)) e) = exLog e @ log_file les \<and>
    map leRecord les = number_records (map (\<lambda>s. SpanToRecord s 0) (children @ [root]))"
proof -
  let ?signer = "NewEd25519Signer ed priv" and ?i = "effectiveCheckpointInterval (exCfg e)"
  let ?e = "consume io now ?i 0 children e" and ?r = "SpanToRecord root 0" and ?io = "io (length children)"
  let ?e' = "after_buffering (spAppend ?io) ?r now ?e" and ?buf = "buffer_of ?r now ?e"
  have fresh: "rootless e t" "open_records e t = []" using assms(4) by (simp_all add: rootless_def open_records_def)
  have g: "gathered ?signer cs0 cks0 t children e ?e"
    using assms(8,9,11) fresh by (intro children_gathered [OF assms(1,3)]) auto
  have root: "spanTraceID root = t" "spanSpanID root \<notin> fst ` set (open_records ?e t)"
    using assms(8,11) g fresh(2) by (auto simp: gathered_def)
  note b = buffer_of_facts [of ?r ?e now, unfolded record_of_span root(1), OF root(2)]
  have recs: "map snd (tbRecords ?buf) = map (\<lambda>s. SpanToRecord s 0) (children @ [root])"
    using b(1) g fresh(2) by (simp add: gathered_def comp_def)
  have opn: "\<not> closed_trace (traceID ?r) ?e" using assms(3) g root(1) by (simp add: gathered_def closed_trace_def)
  have "ConsumeTraces io now (exporter_batch (buildTraces pd buf)) e = bufferSpan ?io ?r now ?i ?e"
    by (simp add: ConsumeTraces_batch buildTraces_one_group [OF assms(6)] assms(7) enumerate_append_eq)
  also have "\<dots> = sealTrace (spSeal ?io) t ?buf ?i ?e'"
    using open_buffers [OF opn] b(2) assms(10) root(1) by simp
  finally have seal: "ConsumeTraces io now (exporter_batch (buildTraces pd buf)) e = \<dots>" .
  have "exp_inv ?signer cs0 cks0 ?e'"
    using files.buffering [of ?signer cs0 cks0 ?e ?r] g opn by (simp add: gathered_def closed_trace_def)
  then have e': "exSigner ?e' = ?signer" "uniform t SchemaVersion ?buf"
    using map_of_SomeD [OF buffered [of "spAppend ?io" ?r now ?e]] root(1) by (auto simp: exp_inv_def)
  have log: "\<not> exLogPoisoned ?e'" "exLog ?e' = exLog e" using assms(2) g by (simp_all add: gathered_def after_buffering_def)
  have "tbRecords ?buf \<noteq> []" using b(1) by simp
  from seal_writes_chain [OF e'(1) log(1) e'(2) this assms(5,12), of ?i] show ?thesis
    unfolding seal log(2) recs e'(1) by blast
qed

theorem pipeline_seals_whole_trace_witness:
  "\<exists>e0 les. Start toy_ed25519 toy_codec (ok_start ''k'') unset_config empty_disk = Inr e0 \<and>
     (let child = pipeline_span ''02'' ''01''; root = pipeline_span ''01'' [];
          buf = \<lparr>sbSpans = map (\<lambda>s. capture (pipeline_resource ''a'' []) (hd (rsScopes (pipeline_resource ''a'' []))) s) [child, root],
                 sbLastSeen = 0\<rparr>
      in exLog (ConsumeTraces (\<lambda>_. ok_span) 0 (exporter_batch (buildTraces text_pdata buf)) e0) = log_file les \<and>
         map leRecord les = number_records [SpanToRecord child 0, SpanToRecord root 0])"
proof -
  obtain e0 where e0: "Start toy_ed25519 toy_codec (ok_start ''k'') unset_config empty_disk = Inr e0"
    "exp_inv (NewEd25519Signer toy_ed25519 ''k'') [] [] e0" "\<not> exLogPoisoned e0" "exLog e0 = []" "exSealed e0 = []"
    "exStartupSealed e0 = []" "exBuffers e0 = []"
    by (rule fresh_step)
  let ?child = "pipeline_span ''02'' ''01''" and ?root = "pipeline_span ''01'' []"
  let ?cap = "\<lambda>s. capture (pipeline_resource ''a'' []) (hd (rsScopes (pipeline_resource ''a'' []))) s"
  let ?buf = "\<lparr>sbSpans = map ?cap [?child, ?root], sbLastSeen = 0\<rparr>"
  obtain seed where seed: "GenesisSeedForSchema ''0a'' SchemaVersion = Inr seed" using example_seeds by auto
  have keys: "\<forall>cs \<in> set (sbSpans ?buf). resource_key text_pdata cs = resource_key text_pdata (?cap ?root) \<and>
      scope_key text_pdata cs = scope_key text_pdata (?cap ?root)"
    by (simp add: resource_key_def scope_key_def capture_def)
  have "writes_ok (spSeal ((\<lambda>_. ok_span) (length [?child])))" by (simp add: writes_ok_def ok_seal_def)
  from pipeline_seals_whole_trace [OF e0(2,3) _ _ seed keys _ _ _ _ _ this, of "[?child]" ?root 0] e0 show ?thesis
    by (auto simp: Let_def closed_trace_def capture_def pipeline_span_def plain_span_def)
qed

end
