(* ===== verification/Pipeline_Race.thy ===== *)
theory Pipeline_Race
  imports Pipeline Select_Lifecycle
begin

text \<open>
  The processor and the exporter when calls overlap: the processor marks a trace as forwarded while it holds its
  lock, and makes the call for it after it has released the lock. A span that comes in between is passed
  through at once and can reach the exporter before the trace it belongs to.
\<close>

section \<open>A late span overtakes its trace\<close>

lemma two_calls:
  assumes "select_batch pd now order td (slSelector (select_Start (newProcessor t))) = (p, [whole])"
    and "select_batch pd now order' td' p = (p', [late])"
  shows "\<exists>c. (select_live pd deadline refusing)\<^sup>*\<^sup>* (newProcessor t, [], [])
    (c, spans_of_traces td @ spans_of_traces td', [late, whole])"
proof -
  let ?live = "select_live pd deadline refusing"
  let ?new = "newProcessor t :: 'a sel_component"
  let ?c0 = "select_Start ?new"
  let ?c1 = "?c0\<lparr>slSelector := p, slCalls := [[whole]]\<rparr>"
  let ?c2 = "?c1\<lparr>slSelector := p', slCalls := [[whole], [late]]\<rparr>"
  let ?c3 = "?c2\<lparr>slCalls := [[whole], []]\<rparr>"
  let ?given = "spans_of_traces td @ spans_of_traces td'"
  have new: "slClosing ?c0 = SelOpen" "slCalls ?c0 = []" by (simp_all add: select_Start_def newProcessor_def)
  have "?live (?new, [], []) (?c0, [], [])"
    by (rule select_live.start) (simp_all add: newProcessor_def)
  moreover have "?live (?c0, [], []) (?c1, spans_of_traces td, [])"
    using select_live.call [of ?c0 pd deadline refusing "[]" "[]" now order td] new assms(1) by (simp add: enter_call_def)
  moreover have "?live (?c1, spans_of_traces td, []) (?c2, ?given, [])"
    using select_live.call [of ?c1 pd deadline refusing "spans_of_traces td" "[]" now order' td'] new assms(2) by (simp add: enter_call_def)
  moreover have "?live (?c2, ?given, []) (?c3, ?given, [late])"
    using select_live.call_sent [of ?c2 "[[whole]]" late "[]" "[]" pd deadline refusing ?given "[]"] by simp
  moreover have "?live (?c3, ?given, [late]) (?c3\<lparr>slCalls := [[], []]\<rparr>, ?given, [late, whole])"
    using select_live.call_sent [of ?c3 "[]" whole "[]" "[[]]" pd deadline refusing ?given "[late]"] by simp
  ultimately have "?live\<^sup>*\<^sup>* (?new, [], []) (?c3\<lparr>slCalls := [[], []]\<rparr>, ?given, [late, whole])"
    by (blast intro: converse_rtranclp_into_rtranclp)
  then show ?thesis by blast
qed

text \<open>C19. A span that is delivered again can replace its trace in the log. The processor holds a trace until its
  root arrives so that the exporter sees it whole; but in a run of two overlapping calls without any error, the first
  with a child and the root of a trace, the second with the root again, the next consumer is called with the
  second root first. Whatever the exporter's state and the outcome of its writes, the call with the whole
  trace then changes nothing: the child is in no record.\<close>

theorem redelivered_root_overtakes_trace:
  "\<exists>c child root late whole.
     (select_live text_pdata False False)\<^sup>*\<^sup>* (newProcessor 0, [], []) (c, [child, root, root], [late, whole]) \<and>
     spans_of_traces late = [root] \<and> spans_of_traces whole = [child, root] \<and> spanParentSpanID child = spanSpanID root \<and>
     (\<forall>io io' now now' e. ConsumeTraces io' now' (exporter_batch whole) (ConsumeTraces io now (exporter_batch late) e) =
        ConsumeTraces io now (exporter_batch late) e)"
proof -
  let ?child = "pipeline_span ''02'' ''01''" and ?root = "pipeline_span ''01'' []"
  let ?whole = "[pipeline_resource ''a'' [?child, ?root]]" and ?late = "[pipeline_resource ''a'' [?root]]"
  note unfolds = select_batch_def flatten_def select_span_def take_trace_def capture_def
    buildTraces_def group_spans_def resource_key_def scope_key_def buildSingleSpanTraces_def
    pipeline_resource_def pipeline_span_def plain_span_def Let_def
  obtain p where p: "select_batch text_pdata 0 [''0a''] ?whole (slSelector (select_Start (newProcessor 0))) = (p, [?whole])"
      "select_batch text_pdata 0 [''0a''] ?late p = (p, [?late])"
    by (simp add: unfolds select_Start_def newProcessor_def)
  have s: "spans_of_traces ?whole = [?child, ?root]" "spans_of_traces ?late = [?root]"
    by (simp_all add: spans_of_traces_eq pipeline_resource_def)
  have t: "spanTraceID ?child = spanTraceID ?root" "spanParentSpanID ?child = spanSpanID ?root" "spanParentSpanID ?root = []"
    by (simp_all add: pipeline_span_def plain_span_def)
  have dropped: "ConsumeTraces io' now' (exporter_batch ?whole) (ConsumeTraces io now (exporter_batch ?late) e) =
      ConsumeTraces io now (exporter_batch ?late) e" for io io' now now' e
  proof -
    let ?e = "bufferSpan (io 0) (SpanToRecord ?root 0) now (effectiveCheckpointInterval (exCfg e)) e"
    have "closed_trace (spanTraceID ?root) ?e"
      using root_closes [of "SpanToRecord ?root 0"] t(3) by simp
    then have "consume io' now' i 0 [?child, ?root] ?e = ?e" for i
      by (intro closed_tail) (simp add: t(1))
    then show ?thesis by (simp add: ConsumeTraces_batch s)
  qed
  obtain c where "(select_live text_pdata False False)\<^sup>*\<^sup>* (newProcessor 0, [], []) (c, [?child, ?root, ?root], [?late, ?whole])"
    using two_calls [OF p] s by fastforce
  then show ?thesis using s t(2) dropped by blast
qed

end
