(* ===== verification/Demo.thy ===== *)
theory Demo
  imports Exporter_Verify Verify_Reports Report_Json
begin

text \<open>
  \<open>cmd/demo/main.go\<close>: the demonstration builds a chain of three records by hand, writes a log and a
  checkpoint with the packages the exporter uses, and runs the verifier on them. What the system answers
  is an argument; the texts that are printed are the result, together with the error of \<open>run\<close>.
\<close>

section \<open>The trace\<close>

definition demo_trace :: bytes where "demo_trace = ''aabbccddeeff00112233445566778899''"

definition traceStartNano :: UnixNano where "traceStartNano = 1764547200000000000"

definition search_record :: AuditRecord where
  "search_record =
     \<lparr>schemaVersion = SchemaVersion, traceID = demo_trace, spanID = ''0102030405060708'',
      parentSpanID = ''0a0b0c0d0e0f0102'', seqInTrace = 0, startTimeUnixNano = traceStartNano + 1000000000,
      endTimeUnixNano = traceStartNano + 2000000000, spanName = ''tool.web_search'', otelKind = ''Client'',
      genAIOperation = ''execute_tool'', auditKind = AuditKindTool,
      selectedAttributes = Some [\<lparr>attrKey = ''gen_ai.operation.name'', attrValue = ''execute_tool''\<rparr>,
        \<lparr>attrKey = ''gen_ai.system'', attrValue = ''anthropic''\<rparr>],
      status = ''Ok''\<rparr>"

definition file_record :: AuditRecord where
  "file_record =
     \<lparr>schemaVersion = SchemaVersion, traceID = demo_trace, spanID = ''0203040506070809'',
      parentSpanID = ''0a0b0c0d0e0f0102'', seqInTrace = 0, startTimeUnixNano = traceStartNano + 2000000000,
      endTimeUnixNano = traceStartNano + 3000000000, spanName = ''tool.read_file'', otelKind = ''Client'',
      genAIOperation = ''execute_tool'', auditKind = AuditKindTool,
      selectedAttributes = Some [\<lparr>attrKey = ''gen_ai.operation.name'', attrValue = ''execute_tool''\<rparr>,
        \<lparr>attrKey = ''gen_ai.system'', attrValue = ''anthropic''\<rparr>],
      status = ''Ok''\<rparr>"

definition chat_record :: AuditRecord where
  "chat_record =
     \<lparr>schemaVersion = SchemaVersion, traceID = demo_trace, spanID = ''0a0b0c0d0e0f0102'',
      parentSpanID = [], seqInTrace = 0, startTimeUnixNano = traceStartNano + 500000000,
      endTimeUnixNano = traceStartNano + 3500000000, spanName = ''gen_ai.chat'', otelKind = ''Client'',
      genAIOperation = ''chat'', auditKind = AuditKindTask,
      selectedAttributes = Some [\<lparr>attrKey = ''gen_ai.operation.name'', attrValue = ''chat''\<rparr>,
        \<lparr>attrKey = ''gen_ai.request.model'', attrValue = ''claude-sonnet-4-6''\<rparr>,
        \<lparr>attrKey = ''gen_ai.response.model'', attrValue = ''claude-sonnet-4-6''\<rparr>,
        \<lparr>attrKey = ''gen_ai.system'', attrValue = ''anthropic''\<rparr>,
        \<lparr>attrKey = ''gen_ai.usage.input_tokens'', attrValue = ''512''\<rparr>,
        \<lparr>attrKey = ''gen_ai.usage.output_tokens'', attrValue = ''128''\<rparr>],
      status = ''Ok''\<rparr>"

definition demo_records :: "AuditRecord list" where
  "demo_records = [search_record, file_record, chat_record]"

section \<open>The run\<close>

datatype demo_error =
    CreatingTempDir | GeneratingKey | DemoSeed seed_error | DemoBuild build_error | CreateLog
  | StageCheckpoint bytes | CreateCheckpoint | WriteCheckpoint | SyncCheckpoint | CloseCheckpoint
  | CommitCheckpoint commit_error | Verifier read_error | VerificationFailed

record demo_io =
  diDir :: "bytes option"
  diKey :: "bytes option"
  diCreateLog :: bool
  diLogWrite :: "nat \<Rightarrow> write_outcome"
  diNow :: bytes
  diCreateCheck :: bool
  diCheckWrite :: write_outcome
  diCheckSync :: bool
  diCheckClose :: bool
  diReadLog :: read_outcome
  diReadCheck :: read_outcome

text \<open>Step 2: sort, number and chain the records.\<close>

definition demo_chain :: "Signer \<Rightarrow> demo_error + ChainEntry list" where
  "demo_chain signer =
     (let recs = map (\<lambda>(i, r). r\<lparr>seqInTrace := int i\<rparr>) (enumerate 0 (SortRecords demo_records))
      in case GenesisSeed demo_trace of
           Inl e \<Rightarrow> Inl (DemoSeed e)
         | Inr genesisSeed \<Rightarrow>
             (case BuildChain recs genesisSeed signer of Inl e \<Rightarrow> Inl (DemoBuild e) | Inr entries \<Rightarrow> Inr entries))"

text \<open>Step 3: the log, whose write errors are ignored, and the checkpoint, whose errors are not.\<close>

definition demo_log :: "(nat \<Rightarrow> write_outcome) \<Rightarrow> LogEntry list \<Rightarrow> bytes" where
  "demo_log out les =
     concat (map (\<lambda>(i, le). let line = MarshalLogEntry le @ [LF] in
       case out i of WriteOK \<Rightarrow> line | WriteFails n \<Rightarrow> take n line) (enumerate 0 les))"

definition demo_checkpoint :: "demo_io \<Rightarrow> Signer \<Rightarrow> ChainEntry list \<Rightarrow> demo_error + bytes" where
  "demo_checkpoint io signer entries =
     (let acc = AddTip demo_trace (the (TipHash entries)) (int (length entries))
                  (NewAccumulator signer 0 ZeroPrevCheckpointHash)
      in case Stage (diNow io) acc of
           Inl e \<Rightarrow> Inl (StageCheckpoint e)
         | Inr staged \<Rightarrow>
             if \<not> diCreateCheck io then Inl CreateCheckpoint
             else (case diCheckWrite io of
                     WriteFails n \<Rightarrow> Inl WriteCheckpoint
                   | WriteOK \<Rightarrow>
                       if \<not> diCheckSync io then Inl SyncCheckpoint
                       else if \<not> diCheckClose io then Inl CloseCheckpoint
                       else (case Commit staged acc of
                               Inl e \<Rightarrow> Inl (CommitCheckpoint e)
                             | Inr _ \<Rightarrow> Inr (Marshal_Checkpoint (stCheckpoint staged) @ [LF]))))"

text \<open>Step 4: verify and print.\<close>

definition demo_report :: "(detail \<Rightarrow> bytes) \<Rightarrow> Report \<Rightarrow> bytes" where
  "demo_report detail_text report =
     ''Traces processed:      '' @ FormatUint (TracesProcessed report) @ [LF] @
     ''Checkpoints processed: '' @ FormatUint (CheckpointsProcessed report) @ [LF] @
     StatusLine report @ [LF] @
     concat (map (\<lambda>e. ''  ['' @ veTraceID e @ ''] '' @ veKind e @ '' ('' @ veSeverity e @ ''): '' @
       detail_text (veDetail e) @ [LF]) (Errors report))"

definition demo_verify :: "ed25519 \<Rightarrow> (detail \<Rightarrow> bytes) \<Rightarrow> disk_file \<Rightarrow> disk_file \<Rightarrow> bytes \<Rightarrow> bytes \<times> demo_error option" where
  "demo_verify ed detail_text log check pubKey =
     (case VerifyLog ed log check pubKey of
        Inl e \<Rightarrow> ([], Some (Verifier e))
      | Inr report \<Rightarrow>
          (demo_report detail_text report, if 0 < FatalCount report then Some VerificationFailed else None))"

definition demo_run :: "ed25519 \<Rightarrow> (detail \<Rightarrow> bytes) \<Rightarrow> demo_io \<Rightarrow> bytes \<times> demo_error option" where
  "demo_run ed detail_text io =
     (case diDir io of
        None \<Rightarrow> ([], Some CreatingTempDir)
      | Some dir \<Rightarrow>
          (case diKey io of
             None \<Rightarrow> ([], Some GeneratingKey)
           | Some privKey \<Rightarrow>
               let signer = NewEd25519Signer ed privKey;
                   out = ''Signing key fingerprint (key_id): '' @ signerKeyID signer @ [LF, LF]
               in case demo_chain signer of
                    Inl e \<Rightarrow> (out, Some e)
                  | Inr entries \<Rightarrow>
                      let out = out @ ''Built chain: '' @ FormatUint (length entries) @ '' entries'' @ [LF] @
                                  ''Tip hash:    '' @ the (TipHash entries) @ [LF, LF]
                      in if \<not> diCreateLog io then (out, Some CreateLog)
                         else
                           let log = demo_log (diLogWrite io) (ToLogEntries entries);
                               out = out @ ''Wrote '' @ dir @ ''/audit.jsonl'' @ [LF]
                           in case demo_checkpoint io signer entries of
                                Inl e \<Rightarrow> (out, Some e)
                              | Inr check \<Rightarrow>
                                  let out = out @ ''Wrote '' @ dir @ ''/checkpoint.jsonl'' @ [LF, LF] @
                                              ''Running verifier...'' @ [LF];
                                      (printed, err) = demo_verify ed detail_text (as_read (diReadLog io) (Some log))
                                        (as_read (diReadCheck io) (Some check)) (ed_public ed privKey)
                                  in (out @ printed, err)))"

section \<open>The lines fit\<close>

lemma numbered_record:
  assumes "r \<in> set (number_records recs)"
  shows "\<exists>r' \<in> set recs. \<exists>i < length recs. r = r'\<lparr>seqInTrace := int i\<rparr>"
proof -
  obtain i where "i < length recs" "r = (SortRecords recs ! i)\<lparr>seqInTrace := int i\<rparr>"
    using assms by (auto simp: number_records_def in_set_enumerate_eq SortRecords_def)
  moreover from this(1) have "SortRecords recs ! i \<in> set recs"
    using nth_mem [of i "SortRecords recs"] by (simp add: SortRecords_def)
  ultimately show ?thesis by blast
qed

lemmas demo_record_defs = search_record_def file_record_def chat_record_def demo_trace_def SchemaVersion_def
  AuditKindTool_def AuditKindTask_def traceStartNano_def

lemma demo_records_valid: "valid_record search_record" "valid_record file_record" "valid_record chat_record"
  by (simp_all add: demo_record_defs valid_record_def valid_attribute_def plain_valid_utf8)

lemma demo_records_short:
  assumes "length (FormatInt i) = 1"
  shows "length (Marshal (search_record\<lparr>seqInTrace := i\<rparr>)) < 2000"
    "length (Marshal (file_record\<lparr>seqInTrace := i\<rparr>)) < 2000"
    "length (Marshal (chat_record\<lparr>seqInTrace := i\<rparr>)) < 2000"
  using assms by (simp_all add: demo_record_defs fixture_simps del: FormatInt_def)

lemma demo_record_fits:
  assumes "r \<in> set (number_records demo_records)"
  shows "valid_record r" "length (Marshal r) < 2000"
proof -
  have "length demo_records = 3" by (simp add: demo_records_def)
  then obtain r' i where r: "r' \<in> set demo_records" "i < 3" "r = r'\<lparr>seqInTrace := int i\<rparr>"
    using numbered_record [OF assms] by metis
  then have "valid_record r'" using demo_records_valid by (auto simp: demo_records_def)
  then show "valid_record r" using r(2) by (simp add: r(3) valid_record_def)
  have "i \<in> {0, 1, 2}" using r(2) by auto
  then have "length (FormatInt (int i)) = 1" by (auto simp: FormatInt_def FormatUint.simps)
  then show "length (Marshal r) < 2000" using r(1) demo_records_short [of "int i"] by (auto simp: r(3) demo_records_def)
qed

text \<open>The chain is the one the exporter would seal for these records.\<close>

lemma demo_chain_built:
  fixes ed priv
  defines "signer \<equiv> NewEd25519Signer ed priv"
  shows "\<exists>entries. demo_chain signer = Inr entries \<and> build_trace signer demo_trace (number_records demo_records) = Inr entries"
proof -
  have hex: "hex_DecodeString ''aabbccddeeff00112233445566778899'' \<noteq> None" by code_simp
  then obtain seed where seed: "GenesisSeedForSchema demo_trace SchemaVersion = Inr seed"
    by (auto simp: GenesisSeedForSchema_def SchemaVersion_def demo_trace_def)
  obtain entries where es: "BuildChain (number_records demo_records) seed signer = Inr entries"
    using Ed25519_BuildChain_total [of "number_records demo_records" seed ed priv] unfolding signer_def by blast
  have ne: "number_records demo_records \<noteq> []"
    using number_records_facts(2) [of demo_records] by (auto simp: demo_records_def)
  have "\<forall>r \<in> set demo_records. schemaVersion r = SchemaVersion" by (simp add: demo_records_def demo_record_defs)
  then have "schemaVersion (hd (number_records demo_records)) = SchemaVersion"
    using number_records_facts(3) [OF hd_in_set [OF ne]] by auto
  then show ?thesis
    using seed es by (simp add: demo_chain_def build_trace_def GenesisSeed_def number_records_def Let_def)
qed

lemma build_from_entry:
  "build_from i prev signer rs = Inr es \<Longrightarrow> e \<in> set es \<Longrightarrow> \<exists>r \<in> set rs. \<exists>p. entry_of signer r p e"
proof (induction rs arbitrary: i prev es)
  case (Cons r rs)
  then obtain e' es' where "es = e' # es'" "entry_of signer r (sigPayload r prev) e'"
      "build_from (Suc i) (sha256 (sigPayload r prev)) signer rs = Inr es'"
    by (auto simp: build_from_Cons)
  then show ?case using Cons.IH Cons.prems(2) by (cases "e = e'") auto
qed simp

lemma tip_is_digest:
  assumes "BuildChain rs seed signer = Inr entries" and "entries \<noteq> []"
  shows "\<exists>p. the (TipHash entries) = hex_EncodeToString (sha256 p)"
proof -
  have "last entries \<in> set entries" using assms(2) by simp
  then obtain r p where "entry_of signer r p (last entries)"
    using build_from_entry assms(1) by (metis BuildChain_def)
  then show ?thesis using assms(2) by (auto simp: TipHash_def entry_of_def)
qed

lemma signed_entry_fits:
  assumes "x \<in> set (ToLogEntries entries)" and "BuildChain rs seed (NewEd25519Signer ed priv) = Inr entries"
    and "\<forall>r \<in> set rs. valid_record r \<and> length (Marshal r) < 2000" and "\<forall>k m. length (ed_sign ed k m) = 64"
  shows "valid_entry x \<and> short_line (MarshalLogEntry x)"
proof -
  obtain e where e: "e \<in> set entries" "x = \<lparr>leRecord = ceRecord e, leSigned = \<lparr>seKeyID = ceKeyID e,
      seAlgorithm = ''ed25519'', seEntryHash = ceEntryHash e, seSignature = ceSignature e\<rparr>\<rparr>"
    using assms(1) by (auto simp: ToLogEntries_def)
  obtain r p where r: "r \<in> set rs" "entry_of (NewEd25519Signer ed priv) r p e"
    using build_from_entry assms(2) e(1) by (metis BuildChain_def)
  then have f: "ceRecord e = r" "ceEntryHash e = hex_EncodeToString (sha256 p)"
    "ceKeyID e = hex_EncodeToString (sha256 (ed_public ed priv))" "ceSignature e = b64_EncodeToString (ed_sign ed priv p)"
    by (auto simp: entry_of_def NewEd25519Signer_def Ed25519Signer_Sign_def)
  have v: "valid_record r" "length (render (AuditRecord_json r)) < 2000"
    using assms(3) r(1) by (auto simp: Marshal_def AuditRecord_MarshalJSON_def)
  then have "valid_entry x" by (simp add: e(2) f valid_entry_def valid_signed_def plain_valid_utf8)
  moreover have "short_line (MarshalLogEntry x)"
    using v(2) assms(4) by (simp add: e(2) f MarshalLogEntry_def LogEntry_json_def SignedEntry_json_def esc_plain
        plain_hex_Encode plain_b64_Encode short_line_def maxScanTokenSize_def
        esc_safe safe_char_def)
  ultimately show ?thesis by simp
qed

lemma demo_log_whole: "(\<And>i. out i = WriteOK) \<Longrightarrow> demo_log out les = log_file les"
proof -
  assume "\<And>i. out i = WriteOK"
  then have "map (\<lambda>(i, le). let line = MarshalLogEntry le @ [LF] in
       case out i of WriteOK \<Rightarrow> line | WriteFails n \<Rightarrow> take n line) (enumerate n les) =
      map (\<lambda>le. MarshalLogEntry le @ [LF]) les" for n
    by (induction les arbitrary: n) (simp_all add: Let_def)
  then show ?thesis by (simp add: demo_log_def terminate_lines_def comp_def)
qed

text \<open>A checkpoint over one tip of plain text fits a line.\<close>

lemma lone_checkpoint_fits:
  assumes "Stage ts (AddTip t h n (NewAccumulator (NewEd25519Signer ed priv) 0 ZeroPrevCheckpointHash)) = Inr st"
    and "list_all plain_char ts" and "length ts \<le> 100" and "list_all plain_char t" and "length t \<le> 100"
    and "list_all plain_char h" and "length h \<le> 100" and "n \<in> {0, 1, 2, 3}" and "\<forall>k m. length (ed_sign ed k m) = 64"
  shows "valid_checkpoint (stCheckpoint st) \<and> short_line (Marshal_Checkpoint (stCheckpoint st))"
proof -
  obtain p where cp: "stCheckpoint st = \<lparr>cpSchemaVersion = SchemaVersion, cpCheckpointSeq = 1, cpTimestamp = ts,
      cpPrevCheckpointHash = ZeroPrevCheckpointHash,
      cpTraceTips = Some [\<lparr>tipTraceID = t, tipHash = h, tipEntryCount = n\<rparr>],
      cpKeyID = hex_EncodeToString (sha256 (ed_public ed priv)), cpAlgorithm = ''ed25519'',
      cpSignature = b64_EncodeToString (ed_sign ed priv p)\<rparr>"
    using assms(1) by (auto simp: Stage_def stageLocked_def Let_def AddTip_def NewAccumulator_def
        NewEd25519Signer_def Ed25519Signer_Sign_def)
  have plain: "valid_utf8 ts" "valid_utf8 t" "valid_utf8 h" using assms(2,4,6) by (simp_all add: valid_utf8_plain)
  then have "valid_checkpoint (stCheckpoint st)"
    using valid_ZeroPrev assms(8) by (auto simp: valid_checkpoint_def cp valid_tip_def plain_valid_utf8 SchemaVersion_def)
  moreover have "length (FormatInt n) = 1" using assms(8) by (auto simp: FormatInt_def FormatUint.simps)
  then have "short_line (Marshal_Checkpoint (stCheckpoint st))"
    using assms(2-7,9)
    by (simp add: cp short_line_def maxScanTokenSize_def Marshal_Checkpoint_def Checkpoint_json_def TraceTip_json_def
        json_slice_def esc_plain plain_hex_Encode plain_b64_Encode ZeroPrev_hex SchemaVersion_def FormatUint.simps esc_safe safe_char_def)
  ultimately show ?thesis by simp
qed

section \<open>The demonstration succeeds\<close>

definition undisturbed :: "demo_io \<Rightarrow> bool" where
  "undisturbed io \<longleftrightarrow> diDir io \<noteq> None \<and> diKey io \<noteq> None \<and> diCreateLog io \<and> (\<forall>i. diLogWrite io i = WriteOK) \<and>
     diCreateCheck io \<and> diCheckWrite io = WriteOK \<and> diCheckSync io \<and> diCheckClose io \<and>
     diReadLog io = ReadWhole \<and> diReadCheck io = ReadWhole \<and> list_all plain_char (diNow io) \<and> length (diNow io) \<le> 100"

lemma demo_checkpoint_written:
  assumes "undisturbed io" and "\<forall>k m. length (ed_sign ed k m) = 64" and "length entries = 3"
    and "the (TipHash entries) = hex_EncodeToString (sha256 p)"
  shows "\<exists>s. acc_step\<^sup>*\<^sup>* (acc_start (NewEd25519Signer ed priv) 0 ZeroPrevCheckpointHash) s \<and>
    demo_checkpoint io (NewEd25519Signer ed priv) entries = Inr (checkpoint_file (runCommitted s)) \<and>
    runAdded s = [\<lparr>tipTraceID = demo_trace, tipHash = the (TipHash entries), tipEntryCount = 3\<rparr>] \<and>
    length (runCommitted s) = 1 \<and> (\<forall>c \<in> set (runCommitted s). valid_checkpoint c \<and> short_line (Marshal_Checkpoint c))"
proof -
  let ?acc = "AddTip demo_trace (the (TipHash entries)) 3 (NewAccumulator (NewEd25519Signer ed priv) 0 ZeroPrevCheckpointHash)"
  obtain st where st: "Stage (diNow io) ?acc = Inr st"
    by (auto simp: Stage_def stageLocked_def Let_def AddTip_def NewAccumulator_def NewEd25519Signer_def Ed25519Signer_Sign_def)
  have trace: "list_all plain_char demo_trace" "length demo_trace \<le> 100" by (simp_all add: demo_trace_def plain_char_def)
  have fits: "valid_checkpoint (stCheckpoint st) \<and> short_line (Marshal_Checkpoint (stCheckpoint st))"
    by (rule lone_checkpoint_fits [OF st _ _ trace])
       (use assms in \<open>simp_all add: undisturbed_def plain_hex_Encode\<close>)
  obtain a where commit: "Commit st ?acc = Inr a" using commit_succeeds [OF stage_succeeds(1) [OF st]] by blast
  have content: "demo_checkpoint io (NewEd25519Signer ed priv) entries = Inr (checkpoint_file [stCheckpoint st])"
    using assms(1,3) by (simp add: demo_checkpoint_def st commit undisturbed_def Let_def)
  from run_one_checkpoint [OF st] obtain s where
      "acc_step\<^sup>*\<^sup>* (acc_start (NewEd25519Signer ed priv) 0 ZeroPrevCheckpointHash) s" "runCommitted s = [stCheckpoint st]"
      "runAdded s = [\<lparr>tipTraceID = demo_trace, tipHash = the (TipHash entries), tipEntryCount = 3\<rparr>]"
    by blast
  then show ?thesis using fits content by auto
qed

text \<open>C38. The demonstration demonstrates: with a correct signature scheme with signatures of 64 bytes, and when
  the system does what it is asked, \<open>run\<close> of the demo program ends without an error, and the last thing
  it prints is the report of the verifier on one trace and one checkpoint, with \<open>Status: OK\<close>.\<close>

theorem demo_verifies:
  assumes "ed25519_correct ed" and "\<forall>k m. length (ed_sign ed k m) = 64" and "undisturbed io"
  shows "\<exists>out. demo_run ed detail_text io =
    (out @ ''Traces processed:      1'' @ [LF] @ ''Checkpoints processed: 1'' @ [LF] @ ''Status: OK'' @ [LF], None)"
proof -
  obtain dir priv where io: "diDir io = Some dir" "diKey io = Some priv" using assms(3) by (auto simp: undisturbed_def)
  let ?signer = "NewEd25519Signer ed priv"
  obtain entries where es: "demo_chain ?signer = Inr entries"
      "build_trace ?signer demo_trace (number_records demo_records) = Inr entries"
    using demo_chain_built [of ed priv] by auto
  have recs: "demo_records \<noteq> []" "\<forall>r \<in> set demo_records. traceID r = demo_trace \<and> schemaVersion r = SchemaVersion"
    by (simp_all add: demo_records_def demo_record_defs)
  note sealed = build_trace_sealed [OF es(2) recs]
  obtain seed where chain: "BuildChain (number_records demo_records) seed ?signer = Inr entries"
    using es(2) by (auto simp: build_trace_def split: sum.splits)
  have len: "length entries = 3"
    using BuildChain_chain(2) [OF chain] number_records_facts(2) [of demo_records] by (simp add: demo_records_def)
  obtain p where tip: "the (TipHash entries) = hex_EncodeToString (sha256 p)" using tip_is_digest [OF chain sealed(4)] by blast
  from demo_checkpoint_written [OF assms(3,2) len tip] obtain s where s:
      "acc_step\<^sup>*\<^sup>* (acc_start ?signer 0 ZeroPrevCheckpointHash) s"
      "demo_checkpoint io ?signer entries = Inr (checkpoint_file (runCommitted s))"
      "runAdded s = [\<lparr>tipTraceID = demo_trace, tipHash = the (TipHash entries), tipEntryCount = 3\<rparr>]"
      "length (runCommitted s) = 1" "\<forall>c \<in> set (runCommitted s). valid_checkpoint c \<and> short_line (Marshal_Checkpoint c)"
    by blast
  let ?cs = "[(demo_trace, ToLogEntries entries)]"
  have "\<forall>x \<in> set (runAdded s). tip_in ?cs x" using s(3) sealed(2,3) len by (simp add: tip_in_def)
  moreover have "writable (concat (map snd ?cs)) (runCommitted s)"
    using s(5) signed_entry_fits [OF _ chain _ assms(2)] demo_record_fits by (auto simp: writable_def)
  ultimately obtain r where r: "VerifyLog ed (Content (log_file (ToLogEntries entries))) (Content (checkpoint_file (runCommitted s)))
      (ed_public ed priv) = Inr r" "Errors r = []" "TracesProcessed r = 1" "CheckpointsProcessed r = 1"
    using chains_verify [OF assms(1) _ _ acc_inv_reachable [OF s(1)], of ?cs] sealed(1) s(4) by auto
  have "demo_verify ed detail_text (Content (log_file (ToLogEntries entries))) (Content (checkpoint_file (runCommitted s))) (ed_public ed priv) =
      (''Traces processed:      1'' @ [LF] @ ''Checkpoints processed: 1'' @ [LF] @ ''Status: OK'' @ [LF], None)"
    by (simp add: demo_verify_def r demo_report_def StatusLine_def FatalCount_def FormatUint.simps digit_char_def chr_one)
  then show ?thesis
    using assms(3) demo_log_whole [of "diLogWrite io"]
    by (simp add: demo_run_def io es(1) s(2) undisturbed_def Let_def)
qed

text \<open>A scheme with signatures of 64 bytes, and a system that does what it is asked.\<close>

definition wide_ed25519 :: ed25519 where
  "wide_ed25519 =
     \<lparr>ed_public = (\<lambda>k. k), ed_sign = (\<lambda>k m. sha256 (k @ m) @ sha256 m),
      ed_verify = (\<lambda>k m s. s = sha256 (k @ m) @ sha256 m)\<rparr>"

definition calm_io :: demo_io where
  "calm_io =
     \<lparr>diDir = Some ''/tmp/demo'', diKey = Some ''k'', diCreateLog = True, diLogWrite = (\<lambda>_. WriteOK), diNow = ''2026'',
      diCreateCheck = True, diCheckWrite = WriteOK, diCheckSync = True, diCheckClose = True, diReadLog = ReadWhole,
      diReadCheck = ReadWhole\<rparr>"

theorem demo_verifies_witness:
  "\<exists>out. demo_run wide_ed25519 (\<lambda>_. ''...'') calm_io =
    (out @ ''Traces processed:      1'' @ [LF] @ ''Checkpoints processed: 1'' @ [LF] @ ''Status: OK'' @ [LF], None)"
  by (rule demo_verifies)
     (simp_all add: wide_ed25519_def ed25519_correct_def length_sha256 calm_io_def undisturbed_def plain_char_def)

end
