(* ===== verification/Spec2Isabelle.thy ===== *)
theory Spec2Isabelle
  imports Prelude Go_Text Json Json_Glue Sha256 Audit_Record Sign Keys Config Chain Checkpoint Verify_Log Verify_Reports Report_Json
    Cli Repair Wal Wal_Store Exporter Exporter_Seal Exporter_Start Exporter_Inv Exporter_Runs Exporter_Verify
    Exporter_Behaviour Exporter_Recovery Exporter_Compaction Exporter_Restart Exporter_Crash Worker Lifecycle
    Select Select_Lifecycle Pipeline Pipeline_Race Demo
begin

text \<open>
  A verification library for otel-agent-audit: a collector exporter that turns spans into a signed,
  hash-chained audit log, the checkpoints over it, the verifier of both, and a processor that gathers
  traces in front of the exporter.

  How the program works. \<open>processor/agentauditselect\<close> buffers the spans of a trace and forwards it as one
  call when its root arrives or it has been idle. \<open>exporter/agentauditexporter/exporter.go\<close> turns each span
  into a record (\<open>internal/record\<close>), appends it to a write-ahead log (\<open>internal/wal\<close>), buffers it by trace,
  and seals a trace at its root, on a timeout or at shutdown: the records are sorted, numbered, chained by
  hash and signed over their canonical bytes (\<open>internal/chain\<close>, \<open>internal/canonical\<close>, \<open>internal/sign\<close>) and
  written to the log; the tip of the chain waits in the accumulator until a checkpoint covers it
  (\<open>internal/chain/checkpoint.go\<close>). \<open>internal/verify\<close> reads both files and reports; the command
  \<open>cmd/otel-agent-audit-verify\<close> prints the report and sets the exit code.

  The theories, in the order of their imports:
  \<^item> \<open>Prelude\<close>, \<open>Go_Text\<close>, \<open>Json\<close>, \<open>Json_Glue\<close> (what a torn text and a whole one read as together), \<open>Sha256\<close>: byte strings and association lists, the parts of \<open>strconv\<close>,
    \<open>encoding/hex\<close>, \<open>encoding/base64\<close>, \<open>unicode/utf8\<close>, \<open>bufio.Scanner\<close> and \<open>encoding/json\<close> the source calls,
    and SHA-256.
  \<^item> \<open>Audit_Record\<close> (record.go, canonical.go), \<open>Sign\<close> and \<open>Keys\<close> (sign.go), \<open>Config\<close> (config.go and the
    defaults of exporter.go), \<open>Chain\<close> (chain.go), \<open>Checkpoint\<close> (checkpoint.go): the data and the pure
    operations. The accumulator is a record; each of its operations is one function on it.
  \<^item> \<open>Verify_Log\<close>, \<open>Verify_Reports\<close> (verify.go), \<open>Report_Json\<close> and \<open>Cli\<close> (cmd/otel-agent-audit-verify/main.go):
    the verifier, what its reports mean, their JSON text, and the command.
  \<^item> \<open>Wal\<close>, \<open>Wal_Store\<close> (wal.go): the file operations with every failure point, and their refinement of an
    abstract log of spans and tips.
  \<^item> \<open>Repair\<close>, \<open>Exporter\<close>, \<open>Exporter_Seal\<close>, \<open>Exporter_Start\<close> (exporter.go): the repair of a torn file; the
    state record with its writes, checkpoints, rollbacks and quarantine; sealing, buffering, the sweep,
    the compaction goroutine and shutdown; start and recovery.
  \<^item> \<open>Exporter_Inv\<close>, \<open>Exporter_Runs\<close>, \<open>Exporter_Verify\<close>, \<open>Exporter_Behaviour\<close>, \<open>Exporter_Recovery\<close>,
    \<open>Exporter_Compaction\<close>, \<open>Exporter_Restart\<close>, \<open>Exporter_Crash\<close>: the step relation \<open>exp_step\<close> and the properties of its runs.
  \<^item> \<open>Worker\<close>, \<open>Lifecycle\<close> (exporter.go, factory.go): the background goroutine with its channels and ticker, and the
    exporter as a running component, in which calls, ticks, compactions and \<open>Shutdown\<close> interleave.
  \<^item> \<open>Select\<close> (processor.go, config.go of the processor), \<open>Select_Lifecycle\<close> (processor.go, factory.go), the same for
    the processor, whose calls of the next consumer are outside its lock and interleave; \<open>Pipeline\<close> and
    \<open>Pipeline_Race\<close>: the processor in front of the exporter; \<open>Demo\<close> (cmd/demo/main.go): the demonstration program.

  Interfaces. \<open>hash_chain\<close> (interpreted for the entries of a trace and for the checkpoints) carries
  tamper evidence; \<open>faithful_signer\<close> what a chain needs of a signer; \<open>span_store\<close> what the exporter needs
  of its write-ahead log; \<open>exporter_invariant\<close> what an invariant has to survive to hold along every
  run, interpreted for the invariant of the files, the type of the buffers and the retry threshold;
  \<open>ticking_worker\<close> what a component promises about the timeout of its worker, interpreted for both.

  What the lemmas show. Honest files verify, from \<open>Start\<close> over every run under every write fault
  and every interleaving
  (\<open>component_files_verify\<close>, \<open>honest_log_verifies\<close>, for strings in UTF-8, lines below the limit and traces sealed
  once, which \<open>overlong_entry_blocks_verification\<close> and \<open>unmarked_seal_is_repeated\<close> show to be needed); the processor loses and repeats no span
  (\<open>running_processor_conserves\<close>); what was covered cannot be changed unnoticed, short of a
  SHA-256 collision that the theorem exhibits (\<open>covered_trace_is_fixed\<close>, \<open>chain_tamper_evident\<close>,
  \<open>checkpoint_history_tamper_evident\<close>); the report is characterised exactly (\<open>no_fatal_finding_iff\<close>,
  \<open>VerifyChain_accepts_exactly\<close>); crashes and torn writes (\<open>wal_crash_consistent\<close>, \<open>seal_is_all_or_nothing\<close>,
  \<open>torn_write_is_repaired\<close>); progress (\<open>root_span_seals_trace\<close>, \<open>checkpoint_retried_at_cap\<close>,
  \<open>pipeline_seals_whole_trace\<close>, \<open>shutdown_returns\<close>, \<open>select_shutdown_returns_iff\<close>); and where the code falls short of its comments and docs, each as a theorem
  with a concrete run (\<open>stale_compaction_loses_tip\<close>, \<open>unmarked_seal_is_repeated\<close>, \<open>spans_behind_root_dropped\<close>,
  \<open>unreadable_checkpoint_breaks_chain\<close>, \<open>torn_append_swallows_next\<close>, \<open>oversized_span_blocks_restart\<close>,
  \<open>overlong_entry_blocks_verification\<close>, \<open>failed_forward_loses_trace\<close>, \<open>redelivered_root_overtakes_trace\<close>, \<open>ticker_panics_exactly\<close>,
  \<open>second_shutdown_panics\<close>, \<open>trace_id_forges_report_line\<close>; the last one does not touch the \<open>-json\<close> output, \<open>json_output_is_the_report\<close>).

  How the model stands for the code. A Go error is the left of a sum or an option; a map is an
  association list, and where the code ranges over a map the order is an argument; a mutex makes an
  operation one step, and concurrency is the interleaving of such steps. A channel is nil, open or closed;
  closing one that is not open and a ticker of no positive period are panics. What the system answers (whether a call fails, how many bytes of a write
  reach the file, the time, a formatted timestamp) is an argument of the operation, so a theorem that
  does not restrict it holds for every answer. A file is its bytes; a crash is the state between two
  steps or a write cut short. \<open>uint64\<close> times are 64-bit words; counters of tips are unbounded integers
  except for the default cap, whose product wraps at 64 bits (\<open>wrap64\<close>). \<open>sort.Slice\<close>, which is not stable, is
  modelled by a stable sort; the records of a trace have distinct keys when their span ids differ.

  Bounds. The JSON descent gets fuel twice the length of the input plus two, which is enough
  (the lemma \<open>decoding_terminates\<close>); its nesting limit of 10000 is Go's. The line limits are the code's: 4 MiB for
  the verifier, the write-ahead log, the repair and the last checkpoint.

  Parameters. Ed25519 (\<open>ed25519_correct\<close>: a signature of the private key verifies under its public key;
  for the demonstration also that a signature has 64 bytes),
  the PEM and ASN.1 codecs (\<open>faithful_codec\<close>), \<open>pcommon.Value.AsString\<close> and \<open>strconv.IsPrint\<close> (no hypothesis),
  and the texts of findings as the command prints them.

  Not modelled. The registration of the factories with the collector, logging, the synchronisation of
  parent directories (it has no effect on contents), usage and error messages of the command,
  the interleaving of the background goroutines with \<open>Start\<close> before it returns, the goroutines of compaction
  that outlive an expired context of the exporter's \<open>Shutdown\<close>, and calls of \<open>ConsumeTraces\<close> that come after
  \<open>Shutdown\<close>, which the collector rules out.
\<close>

section \<open>Decoding ends\<close>

text \<open>Every decoder is the same descent over its input, with fuel from the length of the input.\<close>

lemma json_Unmarshal_fuel:
  "json_Unmarshal fs zero s =
     (case parse_value (2 * length s + 1 + k) max_nesting s of
        None \<Rightarrow> None
      | Some (j, t) \<Rightarrow> if skip_ws t = [] then decode_struct fs j zero else None)"
proof -
  have "parse_value (2 * length s + 2) max_nesting s = parse_value (2 * length s + 1 + k) max_nesting s"
    using parse_value_fuel [of s "2 * length s + 1" "2 * length s + 2" max_nesting]
      parse_value_fuel [of s "2 * length s + 1" "2 * length s + 1 + k" max_nesting] by simp
  then show ?thesis by (simp add: json_Unmarshal_def parse_json_def split: option.split)
qed

text \<open>The recursive descent behind every decoder ends: with any amount of fuel from twice the length of
  the input plus one on, the record, log entry, checkpoint and write-ahead log decoders return the same
  value, so that \<open>None\<close> always means a refused document and never an exhausted descent.\<close>

lemma decoding_terminates:
  "Unmarshal s = (case parse_value (2 * length s + 1 + k) max_nesting s of None \<Rightarrow> None
     | Some (j, t) \<Rightarrow> if skip_ws t = [] then decode_struct AuditRecord_fields j AuditRecord_zero else None) \<and>
   UnmarshalLogEntry s = (case parse_value (2 * length s + 1 + k) max_nesting s of None \<Rightarrow> None
     | Some (j, t) \<Rightarrow> if skip_ws t = [] then decode_struct LogEntry_fields j LogEntry_zero else None) \<and>
   Unmarshal_Checkpoint s = (case parse_value (2 * length s + 1 + k) max_nesting s of None \<Rightarrow> None
     | Some (j, t) \<Rightarrow> if skip_ws t = [] then decode_struct Checkpoint_fields j Checkpoint_zero else None) \<and>
   Unmarshal_walEntry s = (case parse_value (2 * length s + 1 + k) max_nesting s of None \<Rightarrow> None
     | Some (j, t) \<Rightarrow> if skip_ws t = [] then decode_struct walEntry_fields j walEntry_zero else None)"
  unfolding Unmarshal_def UnmarshalLogEntry_def Unmarshal_Checkpoint_def Unmarshal_walEntry_def
  by (intro conjI json_Unmarshal_fuel)

end
